(* ===== verification/Prelude.thy ===== *)
theory Prelude
  imports Main "HOL-Library.List_Lexorder" "HOL-Library.Char_ord"
begin

text \<open>
  What every component theory shares: the exceptions of the program as values, results
  that are either an exception or a value, Python text, and generic lemmas about lists
  used as tables.

  Python text is a \<open>string\<close>: one \<open>char\<close> is one code point, restricted to the
  code points below 256. Exception texts (they are Chinese sentences in the source) are
  dropped: an exception is its class.
\<close>

section \<open>Collections\<close>

named_theorems res_simps \<open>rewriting of results: attempt, guards, traversals\<close>
named_theorems table_simps \<open>rewriting of tables: selection and update of rows\<close>

section \<open>Exceptions and results\<close>

datatype py_error =
    ValueError
  | TypeError
  | KeyError
  | LookupError
  | IndexError
  | PermissionError
  | RuntimeError
  | ConnectionError
  | IntegrityError
  | InvalidPage
  | MessageConflict
  | SourceHeadConflict
  | WriterExpired
  | GoalStale
  | GoalConflict
  | OperationalError
  | OverflowError
  | OSError

type_synonym 'a res = "py_error + 'a"

text \<open>Running \<open>m\<close> and, when it returns, going on with its value; an exception propagates.\<close>

definition attempt :: "'a res \<Rightarrow> ('a \<Rightarrow> 'b res) \<Rightarrow> 'b res" where
  "attempt m f = (case m of Inl e \<Rightarrow> Inl e | Inr x \<Rightarrow> f x)"

lemma attempt_Inl [simp, res_simps]: "attempt (Inl e) f = Inl e"
  by (simp add: attempt_def)

lemma attempt_Inr [simp, res_simps]: "attempt (Inr x) f = f x"
  by (simp add: attempt_def)

lemma attempt_eq_Inr [res_simps]:
  "attempt m f = Inr y \<longleftrightarrow> (\<exists>x. m = Inr x \<and> f x = Inr y)"
  by (cases m) auto

lemma attempt_eq_Inl [res_simps]:
  "attempt m f = Inl e \<longleftrightarrow> m = Inl e \<or> (\<exists>x. m = Inr x \<and> f x = Inl e)"
  by (cases m) auto

lemma attempt_cong [fundef_cong]:
  "m = m' \<Longrightarrow> (\<And>x. m' = Inr x \<Longrightarrow> f x = f' x) \<Longrightarrow> attempt m f = attempt m' f'"
  by (cases m') auto

text \<open>\<open>if bad: raise e\<close>.\<close>

definition fail_if :: "bool \<Rightarrow> py_error \<Rightarrow> unit res" where
  "fail_if bad e = (if bad then Inl e else Inr ())"

lemma fail_if_simps [simp, res_simps]:
  "fail_if True e = Inl e" "fail_if False e = Inr ()"
  by (simp_all add: fail_if_def)

lemma fail_if_eq_Inr [simp, res_simps]: "fail_if b e = Inr u \<longleftrightarrow> \<not> b"
  by (simp add: fail_if_def)

lemma fail_if_eq_Inl [simp, res_simps]: "fail_if b e = Inl e' \<longleftrightarrow> b \<and> e' = e"
  by (auto simp: fail_if_def)

text \<open>Applying a fallible function to every element, left to right, up to the first exception.\<close>

fun traverse :: "('a \<Rightarrow> 'b res) \<Rightarrow> 'a list \<Rightarrow> 'b list res" where
  "traverse f [] = Inr []"
| "traverse f (x # xs) = attempt (f x) (\<lambda>y. attempt (traverse f xs) (\<lambda>ys. Inr (y # ys)))"

lemma traverse_Inr_list_all2:
  "traverse f xs = Inr ys \<longleftrightarrow> list_all2 (\<lambda>x y. f x = Inr y) xs ys"
  by (induction xs arbitrary: ys) (auto simp: res_simps list_all2_Cons1)

lemma traverse_map: "traverse f (map g xs) = traverse (f \<circ> g) xs"
  by (induction xs) auto

lemma traverse_Inr_map:
  "(\<And>x. x \<in> set xs \<Longrightarrow> f x = Inr (g x)) \<Longrightarrow> traverse f xs = Inr (map g xs)"
  by (induction xs) auto

lemma traverse_Inr_set:
  "traverse f xs = Inr ys \<Longrightarrow> y \<in> set ys \<Longrightarrow> \<exists>x \<in> set xs. f x = Inr y"
  by (induction xs arbitrary: ys) (auto simp: res_simps)

lemma traverse_Inr_length: "traverse f xs = Inr ys \<Longrightarrow> length ys = length xs"
  by (induction xs arbitrary: ys) (auto simp: res_simps)

lemma traverse_append:
  "traverse f (xs @ ys) = attempt (traverse f xs) (\<lambda>us. attempt (traverse f ys) (\<lambda>vs. Inr (us @ vs)))"
proof (induction xs)
  case Nil
  show ?case by (cases "traverse f ys") simp_all
next
  case (Cons x xs)
  then show ?case
    by (cases "f x"; cases "traverse f xs"; cases "traverse f ys") simp_all
qed

lemma traverse_cong [fundef_cong]:
  "xs = ys \<Longrightarrow> (\<And>x. x \<in> set ys \<Longrightarrow> f x = g x) \<Longrightarrow> traverse f xs = traverse g ys"
  by (induction ys arbitrary: xs) (auto intro: attempt_cong)

text \<open>A loop whose body updates a state and may raise.\<close>

fun fold_res :: "('s \<Rightarrow> 'a \<Rightarrow> 's res) \<Rightarrow> 's \<Rightarrow> 'a list \<Rightarrow> 's res" where
  "fold_res f s [] = Inr s"
| "fold_res f s (x # xs) = attempt (f s x) (\<lambda>s'. fold_res f s' xs)"

lemma fold_res_append: "fold_res f s (xs @ ys) = attempt (fold_res f s xs) (\<lambda>s'. fold_res f s' ys)"
proof (induction xs arbitrary: s)
  case (Cons x xs)
  then show ?case by (cases "f s x") auto
qed simp

lemma fold_res_keeps:
  assumes "\<And>s x s'. x \<in> set xs \<Longrightarrow> P s \<Longrightarrow> f s x = Inr s' \<Longrightarrow> P s'"
    and "P s" "fold_res f s xs = Inr s'"
  shows "P s'"
  using assms
proof (induction xs arbitrary: s)
  case (Cons x xs)
  from Cons.prems(3) obtain s1 where "f s x = Inr s1" "fold_res f s1 xs = Inr s'"
    by (auto simp: attempt_eq_Inr)
  then show ?case using Cons.IH [of s1] Cons.prems(1) [of x s s1] Cons.prems(1,2) by auto
qed simp

text \<open>Running fallible checks one after the other.\<close>

fun run_checks :: "('a \<Rightarrow> unit res) \<Rightarrow> 'a list \<Rightarrow> unit res" where
  "run_checks f [] = Inr ()"
| "run_checks f (x # xs) = attempt (f x) (\<lambda>_. run_checks f xs)"

lemma run_checks_Inr: "run_checks f xs = Inr u \<longleftrightarrow> (\<forall>x \<in> set xs. f x = Inr ())"
  by (induction xs) (auto simp: res_simps)

section \<open>Text\<close>

text \<open>\<open>str.isspace\<close> on the code points below 256, and \<open>str.strip\<close>.\<close>

definition py_space :: "char \<Rightarrow> bool" where
  "py_space c = (let n = of_char c :: nat in
     (9 \<le> n \<and> n \<le> 13) \<or> (28 \<le> n \<and> n \<le> 32) \<or> n = 133 \<or> n = 160)"

definition py_lstrip :: "string \<Rightarrow> string" where
  "py_lstrip s = dropWhile py_space s"

definition py_strip :: "string \<Rightarrow> string" where
  "py_strip s = rev (dropWhile py_space (rev (dropWhile py_space s)))"

lemma py_strip_Nil [simp]: "py_strip [] = []"
  by (simp add: py_strip_def)

lemma last_rev_dropWhile:
  "rev (dropWhile P (rev xs)) \<noteq> [] \<Longrightarrow> \<not> P (last (rev (dropWhile P (rev xs))))"
  by (metis hd_dropWhile last_rev rev_is_Nil_conv)

lemma prefix_rev_dropWhile: "\<exists>ys. xs = rev (dropWhile P (rev xs)) @ ys"
proof -
  have "rev xs = takeWhile P (rev xs) @ dropWhile P (rev xs)" by simp
  then have "xs = rev (dropWhile P (rev xs)) @ rev (takeWhile P (rev xs))"
    by (metis rev_append rev_rev_ident)
  then show ?thesis by blast
qed

lemma py_strip_ends:
  assumes "py_strip s \<noteq> []"
  shows "\<not> py_space (hd (py_strip s))" "\<not> py_space (last (py_strip s))"
proof -
  let ?t = "dropWhile py_space s"
  from assms have ne: "rev (dropWhile py_space (rev ?t)) \<noteq> []" by (simp add: py_strip_def)
  obtain ys where t: "?t = rev (dropWhile py_space (rev ?t)) @ ys"
    using prefix_rev_dropWhile by blast
  then have "hd ?t = hd (rev (dropWhile py_space (rev ?t)))" using ne by (metis hd_append2)
  moreover have "?t \<noteq> []" using ne by (metis dropWhile.simps(1) rev.simps(1))
  ultimately show "\<not> py_space (hd (py_strip s))"
    using hd_dropWhile unfolding py_strip_def by metis
  show "\<not> py_space (last (py_strip s))"
    using ne last_rev_dropWhile unfolding py_strip_def by metis
qed

lemma py_strip_id:
  assumes "s \<noteq> []" "\<not> py_space (hd s)" "\<not> py_space (last s)"
  shows "py_strip s = s"
proof -
  have 1: "dropWhile py_space s = s" using assms(1,2) by (cases s) auto
  have 2: "dropWhile py_space (rev s) = rev s"
    using assms(1,3) by (cases "rev s") (auto simp: hd_rev [symmetric])
  show ?thesis by (simp add: py_strip_def 1 2)
qed

lemma py_strip_idem [simp]: "py_strip (py_strip s) = py_strip s"
  by (cases "py_strip s = []") (simp_all add: py_strip_id py_strip_ends)

lemma length_py_strip: "length (py_strip s) \<le> length s"
  unfolding py_strip_def by (metis length_dropWhile_le length_rev le_trans)

text \<open>\<open>str.startswith\<close>.\<close>

fun starts_with :: "string \<Rightarrow> string \<Rightarrow> bool" where
  "starts_with s [] = True"
| "starts_with [] (p # ps) = False"
| "starts_with (c # s) (p # ps) = (c = p \<and> starts_with s ps)"

lemma starts_with_append [simp]: "starts_with (p @ s) p"
  by (induction p) auto

lemma starts_with_iff: "starts_with s p \<longleftrightarrow> (\<exists>t. s = p @ t)"
  by (induction s p rule: starts_with.induct) auto

text \<open>\<open>str.lower\<close> and \<open>str.split()\<close> on the code points below 256.\<close>

definition lower_char :: "char \<Rightarrow> char" where
  "lower_char c = (let n = of_char c :: nat in
     if (65 \<le> n \<and> n \<le> 90) \<or> (192 \<le> n \<and> n \<le> 222 \<and> n \<noteq> 215) then char_of (n + 32) else c)"

definition py_lower :: "string \<Rightarrow> string" where
  "py_lower s = map lower_char s"

function py_words :: "string \<Rightarrow> string list" where
  "py_words s = (let t = dropWhile py_space s in
     if t = [] then []
     else takeWhile (\<lambda>c. \<not> py_space c) t # py_words (dropWhile (\<lambda>c. \<not> py_space c) t))"
  by pat_completeness auto
termination
proof (relation "measure length")
  fix s t :: string
  assume t: "t = dropWhile py_space s" and ne: "t \<noteq> []"
  then have "\<not> py_space (hd t)" using hd_dropWhile by metis
  then have "length (dropWhile (\<lambda>c. \<not> py_space c) t) < length t"
    using ne by (cases t) (simp_all add: le_imp_less_Suc length_dropWhile_le)
  moreover have "length t \<le> length s" unfolding t by (rule length_dropWhile_le)
  ultimately show "(dropWhile (\<lambda>c. \<not> py_space c) t, s) \<in> measure length" by simp
qed simp

declare py_words.simps [simp del]

text \<open>\<open>int(text)\<close>: an optional sign and decimal digits with single underscores between them,
  surrounded by white space; \<open>None\<close> where it raises \<open>ValueError\<close>. CPython refuses
  more than 4300 digits.\<close>

definition decimal_value :: "char \<Rightarrow> int option" where
  "decimal_value c = (let n = of_char c :: nat in if 48 \<le> n \<and> n \<le> 57 then Some (int n - 48) else None)"

fun read_digits :: "int \<Rightarrow> string \<Rightarrow> int option" where
  "read_digits acc [] = Some acc"
| "read_digits acc (c # s) = (case decimal_value c of
     Some d \<Rightarrow> read_digits (10 * acc + d) s
   | None \<Rightarrow> if c \<noteq> CHR ''_'' then None
       else (case s of
           [] \<Rightarrow> None
         | d # s' \<Rightarrow> (case decimal_value d of None \<Rightarrow> None | Some v \<Rightarrow> read_digits (10 * acc + v) s')))"

definition read_natural :: "string \<Rightarrow> int option" where
  "read_natural s = (case s of
     [] \<Rightarrow> None
   | c # s' \<Rightarrow> if decimal_value c = None \<or> length (filter (\<lambda>d. decimal_value d \<noteq> None) s) > 4300
       then None else read_digits 0 s)"

definition py_int :: "string \<Rightarrow> int option" where
  "py_int s = (case py_strip s of
     [] \<Rightarrow> None
   | c # t \<Rightarrow> if c = CHR ''-'' then map_option uminus (read_natural t)
       else if c = CHR ''+'' then read_natural t else read_natural (c # t))"

end
