(* ===== verification/Json.thy ===== *)
theory Json
  imports Prelude
begin

text \<open>
  JSON values: the trees that \<open>core/common/frozen_json.py\<close> accepts, the Python dict
  and list operations the program uses on them, and what \<open>json.dumps\<close> prints.

  An object is the list of its key/value pairs in insertion order; a tree that came from
  text may repeat a key, a Python dict never does (\<open>json_unique\<close>). A float is
  identified with its \<open>repr\<close>, which Python makes unique per finite double, so
  \<open>JFloat ''1.0''\<close> is the float one.
\<close>

section \<open>Trees\<close>

datatype json =
    JNull
  | JBool bool
  | JInt int
  | JFloat string
  | JStr string
  | JArr "json list"
  | JObj "(string \<times> json) list"

abbreviation keys_of :: "(string \<times> json) list \<Rightarrow> string list" where
  "keys_of kvs \<equiv> map fst kvs"

text \<open>No object anywhere in the tree repeats a key: what \<open>object_pairs_hook\<close> checks.\<close>

primrec json_unique :: "json \<Rightarrow> bool" where
  "json_unique JNull = True"
| "json_unique (JBool b) = True"
| "json_unique (JInt i) = True"
| "json_unique (JFloat f) = True"
| "json_unique (JStr s) = True"
| "json_unique (JArr vs) = list_all (\<lambda>b. b) (map json_unique vs)"
| "json_unique (JObj kvs) =
     (distinct (keys_of kvs) \<and> list_all snd (map (map_prod id json_unique) kvs))"

definition sort_fields :: "(string \<times> json) list \<Rightarrow> (string \<times> json) list" where
  "sort_fields kvs = sort_key fst kvs"

text \<open>The tree with the keys of every object in order: the text that
  \<open>json.dumps(\<dots>, sort_keys=True)\<close> prints determines exactly this tree.\<close>

primrec json_norm :: "json \<Rightarrow> json" where
  "json_norm JNull = JNull"
| "json_norm (JBool b) = JBool b"
| "json_norm (JInt i) = JInt i"
| "json_norm (JFloat f) = JFloat f"
| "json_norm (JStr s) = JStr s"
| "json_norm (JArr vs) = JArr (map json_norm vs)"
| "json_norm (JObj kvs) = JObj (sort_fields (map (map_prod id json_norm) kvs))"

lemma json_unique_JArr [simp]: "json_unique (JArr vs) \<longleftrightarrow> (\<forall>v \<in> set vs. json_unique v)"
  by (simp add: list_all_iff)

lemma json_unique_JObj [simp]:
  "json_unique (JObj kvs) \<longleftrightarrow> distinct (keys_of kvs) \<and> (\<forall>kv \<in> set kvs. json_unique (snd kv))"
  by (auto simp: list_all_iff)

lemmas json_unique_simps = json_unique_JArr json_unique_JObj

declare json_unique.simps(6,7) [simp del]

lemma fields_map_prod [simp]: "keys_of (map (map_prod id f) kvs) = keys_of kvs"
  by (induction kvs) auto

lemma set_sort_fields [simp]: "set (sort_fields kvs) = set kvs"
  by (simp add: sort_fields_def)

lemma distinct_sort_fields [simp]: "distinct (keys_of (sort_fields kvs)) \<longleftrightarrow> distinct (keys_of kvs)"
  by (simp add: sort_fields_def distinct_map)

lemma sorted_sort_fields [simp]: "sorted (keys_of (sort_fields kvs))"
  by (simp add: sort_fields_def)

lemma sort_fields_id: "sorted (keys_of kvs) \<Longrightarrow> sort_fields kvs = kvs"
  by (simp add: sort_fields_def sort_key_id_if_sorted)

lemma map_of_sort_fields [simp]:
  assumes "distinct (keys_of kvs)"
  shows "map_of (sort_fields kvs) = map_of kvs"
  using map_of_inject_set [of "sort_fields kvs" kvs] assms by simp

lemma sort_fields_Nil [simp]: "sort_fields [] = []"
  by (simp add: sort_fields_def)

lemma sort_fields_eq_Nil [simp]: "sort_fields kvs = [] \<longleftrightarrow> kvs = []"
  by (metis set_empty set_sort_fields)

lemma json_unique_norm [simp]: "json_unique (json_norm v) = json_unique v"
proof (induction v)
  case (JObj kvs)
  have "(\<forall>kv \<in> set kvs. json_unique (json_norm (snd kv)) = json_unique (snd kv))"
    using JObj by (metis prod.collapse snds.intros)
  then show ?case by auto
qed auto

lemma map_of_map_prod: "map_of (map (map_prod id f) kvs) k = map_option f (map_of kvs k)"
  by (induction kvs) auto

lemma map_of_norm:
  "distinct (keys_of kvs) \<Longrightarrow>
   map_of (sort_fields (map (map_prod id json_norm) kvs)) k = map_option json_norm (map_of kvs k)"
  by (simp add: map_of_map_prod)

lemma json_norm_idem [simp]: "json_norm (json_norm v) = json_norm v"
proof (induction v)
  case (JObj kvs)
  let ?ns = "sort_fields (map (map_prod id json_norm) kvs)"
  have "map (map_prod id json_norm) ?ns = ?ns"
  proof (rule map_idI)
    fix kv assume "kv \<in> set ?ns"
    then obtain k v where "(k, v) \<in> set kvs" "kv = (k, json_norm v)" by auto
    then show "map_prod id json_norm kv = kv" using JObj by (auto intro: snds.intros)
  qed
  then show ?case by (simp add: sort_fields_id)
qed auto

text \<open>Two objects without repeated keys have one canonical form iff they agree key by key.\<close>

lemma sorted_fields_eqI:
  assumes "sorted (keys_of xs)" "sorted (keys_of ys)" "distinct (keys_of xs)" "distinct (keys_of ys)"
    and "map_of xs = map_of ys"
  shows "xs = ys"
proof -
  have "set xs = set ys"
    using assms(5) map_of_inject_set [OF assms(3,4)] by simp
  moreover have "inj_on fst (set xs)" using assms(3) by (simp add: distinct_map)
  ultimately show ?thesis
    using assms by (intro map_sorted_distinct_set_unique [where f = fst]) simp_all
qed

lemma json_norm_JObj_eqI:
  assumes "distinct (keys_of kvs)" "distinct (keys_of kvs')"
    and "\<And>k. map_option json_norm (map_of kvs k) = map_option json_norm (map_of kvs' k)"
  shows "json_norm (JObj kvs) = json_norm (JObj kvs')"
proof -
  have "map_of (sort_fields (map (map_prod id json_norm) kvs)) =
        map_of (sort_fields (map (map_prod id json_norm) kvs'))"
    using assms by (intro ext) (simp only: map_of_norm)
  then show ?thesis
    using assms(1,2) by (simp add: sorted_fields_eqI)
qed

lemma json_norm_JObj_readback:
  assumes "json_unique (JObj raw)" "distinct (keys_of kvs)" "set (keys_of raw) = set (keys_of kvs)"
    and "map (\<lambda>(k, v). map_option json_norm (map_of raw k)) kvs = map (\<lambda>(k, v). Some (json_norm v)) kvs"
  shows "json_norm (JObj kvs) = json_norm (JObj raw)"
proof (rule json_norm_JObj_eqI)
  fix k
  show "map_option json_norm (map_of kvs k) = map_option json_norm (map_of raw k)"
  proof (cases "k \<in> set (keys_of kvs)")
    case True
    then obtain v where v: "(k, v) \<in> set kvs" by auto
    with assms(2) have "map_of kvs k = Some v" by simp
    moreover from assms(4) v have "map_option json_norm (map_of raw k) = Some (json_norm v)"
      by (auto simp: map_eq_conv)
    ultimately show ?thesis by (simp only: option.map)
  next
    case False
    then have "map_of kvs k = None" "map_of raw k = None"
      using assms(3) by (metis image_set map_of_eq_None_iff)+
    then show ?thesis by simp
  qed
qed (use assms in auto)

lemma json_unique_map_of:
  "json_unique (JObj kvs) \<Longrightarrow> map_of kvs k = Some v \<Longrightarrow> json_unique v"
  by (auto dest: map_of_SomeD)

section \<open>Python operations on JSON values\<close>

text \<open>\<open>value == 1\<close>: Python's \<open>True\<close> and \<open>1.0\<close> are equal to \<open>1\<close>.\<close>

definition py_is_one :: "json \<Rightarrow> bool" where
  "py_is_one v \<longleftrightarrow> v = JInt 1 \<or> v = JBool True \<or> v = JFloat ''1.0''"

text \<open>A list or dict cannot be looked up in a set or frozenset: \<open>TypeError: unhashable\<close>.\<close>

fun unhashable :: "json \<Rightarrow> bool" where
  "unhashable (JArr _) = True"
| "unhashable (JObj _) = True"
| "unhashable _ = False"

text \<open>\<open>isinstance(value, dict)\<close> and \<open>set(value) == fields\<close>, as in \<open>_object\<close>.\<close>

definition json_object :: "json \<Rightarrow> string list \<Rightarrow> (string \<times> json) list res" where
  "json_object v fs = (case v of
     JObj kvs \<Rightarrow> if set (keys_of kvs) = set fs then Inr kvs else Inl ValueError
   | _ \<Rightarrow> Inl ValueError)"

lemma json_object_JObj [simp]:
  "json_object (JObj kvs) fs =
   (if set (keys_of kvs) = set fs then Inr kvs else Inl ValueError)"
  by (simp add: json_object_def)

lemma json_object_Inr:
  "json_object v fs = Inr kvs \<longleftrightarrow> v = JObj kvs \<and> set (keys_of kvs) = set fs"
  by (cases v) (auto simp: json_object_def)

text \<open>\<open>data[key]\<close> of a dict whose keys were checked; \<open>KeyError\<close> otherwise.\<close>

definition field :: "(string \<times> json) list \<Rightarrow> string \<Rightarrow> json res" where
  "field kvs k = (case map_of kvs k of None \<Rightarrow> Inl KeyError | Some v \<Rightarrow> Inr v)"

lemma field_Inr [simp]: "field kvs k = Inr v \<longleftrightarrow> map_of kvs k = Some v"
  by (auto simp: field_def split: option.splits)

lemma field_Some: "map_of kvs k = Some v \<Longrightarrow> field kvs k = Inr v"
  by simp

lemma field_present: "k \<in> set (keys_of kvs) \<Longrightarrow> \<exists>v. map_of kvs k = Some v"
  by (metis image_set map_of_eq_None_iff not_Some_eq)

section \<open>Freezing external values\<close>

text \<open>
  The Python values that reach \<open>freeze_json\<close>: JSON scalars, floats (\<open>None\<close> for
  nan and the infinities), lists and tuples, mappings with arbitrary keys, containers
  already frozen, and anything else. Values are finite trees, so the check for circular
  references never fires.
\<close>

datatype pyval =
    PNone
  | PBool bool
  | PInt int
  | PFloat "string option"
  | PStr string
  | PSeq "pyval list"
  | PMap "(pyval \<times> pyval) list"
  | PFrozen json
  | POther

fun freeze_json :: "pyval \<Rightarrow> json res" where
  "freeze_json PNone = Inr JNull"
| "freeze_json (PBool b) = Inr (JBool b)"
| "freeze_json (PInt i) = Inr (JInt i)"
| "freeze_json (PFloat None) = Inl ValueError"
| "freeze_json (PFloat (Some f)) = Inr (JFloat f)"
| "freeze_json (PStr s) = Inr (JStr s)"
| "freeze_json (PFrozen v) = Inr v"
| "freeze_json (PSeq vs) = attempt (traverse freeze_json vs) (\<lambda>ws. Inr (JArr ws))"
| "freeze_json (PMap kvs) =
     attempt (traverse (\<lambda>(k, v). case k of
         PStr s \<Rightarrow> attempt (freeze_json v) (\<lambda>w. Inr (s, w))
       | _ \<Rightarrow> Inl TypeError) kvs) (\<lambda>ws. Inr (JObj ws))"
| "freeze_json POther = Inl TypeError"

text \<open>\<open>json_value\<close>: the mutable copy of a frozen value.\<close>

primrec json_value :: "json \<Rightarrow> pyval" where
  "json_value JNull = PNone"
| "json_value (JBool b) = PBool b"
| "json_value (JInt i) = PInt i"
| "json_value (JFloat f) = PFloat (Some f)"
| "json_value (JStr s) = PStr s"
| "json_value (JArr vs) = PSeq (map json_value vs)"
| "json_value (JObj kvs) = PMap (map (map_prod PStr json_value) kvs)"

text \<open>Copying a frozen value out and freezing the copy gives the value back.\<close>

lemma freeze_json_value: "freeze_json (json_value v) = Inr v"
proof (induction v)
  case (JArr vs)
  then have "traverse freeze_json (map json_value vs) = Inr (map (\<lambda>v. v) vs)"
    by (simp only: traverse_map, intro traverse_Inr_map) simp
  then show ?case by simp
next
  case (JObj kvs)
  let ?f = "\<lambda>(k, v). case k of PStr s \<Rightarrow> attempt (freeze_json v) (\<lambda>w. Inr (s, w)) | _ \<Rightarrow> Inl TypeError"
  have "traverse ?f (map (map_prod PStr json_value) kvs) = Inr (map (\<lambda>kv. kv) kvs)"
    using JObj by (simp only: traverse_map, intro traverse_Inr_map)
      (auto intro: snds.intros)
  then show ?case by simp
qed auto

section \<open>The printed text\<close>

text \<open>\<open>json.dumps(v, ensure_ascii=False, separators=(',', ':'))\<close>: used where the program
  measures the printed size.\<close>

fun digit_char :: "nat \<Rightarrow> char" where
  "digit_char d = (char_of (48 + d mod 10))"

fun nat_text :: "nat \<Rightarrow> string" where
  "nat_text n = (if n < 10 then [digit_char n] else nat_text (n div 10) @ [digit_char (n mod 10)])"

declare nat_text.simps [simp del]

definition int_text :: "int \<Rightarrow> string" where
  "int_text i = (if i < 0 then ''-'' @ nat_text (nat (- i)) else nat_text (nat i))"

fun hex_char :: "nat \<Rightarrow> char" where
  "hex_char d = (if d < 10 then char_of (48 + d) else char_of (87 + d))"

definition escape_char :: "char \<Rightarrow> string" where
  "escape_char c = (let n = of_char c :: nat in
     if n = 34 then [CHR 92, CHR 34]
     else if n = 92 then [CHR 92, CHR 92]
     else if n = 10 then [CHR 92, CHR ''n'']
     else if n = 13 then [CHR 92, CHR ''r'']
     else if n = 9 then [CHR 92, CHR ''t'']
     else if n = 8 then [CHR 92, CHR ''b'']
     else if n = 12 then [CHR 92, CHR ''f'']
     else if n < 32 then [CHR 92, CHR ''u'', CHR ''0'', CHR ''0'', hex_char (n div 16), hex_char (n mod 16)]
     else [c])"

definition quote_text :: "string \<Rightarrow> string" where
  "quote_text s = [CHR 34] @ concat (map escape_char s) @ [CHR 34]"

fun join_text :: "string \<Rightarrow> string list \<Rightarrow> string" where
  "join_text sep [] = []"
| "join_text sep [s] = s"
| "join_text sep (s # t # ts) = s @ sep @ join_text sep (t # ts)"

primrec json_text :: "json \<Rightarrow> string" where
  "json_text JNull = ''null''"
| "json_text (JBool b) = (if b then ''true'' else ''false'')"
| "json_text (JInt i) = int_text i"
| "json_text (JFloat f) = f"
| "json_text (JStr s) = quote_text s"
| "json_text (JArr vs) = ''['' @ join_text '','' (map json_text vs) @ '']''"
| "json_text (JObj kvs) =
     ''{'' @ join_text '',''
       (map (\<lambda>(k, t). quote_text k @ '':'' @ t) (map (map_prod id json_text) kvs)) @ ''}''"

text \<open>\<open>len(text.encode("utf-8"))\<close> for code points below 256.\<close>

definition utf8_length :: "string \<Rightarrow> nat" where
  "utf8_length s = sum_list (map (\<lambda>c. if (of_char c :: nat) < 128 then 1 else 2) s)"

lemma length_le_utf8_length: "length s \<le> utf8_length s"
  by (induction s) (auto simp: utf8_length_def)

end
