(* ===== verification/Ledger_Content.thy ===== *)
theory Ledger_Content
  imports Json
begin

text \<open>
  The values of the ledger (\<open>plugins/ledger/contract.py\<close>): content parts, tool calls,
  the four message bodies, messages with their metadata, and the persisted form of a body
  (\<open>body_to_dict\<close>, \<open>encode_body\<close>, \<open>decode_body\<close>). A constructor function
  \<open>mk_\<dots>\<close> is the class's \<open>__post_init__\<close>: it takes the raw field values that the
  decoder passes and raises what the source raises. The persisted text of a body is
  represented by the JSON tree that \<open>json.dumps(sort_keys=True)\<close> prints.
\<close>

section \<open>Parts and references\<close>

record call_ref =
  ref_message :: string
  ref_part :: nat

datatype part =
    ContentPart (part_kind: string) (part_value: json)
  | ToolCall (part_binding: string) (part_arguments: json)

fun is_tool_call :: "part \<Rightarrow> bool" where
  "is_tool_call (ToolCall _ _) = True"
| "is_tool_call (ContentPart _ _) = False"

text \<open>The raw values come from frozen JSON, so freezing them again changes nothing.\<close>

definition mk_content_part :: "json \<Rightarrow> json \<Rightarrow> part res" where
  "mk_content_part kind v = (case kind of
     JStr k \<Rightarrow> if k = [] \<or> k = ''tool_call'' then Inl ValueError else Inr (ContentPart k v)
   | _ \<Rightarrow> Inl ValueError)"

definition mk_tool_call :: "json \<Rightarrow> json \<Rightarrow> part res" where
  "mk_tool_call binding arguments = (case binding of
     JStr b \<Rightarrow> if b = [] then Inl ValueError
       else (case arguments of JObj _ \<Rightarrow> Inr (ToolCall b arguments) | _ \<Rightarrow> Inl TypeError)
   | _ \<Rightarrow> Inl ValueError)"

definition mk_call_ref :: "json \<Rightarrow> json \<Rightarrow> call_ref res" where
  "mk_call_ref message index = (case message of
     JStr m \<Rightarrow> if m = [] then Inl ValueError
       else (case index of
           JInt i \<Rightarrow> if i < 0 then Inl ValueError else Inr \<lparr>ref_message = m, ref_part = nat i\<rparr>
         | _ \<Rightarrow> Inl ValueError)
   | _ \<Rightarrow> Inl ValueError)"

section \<open>Bodies\<close>

datatype finish = Continue | Complete | Quiet
datatype outcome = Success | Denied | ErrorOutcome | Interrupted
datatype action = PauseAction | ResumeAction | AbandonAction | FailureAction

text \<open>The boolean of a tool result is \<open>_legacy_unknown\<close>.\<close>

datatype body =
    Input "part list"
  | Output "part list" finish
  | ToolResult bool call_ref outcome "part list"
  | Control action nat "string option"

fun finish_text :: "finish \<Rightarrow> string" where
  "finish_text Continue = ''continue''"
| "finish_text Complete = ''complete''"
| "finish_text Quiet = ''quiet''"

fun outcome_text :: "outcome \<Rightarrow> string" where
  "outcome_text Success = ''success''"
| "outcome_text Denied = ''denied''"
| "outcome_text ErrorOutcome = ''error''"
| "outcome_text Interrupted = ''interrupted''"

fun action_text :: "action \<Rightarrow> string" where
  "action_text PauseAction = ''pause''"
| "action_text ResumeAction = ''resume''"
| "action_text AbandonAction = ''abandon''"
| "action_text FailureAction = ''failure''"

text \<open>\<open>value not in {\<dots>}\<close>: an unhashable value raises \<open>TypeError\<close>, any other stranger
  the \<open>ValueError\<close> of the check.\<close>

definition literal_of :: "('a \<Rightarrow> string) \<Rightarrow> 'a list \<Rightarrow> json \<Rightarrow> 'a res" where
  "literal_of text xs v =
     (if unhashable v then Inl TypeError
      else case find (\<lambda>x. v = JStr (text x)) xs of
        None \<Rightarrow> Inl ValueError
      | Some x \<Rightarrow> Inr x)"

definition finish_of :: "json \<Rightarrow> finish res" where
  "finish_of = literal_of finish_text [Continue, Complete, Quiet]"

definition outcome_of :: "json \<Rightarrow> outcome res" where
  "outcome_of = literal_of outcome_text [Success, Denied, ErrorOutcome, Interrupted]"

definition action_of :: "json \<Rightarrow> action res" where
  "action_of = literal_of action_text [PauseAction, ResumeAction, AbandonAction, FailureAction]"

definition mk_input :: "part list \<Rightarrow> body res" where
  "mk_input ps = (if \<exists>p \<in> set ps. is_tool_call p then Inl TypeError else Inr (Input ps))"

definition mk_output :: "part list \<Rightarrow> json \<Rightarrow> body res" where
  "mk_output ps fin =
     attempt (finish_of fin) (\<lambda>f.
       if f \<noteq> Continue \<and> (\<exists>p \<in> set ps. is_tool_call p) then Inl ValueError
       else Inr (Output ps f))"

definition mk_tool_result :: "call_ref \<Rightarrow> json \<Rightarrow> part list \<Rightarrow> body res" where
  "mk_tool_result ref out ps =
     (if \<exists>p \<in> set ps. is_tool_call p then Inl TypeError
      else attempt (outcome_of out) (\<lambda>oc. Inr (ToolResult False ref oc ps)))"

definition mk_control :: "json \<Rightarrow> json \<Rightarrow> json \<Rightarrow> body res" where
  "mk_control act through reason =
     attempt (action_of act) (\<lambda>a.
       case through of
         JInt n \<Rightarrow> if n < 0 then Inl ValueError
           else (case reason of
               JNull \<Rightarrow> Inr (Control a (nat n) None)
             | JStr r \<Rightarrow> Inr (Control a (nat n) (Some r))
             | _ \<Rightarrow> Inl TypeError)
       | _ \<Rightarrow> Inl ValueError)"

section \<open>The persisted form\<close>

fun part_to_dict :: "part \<Rightarrow> json" where
  "part_to_dict (ToolCall b args) =
     JObj [(''kind'', JStr ''tool_call''), (''binding_id'', JStr b), (''arguments'', args)]"
| "part_to_dict (ContentPart k v) = JObj [(''kind'', JStr k), (''value'', v)]"

definition ref_to_dict :: "call_ref \<Rightarrow> json" where
  "ref_to_dict r = JObj [(''message_id'', JStr (ref_message r)), (''part_index'', JInt (int (ref_part r)))]"

fun body_to_dict :: "body \<Rightarrow> (string \<times> json) list" where
  "body_to_dict (Control a n r) =
     [(''kind'', JStr ''control''), (''action'', JStr (action_text a)),
      (''through_seq'', JInt (int n)), (''reason'', case r of None \<Rightarrow> JNull | Some t \<Rightarrow> JStr t)]"
| "body_to_dict (Input ps) =
     [(''kind'', JStr ''input''), (''parts'', JArr (map part_to_dict ps))]"
| "body_to_dict (Output ps f) =
     [(''kind'', JStr ''output''), (''parts'', JArr (map part_to_dict ps)),
      (''finish'', JStr (finish_text f))]"
| "body_to_dict (ToolResult _ ref oc ps) =
     [(''kind'', JStr ''tool_result''), (''parts'', JArr (map part_to_dict ps)),
      (''outcome'', JStr (outcome_text oc)), (''call_ref'', ref_to_dict ref)]"

text \<open>\<open>data["outcome"] = "unknown"\<close>: overwriting a value keeps the key's place.\<close>

definition dict_put :: "string \<Rightarrow> json \<Rightarrow> (string \<times> json) list \<Rightarrow> (string \<times> json) list" where
  "dict_put k v kvs =
     (if k \<in> set (keys_of kvs) then map (\<lambda>(k', v'). (k', if k' = k then v else v')) kvs
      else kvs @ [(k, v)])"

fun is_legacy :: "body \<Rightarrow> bool" where
  "is_legacy (ToolResult legacy _ _ _) = legacy"
| "is_legacy _ = False"

definition encode_body :: "bool \<Rightarrow> body \<Rightarrow> json res" where
  "encode_body allow_legacy b =
     (if is_legacy b then
        if \<not> allow_legacy then Inl ValueError
        else Inr (json_norm (JObj (dict_put ''outcome'' (JStr ''unknown'') (body_to_dict b))))
      else Inr (json_norm (JObj (body_to_dict b))))"

definition decode_part :: "json \<Rightarrow> part res" where
  "decode_part v = (case v of
     JObj raw \<Rightarrow>
       if map_of raw ''kind'' = Some (JStr ''tool_call'') then
         attempt (json_object v [''kind'', ''binding_id'', ''arguments'']) (\<lambda>kvs.
         attempt (field kvs ''binding_id'') (\<lambda>b.
         attempt (field kvs ''arguments'') (\<lambda>args. mk_tool_call b args)))
       else
         attempt (json_object v [''kind'', ''value'']) (\<lambda>kvs.
         attempt (field kvs ''kind'') (\<lambda>k.
         attempt (field kvs ''value'') (\<lambda>x. mk_content_part k x)))
   | _ \<Rightarrow> Inl ValueError)"

definition body_fields :: "string \<Rightarrow> string list option" where
  "body_fields kind =
     (if kind = ''input'' then Some [''kind'', ''parts'']
      else if kind = ''output'' then Some [''kind'', ''parts'', ''finish'']
      else if kind = ''tool_result'' then Some [''kind'', ''parts'', ''call_ref'', ''outcome'']
      else None)"

fun set_legacy :: "bool \<Rightarrow> body \<Rightarrow> body" where
  "set_legacy legacy (ToolResult _ ref oc ps) = ToolResult legacy ref oc ps"
| "set_legacy legacy b = b"

text \<open>The tail of \<open>decode_body\<close> for \<open>kind == "tool_result"\<close>.\<close>

definition decode_tool_result :: "(string \<times> json) list \<Rightarrow> part list \<Rightarrow> body res" where
  "decode_tool_result row ps =
     attempt (field row ''call_ref'') (\<lambda>raw_ref.
     attempt (json_object raw_ref [''message_id'', ''part_index'']) (\<lambda>call.
     attempt (field call ''message_id'') (\<lambda>mid.
     attempt (field call ''part_index'') (\<lambda>index.
     attempt (mk_call_ref mid index) (\<lambda>ref.
     attempt (field row ''outcome'') (\<lambda>out.
     attempt (mk_tool_result ref (if out = JStr ''unknown'' then JStr ''error'' else out) ps) (\<lambda>b.
       Inr (set_legacy (out = JStr ''unknown'') b))))))))"

definition decode_parts_body :: "string \<Rightarrow> (string \<times> json) list \<Rightarrow> body res" where
  "decode_parts_body kind row =
     attempt (field row ''parts'') (\<lambda>raw_parts.
       case raw_parts of
         JArr vs \<Rightarrow>
           attempt (traverse decode_part vs) (\<lambda>ps.
             if kind = ''input'' then mk_input ps
             else if kind = ''output'' then attempt (field row ''finish'') (mk_output ps)
             else decode_tool_result row ps)
       | _ \<Rightarrow> Inl ValueError)"

definition decode_control :: "json \<Rightarrow> body res" where
  "decode_control raw =
     attempt (json_object raw [''kind'', ''action'', ''through_seq'', ''reason'']) (\<lambda>row.
     attempt (field row ''action'') (\<lambda>a.
     attempt (field row ''through_seq'') (\<lambda>n.
     attempt (field row ''reason'') (\<lambda>r. mk_control a n r))))"

definition decode_body :: "json \<Rightarrow> body res" where
  "decode_body raw =
     (if \<not> json_unique raw then Inl ValueError
      else case raw of
        JObj kvs \<Rightarrow>
          (case map_of kvs ''kind'' of
             Some (JStr kind) \<Rightarrow>
               if kind = ''control'' then decode_control raw
               else (case body_fields kind of
                   None \<Rightarrow> Inl ValueError
                 | Some fs \<Rightarrow> attempt (json_object raw fs) (decode_parts_body kind))
           | _ \<Rightarrow> Inl ValueError)
      | _ \<Rightarrow> Inl ValueError)"

section \<open>Messages\<close>

record message =
  msg_id :: string
  msg_session :: string
  msg_seq :: nat
  msg_recorded :: int
  msg_author :: string
  msg_source :: string
  msg_body :: body
  msg_metadata :: json

definition max_metadata_bytes :: nat where
  "max_metadata_bytes = 64 * 1024"

definition freeze_metadata :: "json \<Rightarrow> json res" where
  "freeze_metadata v = (case v of
     JObj kvs \<Rightarrow>
       if kvs = [] then Inr v
       else if [] \<in> set (keys_of kvs) then Inl ValueError
       else if max_metadata_bytes < utf8_length (json_text (json_norm v)) then Inl ValueError
       else Inr v
   | _ \<Rightarrow> Inl TypeError)"

fun control_through :: "body \<Rightarrow> nat option" where
  "control_through (Control _ n _) = Some n"
| "control_through _ = None"

text \<open>\<open>Message.__post_init__\<close>; the checks on the Python types of \<open>seq\<close>,
  \<open>recorded_at\<close> and \<open>body\<close> are the types of the record's fields.\<close>

definition mk_message ::
  "string \<Rightarrow> string \<Rightarrow> nat \<Rightarrow> int \<Rightarrow> string \<Rightarrow> string \<Rightarrow> body \<Rightarrow> json \<Rightarrow> message res" where
  "mk_message mid session seq recorded author source b metadata =
     attempt (freeze_metadata metadata) (\<lambda>md.
       if mid = [] \<or> session = [] \<or> author = [] \<or> source = [] then Inl ValueError
       else case control_through b of
         Some n \<Rightarrow> if seq \<le> n then Inl ValueError
           else Inr \<lparr>msg_id = mid, msg_session = session, msg_seq = seq, msg_recorded = recorded,
                     msg_author = author, msg_source = source, msg_body = b, msg_metadata = md\<rparr>
       | None \<Rightarrow>
           Inr \<lparr>msg_id = mid, msg_session = session, msg_seq = seq, msg_recorded = recorded,
                msg_author = author, msg_source = source, msg_body = b, msg_metadata = md\<rparr>)"

section \<open>Well-formed values\<close>

fun part_ok :: "part \<Rightarrow> bool" where
  "part_ok (ContentPart k v) = (k \<noteq> [] \<and> k \<noteq> ''tool_call'' \<and> json_unique v)"
| "part_ok (ToolCall b args) = (b \<noteq> [] \<and> (\<exists>kvs. args = JObj kvs) \<and> json_unique args)"

fun body_ok :: "body \<Rightarrow> bool" where
  "body_ok (Input ps) = (\<forall>p \<in> set ps. part_ok p \<and> \<not> is_tool_call p)"
| "body_ok (Output ps f) = (\<forall>p \<in> set ps. part_ok p \<and> (f \<noteq> Continue \<longrightarrow> \<not> is_tool_call p))"
| "body_ok (ToolResult legacy ref oc ps) =
     ((\<forall>p \<in> set ps. part_ok p \<and> \<not> is_tool_call p) \<and> ref_message ref \<noteq> [] \<and>
      (legacy \<longrightarrow> oc = ErrorOutcome))"
| "body_ok (Control a n r) = True"

text \<open>The same value with every JSON object in canonical key order: two bodies are equal for
  Python iff these forms are.\<close>

fun norm_part :: "part \<Rightarrow> part" where
  "norm_part (ContentPart k v) = ContentPart k (json_norm v)"
| "norm_part (ToolCall b args) = ToolCall b (json_norm args)"

fun norm_body :: "body \<Rightarrow> body" where
  "norm_body (Input ps) = Input (map norm_part ps)"
| "norm_body (Output ps f) = Output (map norm_part ps) f"
| "norm_body (ToolResult legacy ref oc ps) = ToolResult legacy ref oc (map norm_part ps)"
| "norm_body (Control a n r) = Control a n r"

lemma is_tool_call_norm [simp]: "is_tool_call (norm_part p) = is_tool_call p"
  by (cases p) auto

lemma part_ok_norm [simp]: "part_ok (norm_part p) = part_ok p"
  by (cases p; cases "part_arguments p") auto

lemma norm_part_idem [simp]: "norm_part (norm_part p) = norm_part p"
  by (cases p) auto

lemma norm_body_idem [simp]: "norm_body (norm_body b) = norm_body b"
  by (cases b) auto

lemma body_ok_norm [simp]: "body_ok (norm_body b) = body_ok b"
  by (cases b) auto

section \<open>Reading one literal\<close>

lemma find_never [simp]: "find (\<lambda>x. False) xs = None"
  by (induction xs) auto

lemma literal_of_Inr:
  assumes "inj_on text (set xs)"
  shows "literal_of text xs v = Inr x \<longleftrightarrow> x \<in> set xs \<and> v = JStr (text x)"
proof (cases v)
  case (JStr s)
  have "find (\<lambda>y. s = text y) xs = Some x \<longleftrightarrow> x \<in> set xs \<and> s = text x"
    using assms by (induction xs) auto
  then show ?thesis using JStr by (auto simp: literal_of_def split: option.splits)
qed (simp_all add: literal_of_def)

lemma inj_finish_text: "inj_on finish_text A"
proof (rule inj_onI)
  fix x y :: finish assume "finish_text x = finish_text y"
  then show "x = y" by (cases x; cases y; simp)
qed

lemma inj_outcome_text: "inj_on outcome_text A"
proof (rule inj_onI)
  fix x y :: outcome assume "outcome_text x = outcome_text y"
  then show "x = y" by (cases x; cases y; simp)
qed

lemma inj_action_text: "inj_on action_text A"
proof (rule inj_onI)
  fix x y :: action assume "action_text x = action_text y"
  then show "x = y" by (cases x; cases y; simp)
qed

lemma finish_of_Inr: "finish_of v = Inr f \<longleftrightarrow> v = JStr (finish_text f)"
  by (cases f) (auto simp: finish_of_def literal_of_Inr inj_finish_text)

lemma outcome_of_Inr: "outcome_of v = Inr oc \<longleftrightarrow> v = JStr (outcome_text oc)"
  by (cases oc) (auto simp: outcome_of_def literal_of_Inr inj_outcome_text)

lemma action_of_Inr: "action_of v = Inr a \<longleftrightarrow> v = JStr (action_text a)"
  by (cases a) (auto simp: action_of_def literal_of_Inr inj_action_text)

lemmas literal_simps = finish_of_Inr outcome_of_Inr action_of_Inr


section \<open>Encoding, then decoding\<close>

lemma decode_part_of_dict:
  "part_ok p \<Longrightarrow> decode_part (json_norm (part_to_dict p)) = Inr (norm_part p)"
  by (cases p)
    (auto simp: decode_part_def mk_tool_call_def mk_content_part_def field_Some)

lemma decode_parts_of_dicts:
  "\<forall>p \<in> set ps. part_ok p \<Longrightarrow>
   traverse decode_part (map json_norm (map part_to_dict ps)) = Inr (map norm_part ps)"
  by (simp only: traverse_map, intro traverse_Inr_map) (simp add: decode_part_of_dict)

lemma json_unique_part [simp]: "part_ok p \<Longrightarrow> json_unique (part_to_dict p)"
  by (cases p) auto

lemma json_unique_ref [simp]: "json_unique (ref_to_dict r)"
  by (simp add: ref_to_dict_def)

lemma json_unique_body:
  "body_ok b \<Longrightarrow> json_unique (JObj (body_to_dict b))"
  by (cases b) (auto split: option.splits)

lemma encode_body_total: "\<exists>p. encode_body True b = Inr p"
  by (auto simp: encode_body_def)

lemma encode_body_new:
  "encode_body False b = (if is_legacy b then Inl ValueError else encode_body True b)"
  by (simp add: encode_body_def)


lemma decode_control_encoded:
  "decode_body (json_norm (JObj (body_to_dict (Control a n r)))) = Inr (Control a n r)"
  by (cases r)
    (simp_all add: decode_body_def decode_control_def mk_control_def field_Some
      literal_simps [THEN iffD2])

lemma decode_input_encoded:
  assumes "body_ok (Input ps)"
  shows "decode_body (json_norm (JObj (body_to_dict (Input ps)))) = Inr (norm_body (Input ps))"
proof -
  have parts: "traverse decode_part (map json_norm (map part_to_dict ps)) = Inr (map norm_part ps)"
    using assms by (intro decode_parts_of_dicts) simp
  show ?thesis
    using assms parts json_unique_body [OF assms]
    by (simp add: decode_body_def body_fields_def decode_parts_body_def mk_input_def field_Some)
qed

lemma decode_output_encoded:
  assumes "body_ok (Output ps f)"
  shows "decode_body (json_norm (JObj (body_to_dict (Output ps f)))) = Inr (norm_body (Output ps f))"
proof -
  have parts: "traverse decode_part (map json_norm (map part_to_dict ps)) = Inr (map norm_part ps)"
    using assms by (intro decode_parts_of_dicts) simp
  show ?thesis
    using assms parts json_unique_body [OF assms]
    by (auto simp: decode_body_def body_fields_def decode_parts_body_def mk_output_def field_Some
      finish_of_Inr [THEN iffD2])
qed

lemma decode_result_encoded:
  assumes "body_ok (ToolResult legacy ref oc ps)"
  shows "\<exists>p. encode_body True (ToolResult legacy ref oc ps) = Inr p \<and>
    decode_body p = Inr (norm_body (ToolResult legacy ref oc ps))"
proof -
  have parts: "traverse decode_part (map json_norm (map part_to_dict ps)) = Inr (map norm_part ps)"
    using assms by (intro decode_parts_of_dicts) simp
  have ref: "\<lparr>ref_message = ref_message ref, ref_part = ref_part ref\<rparr> = ref" by simp
  have swap: "{''outcome'', ''call_ref''} = {''call_ref'', ''outcome''}" by (rule insert_commute)
  have error: "outcome_of (JStr ''error'') = Inr ErrorOutcome" by (simp add: outcome_of_Inr)
  show ?thesis
  proof (cases legacy)
    case True
    then show ?thesis
      using assms parts json_unique_body [OF assms] ref swap
      by (simp add: encode_body_def dict_put_def decode_body_def body_fields_def
        decode_parts_body_def decode_tool_result_def mk_tool_result_def mk_call_ref_def
        ref_to_dict_def field_Some error outcome_of_Inr [THEN iffD2])
  next
    case False
    have "outcome_text oc \<noteq> ''unknown''" by (cases oc) auto
    with False show ?thesis
      using assms parts json_unique_body [OF assms] ref swap
      by (simp add: encode_body_def decode_body_def body_fields_def
        decode_parts_body_def decode_tool_result_def mk_tool_result_def mk_call_ref_def
        ref_to_dict_def field_Some error outcome_of_Inr [THEN iffD2])
  qed
qed

lemma decode_encode_body:
  assumes "body_ok b"
  shows "\<exists>p. encode_body True b = Inr p \<and> decode_body p = Inr (norm_body b)"
proof (cases b)
  case (ToolResult legacy ref oc ps)
  then show ?thesis using assms decode_result_encoded by blast
next
  case (Input ps)
  then show ?thesis using assms decode_input_encoded by (simp add: encode_body_def)
next
  case (Output ps f)
  then show ?thesis using assms decode_output_encoded by (simp add: encode_body_def)
next
  case (Control a n r)
  then show ?thesis using decode_control_encoded by (simp add: encode_body_def)
qed


section \<open>Decoding, then encoding\<close>

lemma mk_content_part_Inr:
  "mk_content_part kind v = Inr p \<longleftrightarrow>
   (\<exists>k. kind = JStr k \<and> k \<noteq> [] \<and> k \<noteq> ''tool_call'' \<and> p = ContentPart k v)"
  by (cases kind) (auto simp: mk_content_part_def)

lemma mk_tool_call_Inr:
  "mk_tool_call binding args = Inr p \<longleftrightarrow>
   (\<exists>b kvs. binding = JStr b \<and> b \<noteq> [] \<and> args = JObj kvs \<and> p = ToolCall b args)"
  by (cases binding; cases args) (auto simp: mk_tool_call_def)

lemma mk_call_ref_Inr:
  "mk_call_ref m i = Inr r \<longleftrightarrow>
   (\<exists>s n. m = JStr s \<and> s \<noteq> [] \<and> i = JInt n \<and> 0 \<le> n \<and> r = \<lparr>ref_message = s, ref_part = nat n\<rparr>)"
  by (cases m; cases i) (auto simp: mk_call_ref_def)

lemma mk_control_Inr:
  "mk_control a n r = Inr b \<longleftrightarrow>
   (\<exists>act m. a = JStr (action_text act) \<and> n = JInt m \<and> 0 \<le> m \<and>
     (r = JNull \<and> b = Control act (nat m) None \<or>
      (\<exists>s. r = JStr s \<and> b = Control act (nat m) (Some s))))"
  by (cases n; cases r) (auto simp: mk_control_def action_of_Inr res_simps)

lemmas mk_Inr = mk_content_part_Inr mk_tool_call_Inr mk_call_ref_Inr mk_control_Inr

lemma decode_part_Inr:
  assumes "json_unique v" "decode_part v = Inr p"
  shows "part_ok p" "json_norm (part_to_dict p) = json_norm v"
proof -
  obtain raw where v: "v = JObj raw" using assms(2) by (cases v) (auto simp: decode_part_def)
  have "part_ok p \<and> json_norm (part_to_dict p) = json_norm v"
  proof (cases "map_of raw ''kind'' = Some (JStr ''tool_call'')")
    case True
    with assms(2) v obtain b kvs where
      *: "set (keys_of raw) = {''kind'', ''binding_id'', ''arguments''}"
        "map_of raw ''binding_id'' = Some (JStr b)" "map_of raw ''arguments'' = Some (JObj kvs)"
        "b \<noteq> []" "p = ToolCall b (JObj kvs)"
      by (auto simp: decode_part_def res_simps mk_Inr split: if_splits)
    have "json_norm (part_to_dict p) = json_norm v"
      unfolding v *(5) part_to_dict.simps
      by (rule json_norm_JObj_readback [OF assms(1) [unfolded v]]) (simp_all add: * *(1) [simplified] True)
    moreover have "json_unique (JObj kvs)"
      using assms(1) unfolding v by (rule json_unique_map_of) (rule *(3))
    ultimately show ?thesis using * by simp
  next
    case False
    with assms(2) v obtain k x where
      *: "set (keys_of raw) = {''kind'', ''value''}"
        "map_of raw ''kind'' = Some (JStr k)" "map_of raw ''value'' = Some x"
        "k \<noteq> []" "k \<noteq> ''tool_call''" "p = ContentPart k x"
      by (auto simp: decode_part_def res_simps mk_Inr split: if_splits)
    have "json_norm (part_to_dict p) = json_norm v"
      unfolding v *(6) part_to_dict.simps
      by (rule json_norm_JObj_readback [OF assms(1) [unfolded v]]) (simp_all add: * *(1) [simplified])
    moreover have "json_unique x"
      using assms(1) unfolding v by (rule json_unique_map_of) (rule *(3))
    ultimately show ?thesis using * by simp
  qed
  then show "part_ok p" "json_norm (part_to_dict p) = json_norm v" by simp_all
qed

lemma decode_parts_Inr:
  assumes "\<forall>v \<in> set vs. json_unique v" "traverse decode_part vs = Inr ps"
  shows "\<forall>p \<in> set ps. part_ok p" "map json_norm (map part_to_dict ps) = map json_norm vs"
proof -
  have "list_all2 (\<lambda>v p. decode_part v = Inr p) vs ps"
    using assms(2) by (simp add: traverse_Inr_list_all2)
  then have "(\<forall>p \<in> set ps. part_ok p) \<and> map json_norm (map part_to_dict ps) = map json_norm vs"
    using assms(1) by (induction rule: list_all2_induct) (auto dest: decode_part_Inr)
  then show "\<forall>p \<in> set ps. part_ok p" "map json_norm (map part_to_dict ps) = map json_norm vs"
    by simp_all
qed


lemma decode_control_Inr:
  assumes "json_unique (JObj raw)" "map_of raw ''kind'' = Some (JStr ''control'')"
    and "decode_control (JObj raw) = Inr b"
  shows "body_ok b \<and> encode_body True b = Inr (json_norm (JObj raw))"
proof -
  from assms(3) obtain a m r where
    *: "set (keys_of raw) = {''kind'', ''action'', ''through_seq'', ''reason''}"
      "map_of raw ''action'' = Some (JStr (action_text a))"
      "map_of raw ''through_seq'' = Some (JInt m)" "0 \<le> m"
      "map_of raw ''reason'' = Some (case r of None \<Rightarrow> JNull | Some t \<Rightarrow> JStr t)"
      "b = Control a (nat m) r"
    by (auto simp: decode_control_def res_simps mk_Inr split: if_splits)
  have "json_norm (JObj (body_to_dict b)) = json_norm (JObj raw)"
    unfolding *(6) body_to_dict.simps
    by (rule json_norm_JObj_readback [OF assms(1)]) (simp_all add: * *(1) [simplified] assms(2) split: option.split)
  then show ?thesis using *(6) by (simp add: encode_body_def del: json_norm.simps)
qed

lemma decode_input_Inr:
  assumes "json_unique (JObj raw)" "map_of raw ''kind'' = Some (JStr ''input'')"
    and "set (keys_of raw) = {''kind'', ''parts''}" "map_of raw ''parts'' = Some (JArr vs)"
    and "traverse decode_part vs = Inr ps" "mk_input ps = Inr b"
  shows "body_ok b \<and> encode_body True b = Inr (json_norm (JObj raw))"
proof -
  have u: "\<forall>v \<in> set vs. json_unique v" using json_unique_map_of [OF assms(1,4)] by simp
  note ps = decode_parts_Inr [OF u assms(5)]
  from assms(6) have b: "b = Input ps" "\<forall>p \<in> set ps. \<not> is_tool_call p"
    by (auto simp: mk_input_def split: if_splits)
  have "json_norm (JObj (body_to_dict b)) = json_norm (JObj raw)"
    unfolding b(1) body_to_dict.simps
    by (rule json_norm_JObj_readback [OF assms(1)]) (use ps(2) in \<open>simp_all add: assms(2,4) assms(3) [simplified]\<close>)
  then show ?thesis using b ps(1) by (simp add: encode_body_def del: json_norm.simps)
qed

lemma decode_output_Inr:
  assumes "json_unique (JObj raw)" "map_of raw ''kind'' = Some (JStr ''output'')"
    and "set (keys_of raw) = {''kind'', ''parts'', ''finish''}" "map_of raw ''parts'' = Some (JArr vs)"
    and "traverse decode_part vs = Inr ps" "map_of raw ''finish'' = Some f" "mk_output ps f = Inr b"
  shows "body_ok b \<and> encode_body True b = Inr (json_norm (JObj raw))"
proof -
  have u: "\<forall>v \<in> set vs. json_unique v" using json_unique_map_of [OF assms(1,4)] by simp
  note ps = decode_parts_Inr [OF u assms(5)]
  from assms(7) obtain fin where
    b: "b = Output ps fin" "f = JStr (finish_text fin)"
      "fin \<noteq> Continue \<longrightarrow> (\<forall>p \<in> set ps. \<not> is_tool_call p)"
    by (auto simp: mk_output_def finish_of_Inr res_simps split: if_splits)
  have "json_norm (JObj (body_to_dict b)) = json_norm (JObj raw)"
    unfolding b(1) body_to_dict.simps
    by (rule json_norm_JObj_readback [OF assms(1)]) (use ps(2) in \<open>simp_all add: assms(2,4,6) assms(3) [simplified] b(2)\<close>)
  then show ?thesis using b ps(1) by (simp add: encode_body_def del: json_norm.simps)
qed

lemma ref_readback:
  assumes "json_unique v" "json_object v [''message_id'', ''part_index''] = Inr call"
    and "map_of call ''message_id'' = Some m" "map_of call ''part_index'' = Some i"
    and "mk_call_ref m i = Inr ref"
  shows "json_norm v = json_norm (ref_to_dict ref)" "ref_message ref \<noteq> []"
proof -
  from assms(2) have v: "v = JObj call" "set (keys_of call) = {''message_id'', ''part_index''}"
    by (auto simp: json_object_Inr)
  from assms(5) obtain s n where
    r: "m = JStr s" "s \<noteq> []" "i = JInt n" "0 \<le> n" "ref = \<lparr>ref_message = s, ref_part = nat n\<rparr>"
    by (auto simp: mk_Inr)
  have "json_norm (ref_to_dict ref) = json_norm v"
    unfolding ref_to_dict_def v(1)
    by (rule json_norm_JObj_readback [OF assms(1) [unfolded v(1)]])
      (simp_all add: assms(3,4) v(2) [simplified] r(1,3-5))
  then show "json_norm v = json_norm (ref_to_dict ref)" "ref_message ref \<noteq> []" using r by simp_all
qed


lemma outcome_text_not_unknown [simp]: "outcome_text oc \<noteq> ''unknown''"
  by (cases oc) auto

lemma decode_result_Inr:
  assumes "json_unique (JObj raw)" "map_of raw ''kind'' = Some (JStr ''tool_result'')"
    and "set (keys_of raw) = {''kind'', ''parts'', ''call_ref'', ''outcome''}"
    and "map_of raw ''parts'' = Some (JArr vs)" "traverse decode_part vs = Inr ps"
    and "decode_tool_result raw ps = Inr b"
  shows "body_ok b \<and> encode_body True b = Inr (json_norm (JObj raw))"
proof -
  have u: "\<forall>v \<in> set vs. json_unique v" using json_unique_map_of [OF assms(1,4)] by simp
  note ps = decode_parts_Inr [OF u assms(5)]
  from assms(6) obtain v call m i ref out b0 where
    r: "map_of raw ''call_ref'' = Some v" "json_object v [''message_id'', ''part_index''] = Inr call"
      "map_of call ''message_id'' = Some m" "map_of call ''part_index'' = Some i"
      "mk_call_ref m i = Inr ref" and
    b0: "map_of raw ''outcome'' = Some out" "b = set_legacy (out = JStr ''unknown'') b0"
      "mk_tool_result ref (if out = JStr ''unknown'' then JStr ''error'' else out) ps = Inr b0"
    by (auto simp: decode_tool_result_def attempt_eq_Inr simp del: if_split)
  from b0(3) have plain: "\<forall>p \<in> set ps. \<not> is_tool_call p"
    unfolding mk_tool_result_def by (meson sum.distinct(1))
  with b0 obtain oc where
    oc: "map_of raw ''outcome'' = Some out" "\<forall>p \<in> set ps. \<not> is_tool_call p"
      "(if out = JStr ''unknown'' then JStr ''error'' else out) = JStr (outcome_text oc)"
      "b = ToolResult (out = JStr ''unknown'') ref oc ps"
    by (auto simp: mk_tool_result_def outcome_of_Inr attempt_eq_Inr simp del: if_split)
  note rb = ref_readback [OF json_unique_map_of [OF assms(1) r(1)] r(2-5)]
  have "encode_body True b = Inr (json_norm (JObj raw))"
  proof (cases "out = JStr ''unknown''")
    case True
    have "json_norm (JObj [(''kind'', JStr ''tool_result''), (''parts'', JArr (map part_to_dict ps)),
        (''outcome'', JStr ''unknown''), (''call_ref'', ref_to_dict ref)]) = json_norm (JObj raw)"
      by (rule json_norm_JObj_readback [OF assms(1)])
        (use ps(2) in \<open>simp_all add: assms(2,4) assms(3) [simplified] r(1) oc(1) rb(1) True insert_commute\<close>)
    then show ?thesis
      using True by (simp add: oc(4) encode_body_def dict_put_def del: json_norm.simps)
  next
    case False
    have "json_norm (JObj (body_to_dict b)) = json_norm (JObj raw)"
      unfolding oc(4) body_to_dict.simps
      by (rule json_norm_JObj_readback [OF assms(1)])
        (use ps(2) oc(3) False in \<open>simp_all add: assms(2,4) assms(3) [simplified] r(1) oc(1) rb(1) insert_commute\<close>)
    then show ?thesis using False by (simp add: oc(4) encode_body_def del: json_norm.simps)
  qed
  moreover have "out = JStr ''unknown'' \<Longrightarrow> oc = ErrorOutcome"
    using oc(3) by (cases oc) auto
  ultimately show ?thesis using ps(1) oc(2) rb(2) by (simp add: oc(4))
qed

lemma decode_body_Inr:
  assumes "decode_body p = Inr b"
  shows "body_ok b \<and> encode_body True b = Inr (json_norm p)"
proof -
  from assms have u: "json_unique p" by (auto simp: decode_body_def split: if_splits)
  from assms obtain raw kind where p: "p = JObj raw" "map_of raw ''kind'' = Some (JStr kind)"
    by (auto simp: decode_body_def split: if_splits json.splits option.splits)
  show ?thesis
  proof (cases "kind = ''control''")
    case True
    then show ?thesis using assms u p decode_control_Inr by (simp add: decode_body_def del: json_norm.simps)
  next
    case False
    then obtain fs where fs: "body_fields kind = Some fs" "set (keys_of raw) = set fs"
      "decode_parts_body kind raw = Inr b"
      using assms u p by (auto simp: decode_body_def split: option.splits if_splits)
    from fs(3) obtain v where v: "map_of raw ''parts'' = Some v"
      by (auto simp: decode_parts_body_def attempt_eq_Inr)
    then obtain vs where vs: "v = JArr vs"
      using fs(3) by (cases v) (auto simp: decode_parts_body_def attempt_eq_Inr)
    with fs(3) v obtain ps where ps: "map_of raw ''parts'' = Some (JArr vs)" "traverse decode_part vs = Inr ps"
      "(if kind = ''input'' then mk_input ps
        else if kind = ''output'' then attempt (field raw ''finish'') (mk_output ps)
        else decode_tool_result raw ps) = Inr b"
      by (auto simp: decode_parts_body_def attempt_eq_Inr)
    consider "kind = ''input''" | "kind = ''output''" | "kind = ''tool_result''"
      using fs(1) by (auto simp: body_fields_def split: if_splits)
    then show ?thesis
    proof cases
      case 1
      with fs(1,2) have "set (keys_of raw) = {''kind'', ''parts''}" by (auto simp: body_fields_def)
      then show ?thesis using decode_input_Inr [OF u [unfolded p(1)]] p ps 1 by simp
    next
      case 2
      with fs(1,2) have "set (keys_of raw) = {''kind'', ''parts'', ''finish''}"
        by (auto simp: body_fields_def)
      moreover from ps(3) 2 obtain f where "map_of raw ''finish'' = Some f" "mk_output ps f = Inr b"
        by (auto simp: attempt_eq_Inr)
      ultimately show ?thesis using decode_output_Inr [OF u [unfolded p(1)]] p ps 2 by simp
    next
      case 3
      with fs(1,2) have "set (keys_of raw) = {''kind'', ''parts'', ''call_ref'', ''outcome''}"
        by (auto simp: body_fields_def)
      then show ?thesis using decode_result_Inr [OF u [unfolded p(1)]] p ps 3 by simp
    qed
  qed
qed

end
