(* ===== verification/Ledger_Tables.thy ===== *)
theory Ledger_Tables
  imports Ledger_Content
begin

text \<open>
  The database behind \<open>MessageLog\<close> (\<open>plugins/ledger/log.py\<close>, schema after all
  migrations) as a record of tables, each a list of rows in insertion order, and the read
  capability over one session (\<open>MessageReader\<close>). A query is a filter, \<open>ORDER BY seq\<close> a
  stable sort, \<open>LIMIT n\<close> a prefix. Times are integers (microseconds); the clock is an
  argument of the operations that read it. The decode caches are left out: the source
  keys them by the row's whole content, so they never change a result.
\<close>

section \<open>Session attributes\<close>

datatype visibility = Listed | Internal
datatype learning = Eligible | Excluded

record session_attributes =
  att_visibility :: visibility
  att_learning :: learning
  att_scope :: "(string \<times> string) list"

definition scope_dimension_ok :: "string \<Rightarrow> bool" where
  "scope_dimension_ok name =
     (let lower = (\<lambda>c. CHR ''a'' \<le> c \<and> c \<le> CHR ''z'');
          digit = (\<lambda>c. CHR ''0'' \<le> c \<and> c \<le> CHR ''9'')
      in name \<noteq> [] \<and> lower (hd name) \<and> length name \<le> 32 \<and>
         list_all (\<lambda>c. lower c \<or> digit c \<or> c = CHR ''_'') (tl name))"

definition scope_value_ok :: "string \<Rightarrow> bool" where
  "scope_value_ok v =
     (v \<noteq> [] \<and> v \<noteq> ''default'' \<and> length v \<le> 128 \<and> v = py_strip v)"

text \<open>\<open>SessionAttributes.__post_init__\<close>.\<close>

definition mk_attributes ::
  "visibility \<Rightarrow> learning \<Rightarrow> (string \<times> string) list \<Rightarrow> session_attributes res" where
  "mk_attributes vis learn scope =
     (if \<not> (sorted (map fst scope) \<and> distinct (map fst scope)) then Inl ValueError
      else if \<exists>(n, v) \<in> set scope. \<not> scope_dimension_ok n \<or> \<not> scope_value_ok v then Inl ValueError
      else Inr \<lparr>att_visibility = vis, att_learning = learn, att_scope = scope\<rparr>)"

section \<open>Rows and tables\<close>

record session_row =
  ses_key :: string
  ses_created :: int
  ses_updated :: int
  ses_metadata :: "json option"
  ses_next_seq :: nat
  ses_attributes :: session_attributes
  ses_deleted :: "int option"
  ses_title :: "string option"

record message_row =
  row_id :: string
  row_session :: string
  row_seq :: nat
  row_ts :: int
  row_author :: string
  row_source :: string
  row_body :: json
  row_metadata :: json

record owner_row =
  own_owner :: string
  own_key :: string
  own_version :: nat
  own_value :: json

record ledger =
  led_sessions :: "session_row list"
  led_messages :: "message_row list"
  led_artifacts :: "(string \<times> string) list"
  led_attachments :: "(string \<times> nat \<times> string) list"
  led_bindings :: "(string \<times> json) list"
  led_message_bindings :: "(string \<times> string) list"
  led_owners :: "owner_row list"

definition default_attributes :: session_attributes where
  "default_attributes = \<lparr>att_visibility = Listed, att_learning = Eligible, att_scope = []\<rparr>"

definition find_session :: "string \<Rightarrow> ledger \<Rightarrow> session_row option" where
  "find_session s l = find (\<lambda>r. ses_key r = s) (led_sessions l)"

definition find_message :: "string \<Rightarrow> ledger \<Rightarrow> message_row option" where
  "find_message mid l = find (\<lambda>r. row_id r = mid) (led_messages l)"

definition update_session :: "string \<Rightarrow> (session_row \<Rightarrow> session_row) \<Rightarrow> ledger \<Rightarrow> ledger" where
  "update_session s f l =
     l\<lparr>led_sessions := map (\<lambda>r. if ses_key r = s then f r else r) (led_sessions l)\<rparr>"

text \<open>\<open>json_extract(body, '$.<field>')\<close> where the result is text.\<close>

definition body_text :: "string \<Rightarrow> json \<Rightarrow> string option" where
  "body_text f b = (case b of
     JObj kvs \<Rightarrow> (case map_of kvs f of Some (JStr s) \<Rightarrow> Some s | _ \<Rightarrow> None)
   | _ \<Rightarrow> None)"

text \<open>\<open>json_extract(body, '$.parts[i].kind')\<close>.\<close>

definition body_part_kind :: "nat \<Rightarrow> json \<Rightarrow> string option" where
  "body_part_kind i b = (case b of
     JObj kvs \<Rightarrow> (case map_of kvs ''parts'' of
         Some (JArr vs) \<Rightarrow> if i < length vs then body_text ''kind'' (vs ! i) else None
       | _ \<Rightarrow> None)
   | _ \<Rightarrow> None)"

text \<open>\<open>json_extract\<close> of \<open>$.call_ref.message_id\<close> and \<open>$.call_ref.part_index\<close>.\<close>

definition body_call_ref :: "json \<Rightarrow> (string \<times> int) option" where
  "body_call_ref b = (case b of
     JObj kvs \<Rightarrow> (case map_of kvs ''call_ref'' of
         Some (JObj ref) \<Rightarrow> (case (map_of ref ''message_id'', map_of ref ''part_index'') of
             (Some (JStr m), Some (JInt i)) \<Rightarrow> Some (m, i)
           | _ \<Rightarrow> None)
       | _ \<Rightarrow> None)
   | _ \<Rightarrow> None)"

text \<open>The rows of the tool results of one call.\<close>

definition is_result_of :: "call_ref \<Rightarrow> message_row \<Rightarrow> bool" where
  "is_result_of ref r \<longleftrightarrow>
     body_text ''kind'' (row_body r) = Some ''tool_result'' \<and>
     body_call_ref (row_body r) = Some (ref_message ref, int (ref_part ref))"

section \<open>Decoding a row\<close>

text \<open>\<open>_json_object\<close>: an object without repeated keys.\<close>

definition stored_object :: "json \<Rightarrow> json res" where
  "stored_object v = (case v of
     JObj _ \<Rightarrow> if json_unique v then Inr v else Inl ValueError
   | _ \<Rightarrow> Inl ValueError)"

text \<open>\<open>_message\<close>.\<close>

definition decode_row :: "message_row \<Rightarrow> message res" where
  "decode_row r =
     attempt (stored_object (row_metadata r)) (\<lambda>md.
     attempt (decode_body (row_body r)) (\<lambda>b.
       mk_message (row_id r) (row_session r) (row_seq r) (row_ts r) (row_author r) (row_source r) b md))"

section \<open>MessageReader\<close>

definition session_rows :: "string \<Rightarrow> ledger \<Rightarrow> message_row list" where
  "session_rows s l = sort_key row_seq (filter (\<lambda>r. row_session r = s) (led_messages l))"

definition last_row :: "message_row list \<Rightarrow> message_row option" where
  "last_row rows = (if rows = [] then None else Some (last rows))"

definition reader_read ::
  "ledger \<Rightarrow> string \<Rightarrow> int \<Rightarrow> int option \<Rightarrow> string option \<Rightarrow> int \<Rightarrow> message list res" where
  "reader_read l s after_seq through source limit =
     (if limit < 1 \<or> after_seq < -1 then Inl ValueError
      else traverse decode_row (take (nat limit)
        (filter (\<lambda>r. after_seq < int (row_seq r) \<and>
                     (case through of None \<Rightarrow> True | Some t \<Rightarrow> int (row_seq r) \<le> t) \<and>
                     (case source of None \<Rightarrow> True | Some src \<Rightarrow> row_source r = src))
          (session_rows s l))))"

definition reader_source_changed :: "ledger \<Rightarrow> string \<Rightarrow> string \<Rightarrow> int \<Rightarrow> bool" where
  "reader_source_changed l s source through =
     list_ex (\<lambda>r. row_session r = s \<and> row_source r = source \<and> through < int (row_seq r) \<and>
                  (body_text ''kind'' (row_body r) = Some ''input'' \<or>
                   body_text ''kind'' (row_body r) = Some ''control''))
       (led_messages l)"

definition reader_source_names :: "ledger \<Rightarrow> string \<Rightarrow> string set" where
  "reader_source_names l s = set (map row_source (session_rows s l))"

text \<open>The rows of one kind and source in a fixed prefix, in order.\<close>

definition kind_rows :: "ledger \<Rightarrow> string \<Rightarrow> string \<Rightarrow> string \<Rightarrow> int \<Rightarrow> message_row list" where
  "kind_rows l s source kind through =
     filter (\<lambda>r. row_source r = source \<and> int (row_seq r) \<le> through \<and>
                 body_text ''kind'' (row_body r) = Some kind) (session_rows s l)"

definition decode_last :: "message_row list \<Rightarrow> message option res" where
  "decode_last rows = (case last_row rows of
     None \<Rightarrow> Inr None
   | Some r \<Rightarrow> attempt (decode_row r) (\<lambda>m. Inr (Some m)))"

definition reader_latest_input :: "ledger \<Rightarrow> string \<Rightarrow> string \<Rightarrow> int \<Rightarrow> message option res" where
  "reader_latest_input l s source through = decode_last (kind_rows l s source ''input'' through)"

definition reader_latest_input_seq :: "ledger \<Rightarrow> string \<Rightarrow> string \<Rightarrow> int \<Rightarrow> nat option" where
  "reader_latest_input_seq l s source through =
     map_option row_seq (last_row (kind_rows l s source ''input'' through))"

definition reader_latest_finished_output_seq ::
  "ledger \<Rightarrow> string \<Rightarrow> string \<Rightarrow> int \<Rightarrow> int \<Rightarrow> nat option" where
  "reader_latest_finished_output_seq l s source after_seq through =
     map_option row_seq (last_row
       (filter (\<lambda>r. after_seq < int (row_seq r) \<and>
                    (body_text ''finish'' (row_body r) = Some ''complete'' \<or>
                     body_text ''finish'' (row_body r) = Some ''quiet''))
         (kind_rows l s source ''output'' through)))"

definition reader_result_committed :: "ledger \<Rightarrow> string \<Rightarrow> call_ref \<Rightarrow> bool" where
  "reader_result_committed l s call =
     list_ex (\<lambda>r. is_result_of call r \<and> row_session r = s) (led_messages l)"

definition reader_latest_control :: "ledger \<Rightarrow> string \<Rightarrow> string \<Rightarrow> int \<Rightarrow> message option res" where
  "reader_latest_control l s source through = decode_last (kind_rows l s source ''control'' through)"

text \<open>\<open>scan_controls\<close>: the control bodies handed to the callback, in order.\<close>

definition decode_control_row :: "message_row \<Rightarrow> (nat \<times> body) res" where
  "decode_control_row r =
     attempt (decode_body (row_body r)) (\<lambda>b. case control_through b of
       Some n \<Rightarrow> if row_seq r \<le> n then Inl ValueError else Inr (row_seq r, b)
     | None \<Rightarrow> Inl ValueError)"

definition reader_scan_controls ::
  "ledger \<Rightarrow> string \<Rightarrow> string \<Rightarrow> int \<Rightarrow> int \<Rightarrow> (nat \<times> body) list res" where
  "reader_scan_controls l s source after_seq through =
     traverse decode_control_row
       (filter (\<lambda>r. after_seq < int (row_seq r)) (kind_rows l s source ''control'' through))"

definition reader_get :: "ledger \<Rightarrow> string \<Rightarrow> string \<Rightarrow> message option res" where
  "reader_get l s mid = (case find (\<lambda>r. row_id r = mid \<and> row_session r = s) (led_messages l) of
     None \<Rightarrow> Inr None
   | Some r \<Rightarrow> attempt (decode_row r) (\<lambda>m. Inr (Some m)))"

text \<open>\<open>COALESCE(MAX(seq), -1)\<close>.\<close>

fun max_seq :: "message_row list \<Rightarrow> int" where
  "max_seq [] = -1"
| "max_seq (r # rs) = max (int (row_seq r)) (max_seq rs)"

definition reader_head :: "ledger \<Rightarrow> string \<Rightarrow> string option \<Rightarrow> int" where
  "reader_head l s source =
     max_seq (filter (\<lambda>r. row_session r = s \<and>
       (case source of None \<Rightarrow> True | Some src \<Rightarrow> row_source r = src)) (led_messages l))"

record message_page =
  page_messages :: "message list"
  page_attachments :: "(string \<times> string list) list"
  page_bindings :: "(string \<times> json) list"
  page_through :: int
  page_has_more :: bool

text \<open>The artifacts of one message in ordinal order; a gap in the ordinals or a link to a
  resource that is not published is corruption.\<close>

definition message_artifacts :: "ledger \<Rightarrow> string \<Rightarrow> string list res" where
  "message_artifacts l mid =
     (let links = sort_key (\<lambda>(m, n, a). n) (filter (\<lambda>(m, n, a). m = mid) (led_attachments l))
      in if map (\<lambda>(m, n, a). n) links \<noteq> [0..<length links] \<or>
            (\<exists>(m, n, a) \<in> set links. map_of (led_artifacts l) a \<noteq> Some ''ready'')
         then Inl ValueError
         else Inr (map (\<lambda>(m, n, a). a) links))"

text \<open>The descriptors of the bindings that the page's messages refer to, by identity.\<close>

definition page_binding_refs :: "ledger \<Rightarrow> message list \<Rightarrow> (string \<times> json) list res" where
  "page_binding_refs l ms =
     traverse (\<lambda>b. case map_of (led_bindings l) b of
         None \<Rightarrow> Inl ValueError
       | Some d \<Rightarrow> attempt (stored_object d) (\<lambda>v. Inr (b, v)))
       (sort (remdups (map snd (filter (\<lambda>(m, b). m \<in> msg_id ` set ms) (led_message_bindings l)))))"

definition reader_page ::
  "ledger \<Rightarrow> string \<Rightarrow> int \<Rightarrow> int option \<Rightarrow> int option \<Rightarrow> int \<Rightarrow> bool \<Rightarrow> message_page res" where
  "reader_page l s after_seq before_seq through_seq limit tail =
     (if \<not> (1 \<le> limit \<and> limit \<le> 200) \<or> after_seq < -1 \<or>
         (case before_seq of None \<Rightarrow> False | Some b \<Rightarrow> b < 0)
      then Inl InvalidPage
      else if find_session s l = None then Inl KeyError
      else let head = reader_head l s None;
               through = (case through_seq of None \<Rightarrow> head | Some t \<Rightarrow> t)
      in if \<not> (-1 \<le> through \<and> through \<le> head) \<or> through < after_seq then Inl InvalidPage
      else let before = (case before_seq of None \<Rightarrow> through + 1 | Some b \<Rightarrow> b)
      in if through + 1 < before then Inl InvalidPage
      else let ordered = (if tail then rev else (\<lambda>rs. rs))
                 (filter (\<lambda>r. after_seq < int (row_seq r) \<and> int (row_seq r) \<le> through \<and>
                              int (row_seq r) < before) (session_rows s l));
               rows = take (nat limit + 1) ordered;
               selected = (if tail then rev else (\<lambda>rs. rs)) (take (nat limit) rows)
      in attempt (traverse decode_row selected) (\<lambda>ms.
         attempt (traverse (\<lambda>m. attempt (message_artifacts l (msg_id m)) (\<lambda>as. Inr (msg_id m, as))) ms) (\<lambda>refs.
         attempt (page_binding_refs l ms) (\<lambda>binds.
           Inr \<lparr>page_messages = ms, page_attachments = refs, page_bindings = binds,
                page_through = through, page_has_more = (nat limit < length rows)\<rparr>))))"

section \<open>Session facts of the reader\<close>

definition reader_metadata :: "ledger \<Rightarrow> string \<Rightarrow> json option res" where
  "reader_metadata l s = (case find_session s l of
     None \<Rightarrow> Inr None
   | Some r \<Rightarrow> (case ses_metadata r of
         None \<Rightarrow> Inr None
       | Some v \<Rightarrow> attempt (stored_object v) (\<lambda>w. Inr (Some w))))"

definition reader_attributes :: "ledger \<Rightarrow> string \<Rightarrow> session_attributes res" where
  "reader_attributes l s = (case find_session s l of
     None \<Rightarrow> Inl ValueError | Some r \<Rightarrow> Inr (ses_attributes r))"

definition reader_deleted :: "ledger \<Rightarrow> string \<Rightarrow> bool res" where
  "reader_deleted l s = (case find_session s l of
     None \<Rightarrow> Inl ValueError | Some r \<Rightarrow> Inr (ses_deleted r \<noteq> None))"

definition reader_title :: "ledger \<Rightarrow> string \<Rightarrow> string option res" where
  "reader_title l s = (case find_session s l of
     None \<Rightarrow> Inl ValueError | Some r \<Rightarrow> Inr (ses_title r))"

definition catalog_exists :: "ledger \<Rightarrow> string \<Rightarrow> bool" where
  "catalog_exists l s = (find_session s l \<noteq> None)"

end
