(* ===== verification/Ledger_Writer.thy ===== *)
theory Ledger_Writer
  imports Ledger_Tables
begin

text \<open>
  Appending to the message log: \<open>MessageWriter\<close> and \<open>PreparedAppend\<close> of
  \<open>plugins/ledger/log.py\<close>. A writer carries what its owner granted (body types,
  content validators, the one call it may answer, metadata keys); the owner's callbacks
  and the registered append checks are parameters, pure functions that may raise. An
  operation that raises returns no ledger: the enclosing SQLite transaction rolls back.
\<close>

section \<open>Grants\<close>

datatype body_kind = InputKind | OutputKind | ResultKind | ControlKind

fun kind_of :: "body \<Rightarrow> body_kind" where
  "kind_of (Input _) = InputKind"
| "kind_of (Output _ _) = OutputKind"
| "kind_of (ToolResult _ _ _ _) = ResultKind"
| "kind_of (Control _ _ _) = ControlKind"

record content_references =
  ref_bindings :: "string list"
  ref_artifacts :: "string list"

text \<open>\<open>ContentReferences.__post_init__\<close>.\<close>

definition mk_references :: "string list \<Rightarrow> string list \<Rightarrow> content_references res" where
  "mk_references bs as =
     (if [] \<in> set bs \<or> [] \<in> set as then Inl TypeError
      else Inr \<lparr>ref_bindings = bs, ref_artifacts = as\<rparr>)"

record writer =
  wr_session :: string
  wr_author :: string
  wr_source :: string
  wr_types :: "body_kind list"
  wr_content :: "string \<Rightarrow> (part \<Rightarrow> content_references res) option"
  wr_call :: "call_ref option"
  wr_check_call :: "(part \<Rightarrow> unit res) option"
  wr_session_keys :: "string list"
  wr_update :: "(body \<Rightarrow> (string \<times> json option) list) option"
  wr_message_keys :: "string list"
  wr_check_metadata :: "(json \<Rightarrow> unit res) option"
  wr_active :: bool

text \<open>\<open>MessageLog.writer\<close> refuses to grant tool results without their call.\<close>

definition grant_writer :: "writer \<Rightarrow> writer res" where
  "grant_writer w =
     (if ResultKind \<in> set (wr_types w) \<and> wr_call w = None then Inl ValueError
      else Inr (w\<lparr>wr_active := True\<rparr>))"

definition expire :: "writer \<Rightarrow> writer" where
  "expire w = w\<lparr>wr_active := False\<rparr>"

fun body_ref :: "body \<Rightarrow> call_ref option" where
  "body_ref (ToolResult _ ref _ _) = Some ref"
| "body_ref _ = None"

definition check_grant :: "writer \<Rightarrow> body \<Rightarrow> unit res" where
  "check_grant w b =
     (if kind_of b \<notin> set (wr_types w) then Inl PermissionError
      else case body_ref b of
        None \<Rightarrow> Inr ()
      | Some ref \<Rightarrow> if wr_call w = Some ref then Inr () else Inl PermissionError)"

text \<open>\<open>_metadata\<close>: the grant, the representation and the key range; \<open>None\<close> is \<open>{}\<close>.\<close>

fun object_keys :: "json \<Rightarrow> string list" where
  "object_keys (JObj kvs) = keys_of kvs"
| "object_keys _ = []"

definition writer_metadata :: "writer \<Rightarrow> body \<Rightarrow> json option \<Rightarrow> json res" where
  "writer_metadata w b metadata =
     attempt (check_grant w b) (\<lambda>_.
     attempt (freeze_metadata (case metadata of None \<Rightarrow> JObj [] | Some v \<Rightarrow> v)) (\<lambda>v.
       if wr_check_metadata w = None \<and> \<not> set (object_keys v) \<subseteq> set (wr_message_keys w)
       then Inl PermissionError
       else Inr v))"

section \<open>Replay of a used identity\<close>

definition replay :: "writer \<Rightarrow> string \<Rightarrow> body \<Rightarrow> json \<Rightarrow> ledger \<Rightarrow> message option res" where
  "replay w mid b metadata l = (case find_message mid l of
     None \<Rightarrow> if is_legacy b then Inl ValueError else Inr None
   | Some old \<Rightarrow>
       attempt (encode_body True b) (\<lambda>payload.
         if row_session old \<noteq> wr_session w \<or> row_author old \<noteq> wr_author w \<or>
            row_source old \<noteq> wr_source w \<or> row_body old \<noteq> payload
         then Inl MessageConflict
         else attempt (decode_row old) (\<lambda>previous.
           if json_norm (msg_metadata previous) \<noteq> json_norm metadata then Inl MessageConflict
           else Inr (Some previous))))"

section \<open>References and checks of new content\<close>

fun body_parts :: "body \<Rightarrow> part list" where
  "body_parts (Input ps) = ps"
| "body_parts (Output ps _) = ps"
| "body_parts (ToolResult _ _ _ ps) = ps"
| "body_parts (Control _ _ _) = []"

definition part_references :: "writer \<Rightarrow> part \<Rightarrow> content_references res" where
  "part_references w p = (case p of
     ToolCall b _ \<Rightarrow> (case wr_check_call w of
         None \<Rightarrow> Inl PermissionError
       | Some check \<Rightarrow> attempt (check p) (\<lambda>_. Inr \<lparr>ref_bindings = [b], ref_artifacts = []\<rparr>))
   | ContentPart k _ \<Rightarrow> (case wr_content w k of
         None \<Rightarrow> Inl PermissionError
       | Some validator \<Rightarrow> validator p))"

definition references :: "writer \<Rightarrow> body \<Rightarrow> (string list \<times> string list) res" where
  "references w b =
     attempt (traverse (part_references w) (body_parts b)) (\<lambda>rs.
       Inr (remdups (concat (map ref_bindings rs)), concat (map ref_artifacts rs)))"

definition check_artifacts :: "string list \<Rightarrow> ledger \<Rightarrow> unit res" where
  "check_artifacts as l =
     run_checks (\<lambda>a. fail_if (map_of (led_artifacts l) a \<noteq> Some ''ready'') ValueError) (remdups as)"

definition check_call_result :: "writer \<Rightarrow> call_ref \<Rightarrow> ledger \<Rightarrow> unit res" where
  "check_call_result w ref l = (case find_message (ref_message ref) l of
     None \<Rightarrow> Inl ValueError
   | Some call \<Rightarrow>
       if row_session call \<noteq> wr_session w \<or> row_source call \<noteq> wr_source w then Inl ValueError
       else if body_text ''kind'' (row_body call) \<noteq> Some ''output'' \<or>
               body_part_kind (ref_part ref) (row_body call) \<noteq> Some ''tool_call'' then Inl ValueError
       else if list_ex (is_result_of ref) (led_messages l) then Inl MessageConflict
       else Inr ())"

text \<open>\<open>MessageWriter.check\<close>: everything a commit would check, without taking a number.\<close>

definition writer_check :: "writer \<Rightarrow> body \<Rightarrow> ledger \<Rightarrow> unit res" where
  "writer_check w b l =
     attempt (check_grant w b) (\<lambda>_.
     attempt (fail_if (\<not> wr_active w) WriterExpired) (\<lambda>_.
     attempt (references w b) (\<lambda>(_, as).
     attempt (check_artifacts as l) (\<lambda>_.
       case body_ref b of None \<Rightarrow> Inr () | Some ref \<Rightarrow> check_call_result w ref l))))"

section \<open>Preparation\<close>

record prepared_message =
  pre_body :: body
  pre_metadata :: json
  pre_bindings :: "string list"
  pre_artifacts :: "string list"
  pre_session_metadata :: "(string \<times> json option) list"

definition prepare :: "writer \<Rightarrow> body \<Rightarrow> json \<Rightarrow> prepared_message res" where
  "prepare w b metadata =
     attempt (case wr_check_metadata w of
         None \<Rightarrow> Inr ()
       | Some check \<Rightarrow> if object_keys metadata = [] then Inr () else check metadata) (\<lambda>_.
     attempt (references w b) (\<lambda>(bindings, artifacts).
       let changes = (case wr_update w of None \<Rightarrow> [] | Some f \<Rightarrow> f b)
       in if \<not> set (map fst changes) \<subseteq> set (wr_session_keys w) then Inl PermissionError
          else Inr \<lparr>pre_body = b, pre_metadata = metadata, pre_bindings = bindings,
                    pre_artifacts = artifacts, pre_session_metadata = changes\<rparr>))"

section \<open>Insertion\<close>

text \<open>The constraints of the tables \<open>messages\<close>, \<open>message_attachments\<close> and
  \<open>message_bindings\<close>: identities and numbers are unique, a call has one result row, the
  foreign keys exist.\<close>

definition insert_message_row :: "message_row \<Rightarrow> ledger \<Rightarrow> ledger res" where
  "insert_message_row r l =
     (if list_ex (\<lambda>q. row_id q = row_id r) (led_messages l) \<or>
         list_ex (\<lambda>q. row_session q = row_session r \<and> row_seq q = row_seq r) (led_messages l) \<or>
         (body_text ''kind'' (row_body r) = Some ''tool_result'' \<and> body_call_ref (row_body r) \<noteq> None \<and>
          list_ex (\<lambda>q. body_text ''kind'' (row_body q) = Some ''tool_result'' \<and>
                       body_call_ref (row_body q) = body_call_ref (row_body r)) (led_messages l))
      then Inl IntegrityError
      else Inr (l\<lparr>led_messages := led_messages l @ [r]\<rparr>))"

definition insert_attachments :: "string \<Rightarrow> string list \<Rightarrow> ledger \<Rightarrow> ledger res" where
  "insert_attachments mid as l =
     (if \<exists>a \<in> set as. map_of (led_artifacts l) a = None then Inl IntegrityError
      else Inr (l\<lparr>led_attachments := led_attachments l @ map (\<lambda>(n, a). (mid, n, a)) (enumerate 0 as)\<rparr>))"

definition insert_bindings :: "string \<Rightarrow> string list \<Rightarrow> ledger \<Rightarrow> ledger res" where
  "insert_bindings mid bs l =
     (if \<exists>b \<in> set bs. map_of (led_bindings l) b = None then Inl IntegrityError
      else Inr (l\<lparr>led_message_bindings := led_message_bindings l @ map (\<lambda>b. (mid, b)) bs\<rparr>))"

text \<open>\<open>INSERT OR IGNORE INTO sessions\<close> with the column defaults.\<close>

definition admit_session :: "string \<Rightarrow> int \<Rightarrow> ledger \<Rightarrow> ledger" where
  "admit_session s now l = (case find_session s l of
     Some _ \<Rightarrow> l
   | None \<Rightarrow> l\<lparr>led_sessions := led_sessions l @
       [\<lparr>ses_key = s, ses_created = now, ses_updated = now, ses_metadata = None, ses_next_seq = 0,
         ses_attributes = default_attributes, ses_deleted = None, ses_title = None\<rparr>]\<rparr>)"

text \<open>The merge of granted session metadata: \<open>None\<close> removes a key.\<close>

definition merge_metadata :: "(string \<times> json option) list \<Rightarrow> (string \<times> json) list \<Rightarrow> (string \<times> json) list" where
  "merge_metadata changes current =
     fold (\<lambda>(k, v) kvs. case v of
         None \<Rightarrow> filter (\<lambda>(k', _). k' \<noteq> k) kvs
       | Some x \<Rightarrow> dict_put k x kvs) changes current"

fun object_fields :: "json option \<Rightarrow> (string \<times> json) list" where
  "object_fields (Some (JObj kvs)) = kvs"
| "object_fields _ = []"

definition apply_session_metadata ::
  "string \<Rightarrow> (string \<times> json option) list \<Rightarrow> ledger \<Rightarrow> ledger res" where
  "apply_session_metadata s changes l =
     (if changes = [] then Inr l
      else attempt (reader_metadata l s) (\<lambda>current.
        let old = object_fields current; new = merge_metadata changes old
        in if json_norm (JObj new) = json_norm (JObj old) then Inr l
           else Inr (update_session s (\<lambda>r. r\<lparr>ses_metadata := Some (JObj new)\<rparr>) l)))"

type_synonym append_check = "message \<Rightarrow> ledger \<Rightarrow> unit res"

definition insert_prepared ::
  "append_check list \<Rightarrow> int \<Rightarrow> writer \<Rightarrow> string \<Rightarrow> prepared_message \<Rightarrow> int option \<Rightarrow> ledger \<Rightarrow>
   (message \<times> ledger) res" where
  "insert_prepared checks now w mid pre expected l =
     attempt (fail_if (\<not> wr_active w) WriterExpired) (\<lambda>_.
     let b = pre_body pre; s = wr_session w in
     attempt (encode_body True b) (\<lambda>payload.
     let head = reader_head l s (Some (wr_source w)) in
     attempt (fail_if (case expected of None \<Rightarrow> False | Some h \<Rightarrow> head \<noteq> h) SourceHeadConflict) (\<lambda>_.
     attempt (check_artifacts (pre_artifacts pre) l) (\<lambda>_.
     attempt (case body_ref b of None \<Rightarrow> Inr () | Some ref \<Rightarrow> check_call_result w ref l) (\<lambda>_.
     let l1 = admit_session s now l;
         seq = (case find_session s l1 of None \<Rightarrow> 0 | Some r \<Rightarrow> ses_next_seq r) in
     attempt (mk_message mid s seq now (wr_author w) (wr_source w) b (pre_metadata pre)) (\<lambda>m.
     attempt (run_checks (\<lambda>check. check m l1) checks) (\<lambda>_.
     attempt (insert_message_row
       \<lparr>row_id = mid, row_session = s, row_seq = seq, row_ts = now, row_author = wr_author w,
        row_source = wr_source w, row_body = payload, row_metadata = json_norm (pre_metadata pre)\<rparr> l1) (\<lambda>l2.
     attempt (insert_attachments mid (pre_artifacts pre) l2) (\<lambda>l3.
     attempt (insert_bindings mid (pre_bindings pre) l3) (\<lambda>l4.
     attempt (apply_session_metadata s (pre_session_metadata pre)
       (update_session s (\<lambda>r. r\<lparr>ses_next_seq := seq + 1, ses_updated := now\<rparr>) l4)) (\<lambda>l5.
       Inr (m, l5))))))))))))"

section \<open>Appending\<close>

text \<open>\<open>MessageWriter._append\<close>, inside the caller's transaction.\<close>

definition writer_append ::
  "append_check list \<Rightarrow> int \<Rightarrow> writer \<Rightarrow> string \<Rightarrow> body \<Rightarrow> int option \<Rightarrow> json option \<Rightarrow> ledger \<Rightarrow>
   (message \<times> ledger) res" where
  "writer_append checks now w mid b expected metadata l =
     attempt (writer_metadata w b metadata) (\<lambda>md.
     attempt (replay w mid b md l) (\<lambda>previous. case previous of
       Some m \<Rightarrow> Inr (m, l)
     | None \<Rightarrow>
         attempt (fail_if (\<not> wr_active w) WriterExpired) (\<lambda>_.
         attempt (prepare w b md) (\<lambda>pre. insert_prepared checks now w mid pre expected l))))"

text \<open>\<open>MessageLog._write\<close>: one transaction, rolled back by any exception.\<close>

definition in_transaction :: "('s \<Rightarrow> ('a \<times> 's) res) \<Rightarrow> 's \<Rightarrow> 'a res \<times> 's" where
  "in_transaction f s = (case f s of Inl e \<Rightarrow> (Inl e, s) | Inr (x, s') \<Rightarrow> (Inr x, s'))"

definition append_message ::
  "append_check list \<Rightarrow> int \<Rightarrow> writer \<Rightarrow> string \<Rightarrow> body \<Rightarrow> int option \<Rightarrow> json option \<Rightarrow> ledger \<Rightarrow>
   message res \<times> ledger" where
  "append_message checks now w mid b expected metadata =
     in_transaction (writer_append checks now w mid b expected metadata)"

text \<open>\<open>prepare_async\<close> and \<open>PreparedAppend._append\<close>: validation in the caller's scope
  on one snapshot, the commit on a later one.\<close>

record prepared_append =
  app_writer :: writer
  app_id :: string
  app_body :: body
  app_metadata :: json
  app_prepared :: "prepared_message option"
  app_existing :: "message option"

definition prepare_append ::
  "writer \<Rightarrow> string \<Rightarrow> body \<Rightarrow> json option \<Rightarrow> ledger \<Rightarrow> prepared_append res" where
  "prepare_append w mid b metadata l =
     attempt (writer_metadata w b metadata) (\<lambda>md.
     attempt (replay w mid b md l) (\<lambda>existing.
     attempt (fail_if (existing = None \<and> \<not> wr_active w) WriterExpired) (\<lambda>_.
     attempt (case existing of
         Some _ \<Rightarrow> Inr None
       | None \<Rightarrow> attempt (prepare w b md) (\<lambda>pre. Inr (Some pre))) (\<lambda>pre.
       Inr \<lparr>app_writer = w, app_id = mid, app_body = b, app_metadata = md,
            app_prepared = pre, app_existing = existing\<rparr>))))"

text \<open>The writer's grant may have been revoked since: its current activity is \<open>active\<close>.\<close>

definition commit_append ::
  "append_check list \<Rightarrow> int \<Rightarrow> bool \<Rightarrow> prepared_append \<Rightarrow> int option \<Rightarrow> ledger \<Rightarrow>
   ((message \<times> bool) \<times> ledger) res" where
  "commit_append checks now active p expected l =
     (let w = (app_writer p)\<lparr>wr_active := active\<rparr> in
      attempt (replay w (app_id p) (app_body p) (app_metadata p) l) (\<lambda>previous. case previous of
        Some m \<Rightarrow> Inr ((m, False), l)
      | None \<Rightarrow> (case app_prepared p of
            None \<Rightarrow> Inl MessageConflict
          | Some pre \<Rightarrow> attempt (insert_prepared checks now w (app_id p) pre expected l)
              (\<lambda>(m, l'). Inr ((m, True), l')))))"

end
