(* ===== verification/Ledger_Invariant.thy ===== *)
theory Ledger_Invariant
  imports Ledger_Writer
begin

text \<open>
  What appending keeps of the log: the invariant \<open>ledger_ok\<close> of the tables and the
  effect of one successful append, from which the properties of \<open>MessageWriter\<close> follow.
\<close>

section \<open>Frames of the table operations\<close>

named_theorems ledger_frame \<open>what the table operations leave alone\<close>

lemma find_map_key:
  assumes "\<And>r. key (f r) = key r"
  shows "find (\<lambda>r. key r = t) (map (\<lambda>r. if key r = s then f r else r) xs) =
    (if t = s then map_option f (find (\<lambda>r. key r = t) xs) else find (\<lambda>r. key r = t) xs)"
  using assms by (induction xs) auto

lemma find_session_update:
  assumes "\<And>r. ses_key (f r) = ses_key r"
  shows "find_session t (update_session s f l) =
    (if t = s then map_option f (find_session t l) else find_session t l)"
  using find_map_key [where key = ses_key and f = f] assms
  by (simp add: find_session_def update_session_def)

lemma update_session_frame [ledger_frame]:
  "led_messages (update_session s f l) = led_messages l"
  "led_owners (update_session s f l) = led_owners l"
  "led_artifacts (update_session s f l) = led_artifacts l"
  "led_bindings (update_session s f l) = led_bindings l"
  "led_attachments (update_session s f l) = led_attachments l"
  "led_message_bindings (update_session s f l) = led_message_bindings l"
  by (simp_all add: update_session_def)

lemma update_session_keys:
  "(\<And>r. ses_key (f r) = ses_key r) \<Longrightarrow>
   map ses_key (led_sessions (update_session s f l)) = map ses_key (led_sessions l)"
  by (simp add: update_session_def comp_def)

lemma admit_session_frame [ledger_frame]:
  "led_messages (admit_session s now l) = led_messages l"
  "led_owners (admit_session s now l) = led_owners l"
  "led_artifacts (admit_session s now l) = led_artifacts l"
  "led_bindings (admit_session s now l) = led_bindings l"
  "led_attachments (admit_session s now l) = led_attachments l"
  "led_message_bindings (admit_session s now l) = led_message_bindings l"
  by (simp_all add: admit_session_def split: option.splits)

lemma find_append_found:
  "find P (xs @ ys) = (case find P xs of None \<Rightarrow> find P ys | Some x \<Rightarrow> Some x)"
  by (induction xs) auto

lemma find_session_admit:
  "find_session t (admit_session s now l) =
    (if t = s \<and> find_session s l = None then
       Some \<lparr>ses_key = s, ses_created = now, ses_updated = now, ses_metadata = None, ses_next_seq = 0,
         ses_attributes = default_attributes, ses_deleted = None, ses_title = None\<rparr>
     else find_session t l)"
  by (auto simp: admit_session_def find_session_def find_append_found split: option.splits)

lemma admit_session_keys:
  "distinct (map ses_key (led_sessions l)) \<Longrightarrow>
   distinct (map ses_key (led_sessions (admit_session s now l)))"
  by (auto simp: admit_session_def find_session_def find_None_iff split: option.splits)

definition next_seq :: "ledger \<Rightarrow> string \<Rightarrow> nat" where
  "next_seq l s = (case find_session s l of None \<Rightarrow> 0 | Some r \<Rightarrow> ses_next_seq r)"

lemma next_seq_update:
  "(\<And>r. ses_key (f r) = ses_key r) \<Longrightarrow>
   next_seq (update_session s f l) t =
     (if t = s then (case find_session s l of None \<Rightarrow> 0 | Some r \<Rightarrow> ses_next_seq (f r)) else next_seq l t)"
  by (auto simp: next_seq_def find_session_update split: option.splits)

lemma next_seq_admit [simp]: "next_seq (admit_session s now l) t = next_seq l t"
  by (auto simp: next_seq_def find_session_admit)

lemma insert_message_row_Inr:
  assumes "insert_message_row r l = Inr l'"
  shows "l' = l\<lparr>led_messages := led_messages l @ [r]\<rparr>"
  using assms by (auto simp: insert_message_row_def split: if_splits)

lemma insert_attachments_frame:
  assumes "insert_attachments mid as l = Inr l'"
  shows "led_messages l' = led_messages l" "led_sessions l' = led_sessions l"
    "led_owners l' = led_owners l" "led_artifacts l' = led_artifacts l"
    "led_bindings l' = led_bindings l"
  using assms by (auto simp: insert_attachments_def split: if_splits)

lemma insert_bindings_frame:
  assumes "insert_bindings mid bs l = Inr l'"
  shows "led_messages l' = led_messages l" "led_sessions l' = led_sessions l"
    "led_owners l' = led_owners l" "led_artifacts l' = led_artifacts l"
    "led_bindings l' = led_bindings l"
  using assms by (auto simp: insert_bindings_def split: if_splits)

lemma find_session_cong: "led_sessions l' = led_sessions l \<Longrightarrow> find_session t l' = find_session t l"
  by (simp add: find_session_def)

lemma apply_session_metadata_cases:
  assumes "apply_session_metadata s changes l = Inr l'"
  shows "l' = l \<or> (\<exists>v. l' = update_session s (\<lambda>r. r\<lparr>ses_metadata := Some v\<rparr>) l)"
  using assms by (auto simp: apply_session_metadata_def attempt_eq_Inr Let_def split: if_splits)

lemma apply_session_metadata_frame:
  assumes "apply_session_metadata s changes l = Inr l'"
  shows "led_messages l' = led_messages l" "led_owners l' = led_owners l"
    "map ses_key (led_sessions l') = map ses_key (led_sessions l)"
    "next_seq l' t = next_seq l t" "find_session t l' = None \<longleftrightarrow> find_session t l = None"
  using apply_session_metadata_cases [OF assms]
  by (auto simp: ledger_frame update_session_keys next_seq_def find_session_update
    split: option.splits if_splits)

section \<open>The effect of one insertion\<close>

lemma insert_prepared_Inr:
  assumes "insert_prepared checks now w mid pre expected l = Inr (m, l')"
  obtains payload where
    "wr_active w" "encode_body True (pre_body pre) = Inr payload"
    "\<forall>h. expected = Some h \<longrightarrow> reader_head l (wr_session w) (Some (wr_source w)) = h"
    "\<forall>ref. body_ref (pre_body pre) = Some ref \<longrightarrow> check_call_result w ref l = Inr ()"
    "mk_message mid (wr_session w) (next_seq l (wr_session w)) now (wr_author w) (wr_source w)
       (pre_body pre) (pre_metadata pre) = Inr m"
    "\<not> list_ex (\<lambda>q. row_id q = mid) (led_messages l)"
    "led_messages l' = led_messages l @
       [\<lparr>row_id = mid, row_session = wr_session w, row_seq = next_seq l (wr_session w), row_ts = now,
         row_author = wr_author w, row_source = wr_source w, row_body = payload,
         row_metadata = json_norm (pre_metadata pre)\<rparr>]"
    "led_owners l' = led_owners l"
    "next_seq l' (wr_session w) = Suc (next_seq l (wr_session w))"
    "\<forall>t. t \<noteq> wr_session w \<longrightarrow> next_seq l' t = next_seq l t"
    "find_session (wr_session w) l' \<noteq> None"
    "\<forall>t. find_session t l \<noteq> None \<longrightarrow> find_session t l' \<noteq> None"
    "distinct (map ses_key (led_sessions l)) \<longrightarrow> distinct (map ses_key (led_sessions l'))"
proof -
  let ?s = "wr_session w"
  let ?l1 = "admit_session ?s now l"
  have seq: "(case find_session ?s ?l1 of None \<Rightarrow> 0 | Some r \<Rightarrow> ses_next_seq r) = next_seq l ?s"
    using next_seq_admit [of ?s now l ?s] by (simp only: next_seq_def)
  let ?r = "\<lambda>payload. \<lparr>row_id = mid, row_session = ?s, row_seq = next_seq l ?s, row_ts = now,
    row_author = wr_author w, row_source = wr_source w, row_body = payload,
    row_metadata = json_norm (pre_metadata pre)\<rparr>"
  let ?f = "\<lambda>r. r\<lparr>ses_next_seq := next_seq l ?s + 1, ses_updated := now\<rparr>"
  from assms obtain payload l2 l3 l4 where
    p: "wr_active w" "encode_body True (pre_body pre) = Inr payload"
      "\<forall>h. expected = Some h \<longrightarrow> reader_head l ?s (Some (wr_source w)) = h"
      "\<forall>ref. body_ref (pre_body pre) = Some ref \<longrightarrow> check_call_result w ref l = Inr ()"
      "mk_message mid ?s (next_seq l ?s) now (wr_author w) (wr_source w) (pre_body pre) (pre_metadata pre) = Inr m"
    and l2: "insert_message_row (?r payload) ?l1 = Inr l2"
    and l3: "insert_attachments mid (pre_artifacts pre) l2 = Inr l3"
    and l4: "insert_bindings mid (pre_bindings pre) l3 = Inr l4"
    and l5: "apply_session_metadata ?s (pre_session_metadata pre) (update_session ?s ?f l4) = Inr l'"
    by (auto simp: insert_prepared_def Let_def attempt_eq_Inr seq split: option.splits)
  have s4: "led_sessions l4 = led_sessions ?l1"
    using insert_bindings_frame(2) [OF l4] insert_attachments_frame(2) [OF l3] insert_message_row_Inr [OF l2]
    by simp
  have msgs: "led_messages l' = led_messages l @ [?r payload]"
    using apply_session_metadata_frame(1) [OF l5] insert_bindings_frame(1) [OF l4]
      insert_attachments_frame(1) [OF l3] insert_message_row_Inr [OF l2]
    by (simp add: ledger_frame)
  have owners: "led_owners l' = led_owners l"
    using apply_session_metadata_frame(2) [OF l5] insert_bindings_frame(3) [OF l4]
      insert_attachments_frame(3) [OF l3] insert_message_row_Inr [OF l2]
    by (simp add: ledger_frame)
  have fs: "find_session t (update_session ?s ?f l4) =
      (if t = ?s then map_option ?f (find_session t ?l1) else find_session t ?l1)" for t
    by (subst find_session_update) (simp_all add: find_session_cong [OF s4])
  have adm: "find_session ?s ?l1 \<noteq> None" by (auto simp: find_session_admit)
  have s4': "next_seq l4 t = next_seq l t" for t
    using next_seq_admit [of ?s now l t] find_session_cong [OF s4] by (simp add: next_seq_def)
  have adm4: "\<exists>r. find_session ?s l4 = Some r" using adm find_session_cong [OF s4] by auto
  have nx: "next_seq l' t = (if t = ?s then Suc (next_seq l ?s) else next_seq l t)" for t
    unfolding apply_session_metadata_frame(4) [OF l5]
    using adm4 s4' by (auto simp: next_seq_update)
  have ex: "find_session t l' = None \<longleftrightarrow> find_session t ?l1 = None" for t
    unfolding apply_session_metadata_frame(5) [OF l5] fs by simp
  have keys: "map ses_key (led_sessions l') = map ses_key (led_sessions ?l1)"
    unfolding apply_session_metadata_frame(3) [OF l5]
    by (subst update_session_keys) (simp_all add: s4)
  have fresh: "\<not> list_ex (\<lambda>q. row_id q = mid) (led_messages l)"
    using l2 by (auto simp: insert_message_row_def ledger_frame split: if_splits)
  show thesis
    by (rule that [OF p fresh msgs owners])
      (use nx ex adm keys admit_session_keys in \<open>auto simp: find_session_admit\<close>)
qed


section \<open>What a payload shows to SQL\<close>

fun kind_text :: "body \<Rightarrow> string" where
  "kind_text (Input _) = ''input''"
| "kind_text (Output _ _) = ''output''"
| "kind_text (ToolResult _ _ _ _) = ''tool_result''"
| "kind_text (Control _ _ _) = ''control''"

text \<open>The pairs that are printed for a body.\<close>

definition body_pairs :: "body \<Rightarrow> (string \<times> json) list" where
  "body_pairs b = (if is_legacy b then dict_put ''outcome'' (JStr ''unknown'') (body_to_dict b)
                   else body_to_dict b)"

lemma encode_body_pairs: "encode_body True b = Inr (json_norm (JObj (body_pairs b)))"
  by (simp add: encode_body_def body_pairs_def)

lemma distinct_body_pairs [simp]: "distinct (keys_of (body_pairs b))"
  by (cases b) (auto simp: body_pairs_def dict_put_def)

lemma payload_field:
  assumes "encode_body True b = Inr p"
  shows "\<exists>kvs. p = JObj kvs \<and> (\<forall>f. map_of kvs f = map_option json_norm (map_of (body_pairs b) f))"
  using assms by (simp add: encode_body_pairs map_of_norm del: json_norm.simps(7))
    (metis distinct_body_pairs json_norm.simps(7) map_of_norm)

lemma payload_kind:
  assumes "encode_body True b = Inr p"
  shows "body_text ''kind'' p = Some (kind_text b)"
proof -
  obtain kvs where "p = JObj kvs" "map_of kvs ''kind'' = map_option json_norm (map_of (body_pairs b) ''kind'')"
    using payload_field [OF assms] by blast
  then show ?thesis by (cases b) (auto simp: body_text_def body_pairs_def dict_put_def)
qed

lemma payload_call_ref:
  assumes "encode_body True (ToolResult legacy ref oc ps) = Inr p"
  shows "body_call_ref p = Some (ref_message ref, int (ref_part ref))"
proof -
  obtain kvs where "p = JObj kvs" "map_of kvs ''call_ref'' =
      map_option json_norm (map_of (body_pairs (ToolResult legacy ref oc ps)) ''call_ref'')"
    using payload_field [OF assms] by blast
  then show ?thesis
    by (auto simp: body_call_ref_def body_pairs_def dict_put_def ref_to_dict_def)
qed

lemma payload_finish:
  assumes "encode_body True (Output ps f) = Inr p"
  shows "body_text ''finish'' p = Some (finish_text f)"
proof -
  obtain kvs where "p = JObj kvs" "map_of kvs ''finish'' =
      map_option json_norm (map_of (body_pairs (Output ps f)) ''finish'')"
    using payload_field [OF assms] by blast
  then show ?thesis by (auto simp: body_text_def body_pairs_def)
qed

lemma payload_norm: "encode_body True b = Inr p \<Longrightarrow> json_norm p = p"
  by (auto simp: encode_body_def split: if_splits simp del: json_norm.simps)

section \<open>The invariant of the log\<close>

definition row_ok :: "message_row \<Rightarrow> bool" where
  "row_ok r \<longleftrightarrow> (case decode_row r of Inl _ \<Rightarrow> False | Inr _ \<Rightarrow> True) \<and>
     json_norm (row_body r) = row_body r"

text \<open>A stored result answers a tool call that the same source of the same session
  accepted earlier.\<close>

definition answers :: "message_row \<Rightarrow> message_row \<Rightarrow> call_ref \<Rightarrow> bool" where
  "answers c r ref \<longleftrightarrow>
     is_result_of ref r \<and> row_id c = ref_message ref \<and> row_session c = row_session r \<and>
     row_source c = row_source r \<and> body_text ''kind'' (row_body c) = Some ''output'' \<and>
     body_part_kind (ref_part ref) (row_body c) = Some ''tool_call'' \<and> row_seq c < row_seq r"

definition result_ok :: "ledger \<Rightarrow> message_row \<Rightarrow> bool" where
  "result_ok l r \<longleftrightarrow> (body_text ''kind'' (row_body r) = Some ''tool_result'' \<longrightarrow>
     (\<exists>c \<in> set (led_messages l). \<exists>ref. answers c r ref))"

definition seq_order :: "message_row \<Rightarrow> message_row \<Rightarrow> bool" where
  "seq_order a b \<longleftrightarrow> (row_session a = row_session b \<longrightarrow> row_seq a < row_seq b)"

definition distinct_calls :: "message_row \<Rightarrow> message_row \<Rightarrow> bool" where
  "distinct_calls a b \<longleftrightarrow> (\<forall>ref. \<not> (is_result_of ref a \<and> is_result_of ref b))"

definition ledger_ok :: "ledger \<Rightarrow> bool" where
  "ledger_ok l \<longleftrightarrow>
     distinct (map ses_key (led_sessions l)) \<and>
     distinct (map row_id (led_messages l)) \<and>
     (\<forall>r \<in> set (led_messages l). find_session (row_session r) l \<noteq> None \<and>
        row_seq r < next_seq l (row_session r)) \<and>
     sorted_wrt seq_order (led_messages l) \<and>
     (\<forall>r \<in> set (led_messages l). row_ok r \<and> result_ok l r) \<and>
     sorted_wrt distinct_calls (led_messages l)"

lemma check_call_result_Inr:
  assumes "check_call_result w ref l = Inr ()"
  obtains c where "c \<in> set (led_messages l)" "row_id c = ref_message ref"
    "row_session c = wr_session w" "row_source c = wr_source w"
    "body_text ''kind'' (row_body c) = Some ''output''"
    "body_part_kind (ref_part ref) (row_body c) = Some ''tool_call''"
    "\<not> list_ex (is_result_of ref) (led_messages l)"
  using assms
  by (auto simp: check_call_result_def find_message_def find_Some_iff
    split: option.splits if_splits) (metis nth_mem)

lemma answers_inj: "is_result_of ref r \<Longrightarrow> is_result_of ref' r \<Longrightarrow> ref = ref'"
  by (auto simp: is_result_of_def)

lemma kind_text_result: "kind_text b = ''tool_result'' \<Longrightarrow> \<exists>legacy ref oc ps. b = ToolResult legacy ref oc ps"
  by (cases b) auto


section \<open>Reading an appended row back\<close>

definition norm_message :: "message \<Rightarrow> message" where
  "norm_message m = m\<lparr>msg_body := norm_body (msg_body m), msg_metadata := json_norm (msg_metadata m)\<rparr>"

lemma freeze_metadata_Inr: "freeze_metadata v = Inr w \<Longrightarrow> w = v"
  by (auto simp: freeze_metadata_def split: json.splits if_splits)

lemma freeze_metadata_JObj: "freeze_metadata v = Inr w \<Longrightarrow> \<exists>kvs. v = JObj kvs"
  by (cases v) (auto simp: freeze_metadata_def)

lemma freeze_metadata_norm:
  assumes "freeze_metadata v = Inr w"
  shows "freeze_metadata (json_norm v) = Inr (json_norm v)"
proof -
  obtain kvs where v: "v = JObj kvs" using freeze_metadata_JObj [OF assms] by blast
  let ?ns = "sort_fields (map (map_prod id json_norm) kvs)"
  have n: "json_norm (JObj kvs) = JObj ?ns" by simp
  have idem: "json_norm (JObj ?ns) = JObj ?ns" using json_norm_idem [of "JObj kvs"] by simp
  have keys: "[] \<in> set (keys_of ?ns) \<longleftrightarrow> [] \<in> set (keys_of kvs)" by (simp add: image_image)
  have empty: "?ns = [] \<longleftrightarrow> kvs = []" by simp
  show ?thesis
    using assms unfolding v n freeze_metadata_def json.case idem keys empty
    by (simp split: if_splits)
qed

lemma control_through_norm [simp]: "control_through (norm_body b) = control_through b"
  by (cases b) auto

lemma decode_new_row:
  assumes "body_ok b" "json_unique md" "encode_body True b = Inr payload"
    and "mk_message mid s seq now a src b md = Inr m"
  shows "decode_row \<lparr>row_id = mid, row_session = s, row_seq = seq, row_ts = now, row_author = a,
      row_source = src, row_body = payload, row_metadata = json_norm md\<rparr> = Inr (norm_message m)"
proof -
  have dec: "decode_body payload = Inr (norm_body b)"
    using decode_encode_body [OF assms(1)] assms(3) by auto
  from assms(4) obtain md' where f: "freeze_metadata md = Inr md'"
    by (auto simp: mk_message_def attempt_eq_Inr)
  then obtain kvs where kvs: "md = JObj kvs" using freeze_metadata_JObj by blast
  have st: "stored_object (json_norm md) = Inr (json_norm md)"
    using assms(2) json_unique_norm [of md] unfolding kvs by (simp add: stored_object_def)
  show ?thesis
    using assms(4) f freeze_metadata_Inr [OF f] freeze_metadata_norm [OF f]
    by (auto simp: decode_row_def st dec mk_message_def norm_message_def
      split: option.splits if_splits)
qed


section \<open>Appending keeps the invariant\<close>

lemma result_ok_mono:
  "result_ok l r \<Longrightarrow> set (led_messages l) \<subseteq> set (led_messages l') \<Longrightarrow> result_ok l' r"
  by (auto simp: result_ok_def)

text \<open>The new row answers an earlier call, and no row answered that call before.\<close>

lemma new_row_result:
  assumes ok: "ledger_ok l" and p: "encode_body True b = Inr (row_body r)"
    and call: "\<forall>ref. body_ref b = Some ref \<longrightarrow> check_call_result w ref l = Inr ()"
    and r: "row_session r = wr_session w" "row_source r = wr_source w"
      "row_seq r = next_seq l (wr_session w)"
  shows "(body_text ''kind'' (row_body r) = Some ''tool_result'' \<longrightarrow>
      (\<exists>c \<in> set (led_messages l). \<exists>ref. answers c r ref)) \<and>
    (\<forall>q \<in> set (led_messages l). distinct_calls q r)"
proof (cases "\<exists>legacy ref oc ps. b = ToolResult legacy ref oc ps")
  case True
  then obtain legacy ref oc ps where b: "b = ToolResult legacy ref oc ps" by blast
  with call have chk: "check_call_result w ref l = Inr ()" by simp
  obtain c where c: "c \<in> set (led_messages l)" "row_id c = ref_message ref"
    "row_session c = wr_session w" "row_source c = wr_source w"
    "body_text ''kind'' (row_body c) = Some ''output''"
    "body_part_kind (ref_part ref) (row_body c) = Some ''tool_call''"
    and fresh: "\<not> list_ex (is_result_of ref) (led_messages l)"
    using check_call_result_Inr [OF chk] by blast
  have isr: "is_result_of ref r"
    using payload_kind [OF p] payload_call_ref [OF p [unfolded b]] b by (simp add: is_result_of_def)
  have "row_seq c < row_seq r" using ok c(1,3) r(3) by (auto simp: ledger_ok_def)
  then have "answers c r ref" using c isr r by (simp add: answers_def)
  moreover have "distinct_calls q r" if "q \<in> set (led_messages l)" for q
    using fresh that isr answers_inj by (auto simp: distinct_calls_def list_ex_iff)
  ultimately show ?thesis using c(1) by blast
next
  case False
  then have "kind_text b \<noteq> ''tool_result''" using kind_text_result by blast
  then have "body_text ''kind'' (row_body r) \<noteq> Some ''tool_result''" using payload_kind [OF p] by simp
  then show ?thesis by (auto simp: distinct_calls_def is_result_of_def)
qed

lemma insert_prepared_ok:
  assumes ok: "ledger_ok l" and ins: "insert_prepared checks now w mid pre expected l = Inr (m, l')"
    and b: "body_ok (pre_body pre)" "json_unique (pre_metadata pre)"
  shows "ledger_ok l'"
  using ins
proof (rule insert_prepared_Inr)
  fix payload
  let ?s = "wr_session w"
  let ?r = "\<lparr>row_id = mid, row_session = ?s, row_seq = next_seq l ?s, row_ts = now,
    row_author = wr_author w, row_source = wr_source w, row_body = payload,
    row_metadata = json_norm (pre_metadata pre)\<rparr>"
  assume p: "encode_body True (pre_body pre) = Inr payload"
    and call: "\<forall>ref. body_ref (pre_body pre) = Some ref \<longrightarrow> check_call_result w ref l = Inr ()"
    and mk: "mk_message mid ?s (next_seq l ?s) now (wr_author w) (wr_source w)
      (pre_body pre) (pre_metadata pre) = Inr m"
    and fresh: "\<not> list_ex (\<lambda>q. row_id q = mid) (led_messages l)"
    and msgs: "led_messages l' = led_messages l @ [?r]"
    and nx: "next_seq l' ?s = Suc (next_seq l ?s)" "\<forall>t. t \<noteq> ?s \<longrightarrow> next_seq l' t = next_seq l t"
    and ex: "find_session ?s l' \<noteq> None" "\<forall>t. find_session t l \<noteq> None \<longrightarrow> find_session t l' \<noteq> None"
    and keys: "distinct (map ses_key (led_sessions l)) \<longrightarrow> distinct (map ses_key (led_sessions l'))"
  have new: "(body_text ''kind'' (row_body ?r) = Some ''tool_result'' \<longrightarrow>
      (\<exists>c \<in> set (led_messages l). \<exists>ref. answers c ?r ref)) \<and>
      (\<forall>q \<in> set (led_messages l). distinct_calls q ?r)"
    by (rule new_row_result [OF ok, where b = "pre_body pre" and w = w]) (use p call in auto)
  have row: "row_ok ?r"
    using decode_new_row [OF b p mk] payload_norm [OF p] by (simp add: row_ok_def)
  have lt: "row_seq q < next_seq l (row_session q)" if "q \<in> set (led_messages l)" for q
    using ok that by (simp add: ledger_ok_def)
  have lts: "\<forall>q \<in> set (led_messages l). row_session q = ?s \<longrightarrow> row_seq q < next_seq l ?s"
    using lt by metis
  have "\<forall>r \<in> set (led_messages l'). find_session (row_session r) l' \<noteq> None \<and>
      row_seq r < next_seq l' (row_session r)"
  proof
    fix q assume "q \<in> set (led_messages l')"
    then consider "q = ?r" | "q \<in> set (led_messages l)" by (auto simp: msgs)
    then show "find_session (row_session q) l' \<noteq> None \<and> row_seq q < next_seq l' (row_session q)"
    proof cases
      case 2
      then have "find_session (row_session q) l \<noteq> None" using ok by (simp add: ledger_ok_def)
      then show ?thesis using ex(2) nx lt [OF 2] by (metis less_SucI)
    qed (use ex(1) nx(1) in auto)
  qed
  moreover have "sorted_wrt seq_order (led_messages l')"
    using ok lts by (auto simp: msgs sorted_wrt_append ledger_ok_def seq_order_def)
  moreover have "sorted_wrt distinct_calls (led_messages l')"
    using ok new by (auto simp: msgs sorted_wrt_append ledger_ok_def)
  moreover have "\<forall>r \<in> set (led_messages l'). row_ok r \<and> result_ok l' r"
    using ok row new result_ok_mono [of l _ l'] by (auto simp: msgs ledger_ok_def result_ok_def)
  moreover have "distinct (map row_id (led_messages l'))"
    using ok fresh by (auto simp: msgs ledger_ok_def list_ex_iff)
  ultimately show "ledger_ok l'"
    using keys ok by (simp add: ledger_ok_def)
qed

lemma prepare_Inr:
  assumes "prepare w b md = Inr pre"
  shows "pre_body pre = b" "pre_metadata pre = md"
  using assms by (auto simp: prepare_def attempt_eq_Inr Let_def split: if_splits)

lemma writer_metadata_Inr:
  assumes "writer_metadata w b metadata = Inr md"
  shows "md = (case metadata of None \<Rightarrow> JObj [] | Some v \<Rightarrow> v)" "check_grant w b = Inr ()"
  using assms by (auto simp: writer_metadata_def attempt_eq_Inr split: if_splits dest: freeze_metadata_Inr)

text \<open>The two ways an append returns: the replay of a stored message, or one insertion.\<close>

lemma writer_append_cases:
  assumes "writer_append checks now w mid b expected metadata l = Inr (m, l')"
  obtains (replayed) md where "writer_metadata w b metadata = Inr md"
      "replay w mid b md l = Inr (Some m)" "l' = l"
  | (inserted) md pre where "writer_metadata w b metadata = Inr md" "replay w mid b md l = Inr None"
      "wr_active w" "prepare w b md = Inr pre"
      "insert_prepared checks now w mid pre expected l = Inr (m, l')"
proof -
  from assms obtain md previous where md: "writer_metadata w b metadata = Inr md"
    and rep: "replay w mid b md l = Inr previous"
    by (auto simp: writer_append_def attempt_eq_Inr)
  show thesis
  proof (cases previous)
    case (Some m0)
    then have "m0 = m" "l' = l" using assms md rep by (simp_all add: writer_append_def)
    then show thesis using replayed [OF md] rep Some by simp
  next
    case None
    then have "attempt (fail_if (\<not> wr_active w) WriterExpired) (\<lambda>_.
        attempt (prepare w b md) (\<lambda>pre. insert_prepared checks now w mid pre expected l)) = Inr (m, l')"
      using assms md rep by (simp add: writer_append_def)
    then obtain pre where "wr_active w" "prepare w b md = Inr pre"
      "insert_prepared checks now w mid pre expected l = Inr (m, l')"
      by (auto simp: attempt_eq_Inr)
    then show thesis using inserted [OF md] rep None by simp
  qed
qed

end
