(* ===== verification/Ledger_Properties.thy ===== *)
theory Ledger_Properties
  imports Ledger_Invariant
begin

text \<open>
  The properties of the message log: the codec of bodies, and appends (invariant,
  append-only effect, exactly-once replay, compare-and-set of the source head, one result
  per call, revoked writers).
\<close>

section \<open>A small log for witnesses\<close>

definition empty_ledger :: ledger where
  "empty_ledger = \<lparr>led_sessions = [], led_messages = [], led_artifacts = [], led_attachments = [],
     led_bindings = [(''b1'', JObj [])], led_message_bindings = [], led_owners = []\<rparr>"

definition text_validator :: "string \<Rightarrow> (part \<Rightarrow> content_references res) option" where
  "text_validator k = (if k = ''text'' then Some (\<lambda>_. mk_references [] []) else None)"

definition sample_writer :: writer where
  "sample_writer = \<lparr>wr_session = ''s'', wr_author = ''u'', wr_source = ''c'',
     wr_types = [InputKind, OutputKind, ControlKind], wr_content = text_validator, wr_call = None,
     wr_check_call = Some (\<lambda>_. Inr ()), wr_session_keys = [], wr_update = None,
     wr_message_keys = [], wr_check_metadata = None, wr_active = True\<rparr>"

definition sample_input :: body where
  "sample_input = Input [ContentPart ''text'' (JStr ''hi'')]"

definition sample_call :: body where
  "sample_call = Output [ToolCall ''b1'' (JObj [(''x'', JInt 1)])] Continue"

lemma ledger_ok_empty: "ledger_ok empty_ledger"
  by (simp add: ledger_ok_def empty_ledger_def)

lemma no_metadata: "json_unique (case None of None \<Rightarrow> JObj [] | Some v \<Rightarrow> v)"
  by simp

lemma sample_body_ok: "body_ok sample_input" "body_ok sample_call"
  by (simp_all add: sample_input_def sample_call_def)

section \<open>Lemmas on reading an invariant log\<close>

lemma session_rows_ok:
  assumes "ledger_ok l"
  shows "session_rows s l = filter (\<lambda>r. row_session r = s) (led_messages l)"
    "sorted_wrt (\<lambda>a b. row_seq a < row_seq b) (session_rows s l)"
proof -
  let ?rows = "filter (\<lambda>r. row_session r = s) (led_messages l)"
  have "sorted_wrt seq_order ?rows" using assms by (simp add: ledger_ok_def sorted_wrt_filter)
  then have lt: "sorted_wrt (\<lambda>a b. row_seq a < row_seq b) ?rows"
    by (rule sorted_wrt_mono_rel [rotated]) (auto simp: seq_order_def)
  then have "sorted (map row_seq ?rows)"
    unfolding sorted_map by (rule sorted_wrt_mono_rel [rotated]) simp
  then show "session_rows s l = ?rows" by (simp add: session_rows_def sort_key_id_if_sorted)
  then show "sorted_wrt (\<lambda>a b. row_seq a < row_seq b) (session_rows s l)" using lt by simp
qed

lemma max_seq_append: "max_seq (xs @ [r]) = max (max_seq xs) (int (row_seq r))"
  by (induction xs) auto

lemma max_seq_bound: "r \<in> set rows \<Longrightarrow> int (row_seq r) \<le> max_seq rows"
  by (induction rows) auto

lemma max_seq_less: "(\<forall>r \<in> set rows. row_seq r < n) \<Longrightarrow> max_seq rows < int n"
  by (induction rows) auto

lemma head_below_next: "ledger_ok l \<Longrightarrow> reader_head l s source < int (next_seq l s)"
  unfolding reader_head_def by (rule max_seq_less) (auto simp: ledger_ok_def)

lemma decode_row_fields:
  "decode_row r = Inr m \<Longrightarrow> msg_id m = row_id r \<and> msg_session m = row_session r \<and> msg_seq m = row_seq r \<and>
    msg_author m = row_author r \<and> msg_source m = row_source r"
  by (auto simp: decode_row_def mk_message_def attempt_eq_Inr split: option.splits if_splits)

lemma row_ok_decodes: "row_ok r \<Longrightarrow> \<exists>m. decode_row r = Inr m"
  by (cases "decode_row r") (auto simp: row_ok_def)

lemma ledger_rows_decode:
  assumes "ledger_ok l" "set rows \<subseteq> set (led_messages l)"
  shows "\<exists>ms. traverse decode_row rows = Inr ms \<and> map msg_seq ms = map row_seq rows \<and>
    map msg_session ms = map row_session rows"
proof -
  have "\<forall>r \<in> set rows. \<exists>m. decode_row r = Inr m"
    using assms row_ok_decodes unfolding ledger_ok_def by blast
  then show ?thesis
    by (induction rows) (auto dest: decode_row_fields)
qed

lemma find_message_append:
  "led_messages l' = led_messages l @ [r] \<Longrightarrow> find_message mid l = None \<Longrightarrow> row_id r = mid \<Longrightarrow>
   find_message mid l' = Some r"
  by (simp add: find_message_def find_append_found)

lemma mk_message_fields:
  "mk_message mid s seq now a src b md = Inr m \<Longrightarrow>
   msg_id m = mid \<and> msg_session m = s \<and> msg_seq m = seq \<and> msg_body m = b \<and> msg_metadata m = md"
  by (cases "control_through b")
    (auto simp: mk_message_def attempt_eq_Inr dest: freeze_metadata_Inr split: if_splits)

text \<open>A new identity is never replayed, a stored one never inserted.\<close>

lemma replay_None: "find_message mid l = None \<Longrightarrow> replay w mid b md l \<noteq> Inr (Some m)"
  by (simp add: replay_def)

lemma replay_fresh: "replay w mid b md l = Inr None \<Longrightarrow> find_message mid l = None \<and> \<not> is_legacy b"
  by (auto simp: replay_def attempt_eq_Inr split: option.splits if_splits)

lemma check_grant_active [simp]: "check_grant (w\<lparr>wr_active := active\<rparr>) b = check_grant w b"
  by (simp add: check_grant_def split: option.split)

lemma metadata_value_unique:
  assumes "json_unique (case metadata of None \<Rightarrow> JObj [] | Some v \<Rightarrow> v)"
    and "writer_metadata w b metadata = Inr md"
  shows "json_unique md"
  using assms writer_metadata_Inr(1) by blast


lemma writer_append_ok:
  assumes "ledger_ok l" "body_ok b" "json_unique (case metadata of None \<Rightarrow> JObj [] | Some v \<Rightarrow> v)"
    and "writer_append checks now w mid b expected metadata l = Inr (m, l')"
  shows "ledger_ok l'"
  using assms(4)
proof (cases rule: writer_append_cases)
  case (replayed md)
  then show ?thesis using assms(1) by simp
next
  case (inserted md pre)
  show ?thesis
    using insert_prepared_ok [OF assms(1) inserted(5)] prepare_Inr [OF inserted(4)] assms(2)
      metadata_value_unique [OF assms(3) inserted(1)] by simp
qed

section \<open>Properties\<close>

text \<open>
  C32. A well-formed body survives persistence: encoding succeeds and decoding the
  stored text gives the same body, up to the key order of its JSON objects.
\<close>

theorem body_roundtrip:
  assumes "body_ok b"
  shows "\<exists>p. encode_body True b = Inr p \<and> decode_body p = Inr (norm_body b)"
  using assms by (rule decode_encode_body)

theorem body_roundtrip_witness:
  "\<exists>p. encode_body True sample_call = Inr p \<and> decode_body p = Inr (norm_body sample_call)"
  by (rule body_roundtrip [OF sample_body_ok(2)])

text \<open>
  Decoding accepts only stored text of well-formed bodies and loses nothing:
  what it accepts is encoded back to the same canonical text.
\<close>

theorem stored_text_roundtrip:
  assumes "decode_body p = Inr b"
  shows "body_ok b \<and> encode_body True b = Inr (json_norm p)"
  using assms by (rule decode_body_Inr)

definition legacy_text :: json where
  "legacy_text = JObj [(''kind'', JStr ''tool_result''), (''parts'', JArr []),
     (''call_ref'', JObj [(''message_id'', JStr ''m''), (''part_index'', JInt 0)]),
     (''outcome'', JStr ''unknown'')]"

theorem stored_text_roundtrip_witness:
  "body_ok (ToolResult True \<lparr>ref_message = ''m'', ref_part = 0\<rparr> ErrorOutcome []) \<and>
   encode_body True (ToolResult True \<lparr>ref_message = ''m'', ref_part = 0\<rparr> ErrorOutcome []) =
     Inr (json_norm legacy_text)"
proof -
  have "decode_body legacy_text = Inr (ToolResult True \<lparr>ref_message = ''m'', ref_part = 0\<rparr> ErrorOutcome [])"
    by code_simp
  then show ?thesis by (rule stored_text_roundtrip)
qed

text \<open>
  Every append keeps the invariant of the log, whether it inserts, replays or
  raises: identities are unique, each session's rows are numbered in increasing order below
  the session's next number, every row decodes, every tool result answers an earlier tool
  call of the same session and source, and no call has two results.
\<close>

theorem append_keeps_log:
  assumes "ledger_ok l" "body_ok b" "json_unique (case metadata of None \<Rightarrow> JObj [] | Some v \<Rightarrow> v)"
  shows "ledger_ok (snd (append_message checks now w mid b expected metadata l))"
  using writer_append_ok [OF assms] assms(1)
  by (auto simp: append_message_def in_transaction_def split: sum.split)

theorem append_keeps_log_witness:
  "ledger_ok (snd (append_message [] 5 sample_writer ''m1'' sample_input (Some (-1)) None empty_ledger))"
  by (rule append_keeps_log [OF ledger_ok_empty sample_body_ok(1)]) simp

text \<open>
  C2. A successful append under a new identity adds exactly one row at the end,
  numbered with the session's next number; the row reads back as the returned message; the
  source head is then that number, and the owners' records are untouched.
\<close>

theorem append_effect:
  assumes "ledger_ok l" "body_ok b" "json_unique (case metadata of None \<Rightarrow> JObj [] | Some v \<Rightarrow> v)"
    and "find_message mid l = None"
    and "writer_append checks now w mid b expected metadata l = Inr (m, l')"
  shows "\<exists>r. led_messages l' = led_messages l @ [r] \<and> row_id r = mid \<and>
    decode_row r = Inr (norm_message m) \<and> msg_session m = wr_session w \<and> msg_body m = b \<and>
    msg_seq m = next_seq l (wr_session w) \<and>
    reader_head l' (wr_session w) (Some (wr_source w)) = int (msg_seq m) \<and>
    led_owners l' = led_owners l"
  using assms(5)
proof (cases rule: writer_append_cases)
  case (replayed md)
  then show ?thesis using replay_None [OF assms(4)] by blast
next
  case (inserted md pre)
  note pre = prepare_Inr [OF inserted(4)]
  have u: "json_unique (pre_metadata pre)"
    using metadata_value_unique [OF assms(3) inserted(1)] pre by simp
  from inserted(5) show ?thesis
  proof (rule insert_prepared_Inr)
    fix payload
    let ?r = "\<lparr>row_id = mid, row_session = wr_session w, row_seq = next_seq l (wr_session w), row_ts = now,
      row_author = wr_author w, row_source = wr_source w, row_body = payload,
      row_metadata = json_norm (pre_metadata pre)\<rparr>"
    assume p: "encode_body True (pre_body pre) = Inr payload"
      and mk: "mk_message mid (wr_session w) (next_seq l (wr_session w)) now (wr_author w) (wr_source w)
        (pre_body pre) (pre_metadata pre) = Inr m"
      and msgs: "led_messages l' = led_messages l @ [?r]" and own: "led_owners l' = led_owners l"
    have "decode_row ?r = Inr (norm_message m)"
      by (rule decode_new_row [OF _ u p mk]) (use assms(2) pre in simp)
    moreover have "reader_head l' (wr_session w) (Some (wr_source w)) = int (next_seq l (wr_session w))"
      using head_below_next [OF assms(1), of "wr_session w" "Some (wr_source w)"]
      by (simp add: reader_head_def msgs max_seq_append)
    ultimately show ?thesis
      using msgs own mk_message_fields [OF mk] pre by auto
  qed
qed

theorem append_effect_witness:
  "\<exists>m (l' :: ledger) r. led_messages l' = led_messages empty_ledger @ [r] \<and> row_id r = ''m1'' \<and>
     decode_row r = Inr (norm_message m) \<and> msg_seq m = 0"
proof -
  have "case writer_append [] 5 sample_writer ''m1'' sample_input None None empty_ledger of
      Inl _ \<Rightarrow> False | Inr (m, l') \<Rightarrow> msg_seq m = 0"
    by code_simp
  then obtain m l' where
    step: "writer_append [] 5 sample_writer ''m1'' sample_input None None empty_ledger = Inr (m, l')"
    and seq: "msg_seq m = 0"
    by (auto split: sum.splits)
  have fresh: "find_message ''m1'' empty_ledger = None" by code_simp
  show ?thesis
    using append_effect [OF ledger_ok_empty sample_body_ok(1) no_metadata fresh step] seq by blast
qed


text \<open>
  C6. Appending is exactly-once: repeating a committed request (the same identity,
  body and metadata, by the same grant) later, even after the writer was revoked and whatever
  source head is expected, returns the stored message and changes nothing.
\<close>

theorem append_replays:
  assumes "ledger_ok l" "body_ok b" "json_unique (case metadata of None \<Rightarrow> JObj [] | Some v \<Rightarrow> v)"
    and "find_message mid l = None"
    and "writer_append checks now w mid b expected metadata l = Inr (m, l')"
  shows "writer_append checks' now' (w\<lparr>wr_active := active\<rparr>) mid b expected' metadata l' =
    Inr (norm_message m, l')"
  using assms(5)
proof (cases rule: writer_append_cases)
  case (replayed md)
  then show ?thesis using replay_None [OF assms(4)] by blast
next
  case (inserted md pre)
  note pre = prepare_Inr [OF inserted(4)]
  have u: "json_unique (pre_metadata pre)"
    using metadata_value_unique [OF assms(3) inserted(1)] pre by simp
  have md: "writer_metadata (w\<lparr>wr_active := active\<rparr>) b metadata = Inr md"
    using inserted(1) by (simp add: writer_metadata_def)
  from inserted(5) show ?thesis
  proof (rule insert_prepared_Inr)
    fix payload
    let ?r = "\<lparr>row_id = mid, row_session = wr_session w, row_seq = next_seq l (wr_session w), row_ts = now,
      row_author = wr_author w, row_source = wr_source w, row_body = payload,
      row_metadata = json_norm (pre_metadata pre)\<rparr>"
    assume p: "encode_body True (pre_body pre) = Inr payload"
      and mk: "mk_message mid (wr_session w) (next_seq l (wr_session w)) now (wr_author w) (wr_source w)
        (pre_body pre) (pre_metadata pre) = Inr m"
      and msgs: "led_messages l' = led_messages l @ [?r]"
    have dec: "decode_row ?r = Inr (norm_message m)"
      by (rule decode_new_row [OF _ u p mk]) (use assms(2) pre in simp)
    have found: "find_message mid l' = Some ?r"
      by (rule find_message_append [OF msgs assms(4)]) simp
    have "replay (w\<lparr>wr_active := active\<rparr>) mid b md l' = Inr (Some (norm_message m))"
      using p pre dec mk_message_fields [OF mk]
      by (simp add: replay_def found norm_message_def)
    then show ?thesis by (simp add: writer_append_def md)
  qed
qed

text \<open>
  A used identity is never overwritten: an append whose identity is stored
  with a different body raises \<open>MessageConflict\<close> and changes nothing.
\<close>

theorem append_conflict:
  assumes "find_message mid l = Some old" "check_grant w b = Inr ()"
    and "metadata = None" "encode_body True b = Inr p" "row_body old \<noteq> p"
  shows "append_message checks now w mid b expected metadata l = (Inl MessageConflict, l)"
  using assms
  by (simp add: append_message_def in_transaction_def writer_append_def writer_metadata_def
    freeze_metadata_def replay_def)


lemma sample_append:
  "case writer_append [] 5 sample_writer ''m1'' sample_input (Some (-1)) None empty_ledger of
     Inl _ \<Rightarrow> False | Inr (m, l') \<Rightarrow> find_message ''m2'' l' = None \<and> msg_seq m = 0"
  by code_simp

lemma fresh_in_empty: "find_message mid empty_ledger = None"
  by (simp add: find_message_def empty_ledger_def)

theorem append_replays_witness:
  "\<exists>m (l' :: ledger). writer_append [] 5 sample_writer ''m1'' sample_input (Some (-1)) None empty_ledger = Inr (m, l') \<and>
     writer_append [] 9 (sample_writer\<lparr>wr_active := False\<rparr>) ''m1'' sample_input (Some 7) None l' =
       Inr (norm_message m, l')"
proof -
  obtain m l' where
    step: "writer_append [] 5 sample_writer ''m1'' sample_input (Some (-1)) None empty_ledger = Inr (m, l')"
    using sample_append by (auto split: sum.splits)
  show ?thesis
    using append_replays [OF ledger_ok_empty sample_body_ok(1) no_metadata fresh_in_empty step] step by blast
qed

definition stored_sample :: ledger where
  "stored_sample = snd (append_message [] 5 sample_writer ''m1'' sample_input None None empty_ledger)"

theorem append_conflict_witness:
  "append_message [] 6 sample_writer ''m1'' sample_call None None stored_sample =
     (Inl MessageConflict, stored_sample)"
proof (rule append_conflict)
  show "find_message ''m1'' stored_sample = Some (hd (led_messages stored_sample))" by code_simp
  show "check_grant sample_writer sample_call = Inr ()" by code_simp
  show "encode_body True sample_call = Inr (json_norm (JObj (body_pairs sample_call)))"
    by (rule encode_body_pairs)
  show "row_body (hd (led_messages stored_sample)) \<noteq> json_norm (JObj (body_pairs sample_call))"
    by code_simp
qed simp

text \<open>
  A revoked writer never changes the log: it can only have a stored message
  replayed.
\<close>

theorem revoked_writer_changes_nothing:
  assumes "\<not> wr_active w"
  shows "snd (append_message checks now w mid b expected metadata l) = l"
proof (cases "writer_append checks now w mid b expected metadata l")
  case (Inr res)
  obtain m l' where res: "res = (m, l')" by (cases res)
  have "l' = l"
    using Inr [unfolded res] by (cases rule: writer_append_cases) (use assms in auto)
  then show ?thesis using Inr res by (simp add: append_message_def in_transaction_def)
qed (simp add: append_message_def in_transaction_def)

theorem revoked_writer_changes_nothing_witness:
  "snd (append_message [] 5 (expire sample_writer) ''m1'' sample_input None None empty_ledger) = empty_ledger"
  by (rule revoked_writer_changes_nothing) (simp add: expire_def)

lemma inserted_head:
  assumes "find_message mid l = None"
    and "writer_append checks now w mid b (Some h) metadata l = Inr (m, l')"
  shows "reader_head l (wr_session w) (Some (wr_source w)) = h"
  using assms(2)
proof (cases rule: writer_append_cases)
  case (replayed md)
  then show ?thesis using replay_None [OF assms(1)] by blast
next
  case (inserted md pre)
  then show ?thesis by (elim insert_prepared_Inr) simp
qed

text \<open>
  C3. Of two appends that expect the same source head at most one commits: after one
  has been inserted, an append of another identity to the same session and source with the same
  expectation raises and leaves the log as it is.
\<close>

theorem source_head_race:
  assumes "ledger_ok l" "body_ok b" "json_unique (case metadata of None \<Rightarrow> JObj [] | Some v \<Rightarrow> v)"
    and "find_message mid l = None"
    and first: "writer_append checks now w mid b (Some h) metadata l = Inr (m, l')"
    and second: "wr_session w' = wr_session w" "wr_source w' = wr_source w" "find_message mid' l' = None"
  shows "\<exists>e. append_message checks' now' w' mid' b' (Some h) metadata' l' = (Inl e, l')"
proof -
  have "h < int (msg_seq m)" "reader_head l' (wr_session w) (Some (wr_source w)) = int (msg_seq m)"
    using append_effect [OF assms(1-4) first] inserted_head [OF assms(4) first]
      head_below_next [OF assms(1), of "wr_session w" "Some (wr_source w)"] by auto
  then have "reader_head l' (wr_session w') (Some (wr_source w')) \<noteq> h" by (simp add: second)
  then have "writer_append checks' now' w' mid' b' (Some h) metadata' l' \<noteq> Inr res" for res
    using inserted_head [OF second(3)] by (cases res) blast
  then show ?thesis
    by (cases "writer_append checks' now' w' mid' b' (Some h) metadata' l'")
      (auto simp: append_message_def in_transaction_def)
qed

theorem source_head_race_witness:
  "\<exists>m l' e. writer_append [] 5 sample_writer ''m1'' sample_input (Some (-1)) None empty_ledger = Inr (m, l') \<and>
     append_message [] 6 sample_writer ''m2'' sample_input (Some (-1)) None l' = (Inl e, l')"
proof -
  obtain m l' where
    step: "writer_append [] 5 sample_writer ''m1'' sample_input (Some (-1)) None empty_ledger = Inr (m, l')"
    and fresh: "find_message ''m2'' l' = None"
    using sample_append by (auto split: sum.splits)
  show ?thesis
    using source_head_race [OF ledger_ok_empty sample_body_ok(1) no_metadata fresh_in_empty step
      refl refl fresh] step by blast
qed


text \<open>
  C5. A tool call gets one result: once a result of the call is in the log, an append of
  another result of that call, under any other identity and by any writer, raises and leaves
  the log as it is.
\<close>

theorem one_result_per_call:
  assumes "reader_result_committed l s ref" "find_message mid l = None"
  shows "\<exists>e. append_message checks now w mid (ToolResult legacy ref oc ps) expected metadata l = (Inl e, l)"
proof -
  have taken: "list_ex (is_result_of ref) (led_messages l)"
    using assms(1) by (auto simp: reader_result_committed_def list_ex_iff)
  have "writer_append checks now w mid (ToolResult legacy ref oc ps) expected metadata l \<noteq> Inr (m, l')"
    for m l'
  proof
    assume "writer_append checks now w mid (ToolResult legacy ref oc ps) expected metadata l = Inr (m, l')"
    then show False
    proof (cases rule: writer_append_cases)
      case (replayed md)
      then show ?thesis using replay_None [OF assms(2)] by blast
    next
      case (inserted md pre)
      then have "check_call_result w ref l = Inr ()"
        using prepare_Inr [OF inserted(4)] by (elim insert_prepared_Inr) simp
      then show ?thesis using taken check_call_result_Inr by blast
    qed
  qed
  then show ?thesis
    by (cases "writer_append checks now w mid (ToolResult legacy ref oc ps) expected metadata l")
      (auto simp: append_message_def in_transaction_def)
qed

definition answered_sample :: ledger where
  "answered_sample =
     snd (append_message [] 7 (sample_writer\<lparr>wr_types := [ResultKind],
         wr_call := Some \<lparr>ref_message = ''m1'', ref_part = 0\<rparr>\<rparr>) ''r1''
       (ToolResult False \<lparr>ref_message = ''m1'', ref_part = 0\<rparr> Success []) None None
       (snd (append_message [] 5 sample_writer ''m1'' sample_call None None empty_ledger)))"

theorem one_result_per_call_witness:
  "\<exists>e. append_message [] 8 (sample_writer\<lparr>wr_types := [ResultKind],
         wr_call := Some \<lparr>ref_message = ''m1'', ref_part = 0\<rparr>\<rparr>) ''r2''
       (ToolResult False \<lparr>ref_message = ''m1'', ref_part = 0\<rparr> Denied []) None None answered_sample =
     (Inl e, answered_sample)"
proof (rule one_result_per_call)
  show "reader_result_committed answered_sample ''s'' \<lparr>ref_message = ''m1'', ref_part = 0\<rparr>" by code_simp
  show "find_message ''r2'' answered_sample = None" by code_simp
qed

text \<open>
  Reading a valid range of an invariant log never fails: it yields messages of that
  session only, inside the range, in strictly increasing sequence, at most \<open>limit\<close> many.
\<close>

theorem read_ordered:
  assumes "ledger_ok l" "1 \<le> limit" "-1 \<le> after_seq"
  shows "\<exists>ms. reader_read l s after_seq through source limit = Inr ms \<and>
    sorted_wrt (<) (map msg_seq ms) \<and> int (length ms) \<le> limit \<and>
    (\<forall>m \<in> set ms. msg_session m = s \<and> after_seq < int (msg_seq m) \<and>
      (\<forall>t. through = Some t \<longrightarrow> int (msg_seq m) \<le> t))"
proof -
  let ?in = "\<lambda>r. after_seq < int (row_seq r) \<and>
    (case through of None \<Rightarrow> True | Some t \<Rightarrow> int (row_seq r) \<le> t) \<and>
    (case source of None \<Rightarrow> True | Some src \<Rightarrow> row_source r = src)"
  let ?rows = "take (nat limit) (filter ?in (session_rows s l))"
  have sub: "set ?rows \<subseteq> {r \<in> set (led_messages l). row_session r = s \<and> ?in r}"
    using session_rows_ok(1) [OF assms(1), of s] by (auto dest: in_set_takeD)
  then obtain ms where ms: "traverse decode_row ?rows = Inr ms" "map msg_seq ms = map row_seq ?rows"
    "map msg_session ms = map row_session ?rows"
    using ledger_rows_decode [OF assms(1), of ?rows] by blast
  have "sorted_wrt (\<lambda>a b. row_seq a < row_seq b) ?rows"
    using session_rows_ok(2) [OF assms(1)] by (intro sorted_wrt_take sorted_wrt_filter)
  then have sorted: "sorted_wrt (<) (map msg_seq ms)" unfolding ms(2) sorted_wrt_map .
  have len: "int (length ms) \<le> limit"
    using traverse_Inr_length [OF ms(1)] assms(2) by simp
  have each: "msg_session m = s \<and> after_seq < int (msg_seq m) \<and>
      (\<forall>t. through = Some t \<longrightarrow> int (msg_seq m) \<le> t)" if "m \<in> set ms" for m
    using traverse_Inr_set [OF ms(1) that] sub decode_row_fields by fastforce
  have "reader_read l s after_seq through source limit = Inr ms"
    using ms(1) assms(2,3) by (simp add: reader_read_def)
  then show ?thesis using sorted len each by blast
qed

theorem read_ordered_witness:
  "\<exists>ms. reader_read empty_ledger ''s'' (-1) None None 10 = Inr ms \<and>
    sorted_wrt (<) (map msg_seq ms) \<and> int (length ms) \<le> 10 \<and>
    (\<forall>m \<in> set ms. msg_session m = ''s'' \<and> -1 < int (msg_seq m) \<and>
      (\<forall>t. None = Some t \<longrightarrow> int (msg_seq m) \<le> t))"
  by (rule read_ordered [OF ledger_ok_empty]) simp_all

end
