(* ===== verification/Owner_State.thy ===== *)
theory Owner_State
  imports Ledger_Properties
begin

text \<open>
  The owners' records and their transactions: \<open>OwnerStore\<close> and \<open>OwnerTransaction\<close> of
  \<open>plugins/ledger/log.py\<close>. A transaction's callback is synchronous code that only reaches the
  database through the transaction object; it is represented by a tree of operations
  (\<open>tx\<close>) whose continuations receive what each call returned or raised, so that a callback
  may also catch an exception and go on. The interface that the owners rely on, a store of
  versioned records with compare-and-set, is the locale \<open>cas_store\<close>.
\<close>

section \<open>Records of one owner\<close>

definition owner_row_of :: "string \<Rightarrow> string \<Rightarrow> ledger \<Rightarrow> owner_row option" where
  "owner_row_of own k l = find (\<lambda>r. own_owner r = own \<and> own_key r = k) (led_owners l)"

text \<open>\<open>_owner_record\<close>: the stored value must be an object.\<close>

definition decode_owner_row :: "owner_row \<Rightarrow> (nat \<times> json) res" where
  "decode_owner_row r = (case own_value r of
     JObj _ \<Rightarrow> Inr (own_version r, own_value r)
   | _ \<Rightarrow> Inl ValueError)"

definition owner_read :: "string \<Rightarrow> string \<Rightarrow> ledger \<Rightarrow> (nat \<times> json) option res" where
  "owner_read own k l = (case owner_row_of own k l of
     None \<Rightarrow> Inr None
   | Some r \<Rightarrow> attempt (decode_owner_row r) (\<lambda>rec. Inr (Some rec)))"

definition owner_list :: "string \<Rightarrow> ledger \<Rightarrow> (string \<times> nat \<times> json) list res" where
  "owner_list own l =
     traverse (\<lambda>r. attempt (decode_owner_row r) (\<lambda>rec. Inr (own_key r, rec)))
       (sort_key own_key (filter (\<lambda>r. own_owner r = own) (led_owners l)))"

definition owner_scan ::
  "string \<Rightarrow> string \<Rightarrow> string \<Rightarrow> int \<Rightarrow> ledger \<Rightarrow> (string \<times> nat \<times> json) list res" where
  "owner_scan own start stop limit l =
     (if stop \<le> start then Inl ValueError
      else if \<not> (1 \<le> limit \<and> limit \<le> 1000) then Inl ValueError
      else traverse (\<lambda>r. attempt (decode_owner_row r) (\<lambda>rec. Inr (own_key r, rec)))
        (take (nat limit) (rev (sort_key own_key
          (filter (\<lambda>r. own_owner r = own \<and> start \<le> own_key r \<and> own_key r < stop) (led_owners l))))))"

text \<open>\<open>OwnerTransaction._save\<close>: \<open>INSERT \<dots> ON CONFLICT DO NOTHING\<close> without an expected
  version, \<open>UPDATE \<dots> WHERE version=?\<close> with one; no row changed is a conflict.\<close>

definition owner_save ::
  "string \<Rightarrow> string \<Rightarrow> json \<Rightarrow> int option \<Rightarrow> ledger \<Rightarrow> (nat \<times> ledger) res" where
  "owner_save own k v expected l =
     (if k = [] then Inl ValueError
      else if (case expected of None \<Rightarrow> False | Some n \<Rightarrow> n < 0) then Inl ValueError
      else case v of
        JObj _ \<Rightarrow> (case expected of
            None \<Rightarrow>
              if owner_row_of own k l \<noteq> None then Inl MessageConflict
              else Inr (0, l\<lparr>led_owners := led_owners l @
                [\<lparr>own_owner = own, own_key = k, own_version = 0, own_value = json_norm v\<rparr>]\<rparr>)
          | Some n \<Rightarrow>
              if \<not> list_ex (\<lambda>r. own_owner r = own \<and> own_key r = k \<and> own_version r = nat n) (led_owners l)
              then Inl MessageConflict
              else Inr (nat n + 1, l\<lparr>led_owners := map (\<lambda>r.
                if own_owner r = own \<and> own_key r = k \<and> own_version r = nat n
                then r\<lparr>own_version := nat n + 1, own_value := json_norm v\<rparr> else r) (led_owners l)\<rparr>))
      | _ \<Rightarrow> Inl TypeError)"

text \<open>\<open>OwnerTransaction._delete\<close>.\<close>

definition owner_delete :: "string \<Rightarrow> string \<Rightarrow> int \<Rightarrow> ledger \<Rightarrow> ledger res" where
  "owner_delete own k expected l =
     (if expected < 0 then Inl ValueError
      else if \<not> list_ex (\<lambda>r. own_owner r = own \<and> own_key r = k \<and> own_version r = nat expected) (led_owners l)
      then Inl MessageConflict
      else Inr (l\<lparr>led_owners := filter (\<lambda>r. \<not> (own_owner r = own \<and> own_key r = k \<and>
             own_version r = nat expected)) (led_owners l)\<rparr>))"

section \<open>Transactions\<close>

datatype 'a tx =
    Return 'a
  | Raise py_error
  | TxRead string "(nat \<times> json) option res \<Rightarrow> 'a tx"
  | TxSave string json "int option" "nat res \<Rightarrow> 'a tx"
  | TxDelete string int "unit res \<Rightarrow> 'a tx"
  | TxSourceChanged string string int "bool res \<Rightarrow> 'a tx"
  | TxAppend writer string body "int option" "json option" "message res \<Rightarrow> 'a tx"
  | TxAppendPrepared prepared_append bool "int option" "message res \<Rightarrow> 'a tx"

text \<open>What the operations share (\<open>_perform\<close>): a failed transaction refuses every operation, and
  an operation that raises marks the transaction as failed.\<close>

definition perform :: "(ledger \<Rightarrow> ('b \<times> ledger) res) \<Rightarrow> ledger \<times> bool \<Rightarrow> 'b res \<times> ledger \<times> bool" where
  "perform operation st = (case st of (l, failed) \<Rightarrow>
     if failed then (Inl RuntimeError, l, True)
     else case operation l of
       Inl e \<Rightarrow> (Inl e, l, True)
     | Inr (x, l') \<Rightarrow> (Inr x, l', False))"

record tx_env =
  env_owner :: string
  env_checks :: "append_check list"
  env_now :: int

primrec run_tx :: "tx_env \<Rightarrow> 'a tx \<Rightarrow> ledger \<times> bool \<Rightarrow> 'a res \<times> ledger \<times> bool" where
  "run_tx env (Return x) st = (Inr x, st)"
| "run_tx env (Raise e) st = (Inl e, st)"
| "run_tx env (TxRead k c) st =
     run_tx env (c (if snd st then Inl RuntimeError else owner_read (env_owner env) k (fst st))) st"
| "run_tx env (TxSave k v n c) st =
     (case perform (owner_save (env_owner env) k v n) st of (r, st') \<Rightarrow> run_tx env (c r) st')"
| "run_tx env (TxDelete k n c) st =
     (case perform (\<lambda>l. attempt (owner_delete (env_owner env) k n l) (\<lambda>l'. Inr ((), l'))) st of
        (r, st') \<Rightarrow> run_tx env (c r) st')"
| "run_tx env (TxSourceChanged s source n c) st =
     run_tx env (c (if snd st then Inl RuntimeError
                    else Inr (reader_source_changed (fst st) s source n))) st"
| "run_tx env (TxAppend w mid b expected metadata c) st =
     (case perform (writer_append (env_checks env) (env_now env) w mid b expected metadata) st of
        (r, st') \<Rightarrow> run_tx env (c r) st')"
| "run_tx env (TxAppendPrepared p active expected c) st =
     (case perform (\<lambda>l. attempt (commit_append (env_checks env) (env_now env) active p expected l)
         (\<lambda>((m, _), l'). Inr (m, l'))) st of
        (r, st') \<Rightarrow> run_tx env (c r) st')"

text \<open>\<open>OwnerStore.transact\<close>: the final \<open>_check_active\<close>, then commit or roll back.\<close>

definition transact :: "tx_env \<Rightarrow> 'a tx \<Rightarrow> ledger \<Rightarrow> 'a res \<times> ledger" where
  "transact env prog l = (case run_tx env prog (l, False) of
     (Inl e, _) \<Rightarrow> (Inl e, l)
   | (Inr x, l', failed) \<Rightarrow> if failed then (Inl RuntimeError, l) else (Inr x, l'))"

text \<open>Calls that let an exception through, as most callbacks do.\<close>

definition tx_ok :: "('b \<Rightarrow> 'a tx) \<Rightarrow> 'b res \<Rightarrow> 'a tx" where
  "tx_ok c r = (case r of Inl e \<Rightarrow> Raise e | Inr x \<Rightarrow> c x)"

lemma tx_ok_simps [simp]: "tx_ok c (Inl e) = Raise e" "tx_ok c (Inr x) = c x"
  by (simp_all add: tx_ok_def)

text \<open>Pure code between the calls.\<close>

definition tx_res :: "'b res \<Rightarrow> ('b \<Rightarrow> 'a tx) \<Rightarrow> 'a tx" where
  "tx_res r c = tx_ok c r"

lemma tx_res_simps [simp]: "tx_res (Inl e) c = Raise e" "tx_res (Inr x) c = c x"
  by (simp_all add: tx_res_def)


section \<open>The interface: versioned records with compare-and-set\<close>

locale cas_store =
  fixes look :: "'s \<Rightarrow> 'k \<Rightarrow> (nat \<times> 'v) option"
    and save :: "'k \<Rightarrow> 'v \<Rightarrow> nat option \<Rightarrow> 's \<Rightarrow> 's option"
    and delete :: "'k \<Rightarrow> nat \<Rightarrow> 's \<Rightarrow> 's option"
    and inv :: "'s \<Rightarrow> bool"
    and good :: "'k \<Rightarrow> 'v \<Rightarrow> bool"
    and canon :: "'v \<Rightarrow> 'v"
  assumes save_succeeds:
      "inv s \<Longrightarrow> good k v \<Longrightarrow> (\<exists>s'. save k v n s = Some s') \<longleftrightarrow> map_option fst (look s k) = n"
    and save_needs:
      "inv s \<Longrightarrow> save k v n s = Some s' \<Longrightarrow> map_option fst (look s k) = n \<and> good k v"
    and save_effect:
      "inv s \<Longrightarrow> save k v n s = Some s' \<Longrightarrow>
       inv s' \<and> look s' = (look s)(k \<mapsto> (case n of None \<Rightarrow> 0 | Some m \<Rightarrow> Suc m, canon v))"
    and delete_succeeds:
      "inv s \<Longrightarrow> (\<exists>s'. delete k m s = Some s') \<longleftrightarrow> map_option fst (look s k) = Some m"
    and delete_effect:
      "inv s \<Longrightarrow> delete k m s = Some s' \<Longrightarrow> inv s' \<and> look s' = (look s)(k := None)"
begin

text \<open>Of two writes that expect the same version of a record at most one succeeds.\<close>

lemma one_winner:
  assumes "inv s" "save k v n s = Some s'"
  shows "save k v' n s' = None"
proof (rule ccontr)
  assume "save k v' n s' \<noteq> None"
  then obtain s'' where "save k v' n s' = Some s''" by auto
  moreover have "inv s'" "map_option fst (look s' k) \<noteq> n"
    using save_effect [OF assms] by (auto split: option.splits)
  ultimately show False using save_needs by blast
qed

lemma save_frame:
  "inv s \<Longrightarrow> save k v n s = Some s' \<Longrightarrow> j \<noteq> k \<Longrightarrow> look s' j = look s j"
  using save_effect by fastforce

lemma save_then_look:
  "inv s \<Longrightarrow> save k v n s = Some s' \<Longrightarrow>
   look s' k = Some (case n of None \<Rightarrow> 0 | Some m \<Rightarrow> Suc m, canon v)"
  using save_effect by fastforce

text \<open>Without deletions versions only grow, so an outdated expectation stays outdated.\<close>

inductive saves :: "'s \<Rightarrow> 's \<Rightarrow> bool" where
  none: "saves s s"
| more: "saves s t \<Longrightarrow> save k v n t = Some u \<Longrightarrow> saves s u"

lemma saves_version:
  assumes "saves s t" "inv s" "look s k = Some (m, x)"
  shows "inv t \<and> (\<exists>m' y. look t k = Some (m', y) \<and> m \<le> m')"
  using assms
proof (induction rule: saves.induct)
  case (more s t j v n u)
  then obtain m' y where t: "inv t" "look t k = Some (m', y)" "m \<le> m'" by blast
  note eff = save_effect [OF t(1) more.hyps(2)]
  show ?case
  proof (cases "j = k")
    case True
    then have "n = Some m'" using save_needs [OF t(1) more.hyps(2)] t(2) by simp
    then show ?thesis using eff True t(3) by simp
  next
    case False
    then show ?thesis using eff t by simp
  qed
qed simp

lemma outdated_save_fails:
  assumes "inv s" "save k v (Some n) s = Some s'" "saves s' t"
  shows "save k v' (Some n) t = None"
proof (rule ccontr)
  assume "save k v' (Some n) t \<noteq> None"
  then obtain u where u: "save k v' (Some n) t = Some u" by auto
  have inv': "inv s'" using save_effect [OF assms(1,2)] by blast
  have "look s' k = Some (Suc n, canon v)" using save_then_look [OF assms(1,2)] by simp
  from saves_version [OF assms(3) inv' this]
  obtain m' y where "inv t" "look t k = Some (m', y)" "Suc n \<le> m'" by blast
  then show False using save_needs [OF _ u] by simp
qed

end

section \<open>The ledger provides it\<close>

definition owners_ok :: "ledger \<Rightarrow> bool" where
  "owners_ok l \<longleftrightarrow> distinct (map (\<lambda>r. (own_owner r, own_key r)) (led_owners l)) \<and>
     (\<forall>r \<in> set (led_owners l). \<exists>kvs. own_value r = JObj kvs)"

definition owner_look :: "string \<Rightarrow> ledger \<Rightarrow> string \<Rightarrow> (nat \<times> json) option" where
  "owner_look own l k = map_option (\<lambda>r. (own_version r, own_value r)) (owner_row_of own k l)"

definition owner_put :: "string \<Rightarrow> string \<Rightarrow> json \<Rightarrow> nat option \<Rightarrow> ledger \<Rightarrow> ledger option" where
  "owner_put own k v n l = (case owner_save own k v (map_option int n) l of
     Inl _ \<Rightarrow> None | Inr (_, l') \<Rightarrow> Some l')"

definition owner_drop :: "string \<Rightarrow> string \<Rightarrow> nat \<Rightarrow> ledger \<Rightarrow> ledger option" where
  "owner_drop own k n l = (case owner_delete own k (int n) l of Inl _ \<Rightarrow> None | Inr l' \<Rightarrow> Some l')"

definition owner_value_ok :: "string \<Rightarrow> json \<Rightarrow> bool" where
  "owner_value_ok k v \<longleftrightarrow> k \<noteq> [] \<and> (case v of JObj _ \<Rightarrow> True | _ \<Rightarrow> False)"

lemma owner_row_of_Some:
  "owner_row_of own k l = Some r \<Longrightarrow> r \<in> set (led_owners l) \<and> own_owner r = own \<and> own_key r = k"
  by (auto simp: owner_row_of_def find_Some_iff)

lemma owner_row_unique:
  assumes "owners_ok l" "r \<in> set (led_owners l)" "own_owner r = own" "own_key r = k"
  shows "owner_row_of own k l = Some r"
proof -
  obtain r' where r': "owner_row_of own k l = Some r'"
    using assms by (cases "owner_row_of own k l") (auto simp: owner_row_of_def find_None_iff)
  moreover have "r' = r"
    using owner_row_of_Some [OF r'] assms
    by (auto simp: owners_ok_def distinct_map inj_on_def)
  ultimately show ?thesis by simp
qed

lemma owner_version_iff:
  assumes "owners_ok l"
  shows "list_ex (\<lambda>r. own_owner r = own \<and> own_key r = k \<and> own_version r = n) (led_owners l) \<longleftrightarrow>
    map_option fst (owner_look own l k) = Some n"
  using owner_row_unique [OF assms] owner_row_of_Some
  by (fastforce simp: list_ex_iff owner_look_def)


lemma find_map_pres: "(\<And>x. Q (f x) = Q x) \<Longrightarrow> find Q (map f xs) = map_option f (find Q xs)"
  by (induction xs) auto

lemma find_filter_and: "find Q (filter R xs) = find (\<lambda>x. R x \<and> Q x) xs"
  by (induction xs) auto

lemma find_agree: "(\<And>x. x \<in> set xs \<Longrightarrow> P x = Q x) \<Longrightarrow> find P xs = find Q xs"
  by (induction xs) auto

lemma owner_save_insert:
  assumes "owners_ok l" "owner_save own k v None l = Inr (n, l')"
  shows "owners_ok l' \<and> n = 0 \<and> owner_value_ok k v \<and> owner_look own l k = None \<and>
    owner_look own l' = (owner_look own l)(k \<mapsto> (0, json_norm v)) \<and>
    (\<forall>own' j. own' \<noteq> own \<longrightarrow> owner_look own' l' j = owner_look own' l j)"
proof -
  from assms(2) obtain kvs where v: "v = JObj kvs" "k \<noteq> []" "owner_row_of own k l = None"
    by (cases v) (auto simp: owner_save_def split: if_splits)
  let ?r = "\<lparr>own_owner = own, own_key = k, own_version = 0, own_value = json_norm v\<rparr>"
  from assms(2) v have l': "l' = l\<lparr>led_owners := led_owners l @ [?r]\<rparr>" "n = 0"
    by (auto simp: owner_save_def)
  have rows: "owner_row_of own' j l' = (if own' = own \<and> j = k then Some ?r else owner_row_of own' j l)" for own' j
    using v(3) by (auto simp: l'(1) owner_row_of_def find_append_found split: option.split)
  have "owners_ok l'"
    using assms(1) v by (auto simp: owners_ok_def l'(1) owner_row_of_def find_None_iff)
  then show ?thesis
    using v l'(2) by (auto simp: rows owner_look_def owner_value_ok_def)
qed

lemma owner_save_update:
  assumes "owners_ok l" "owner_save own k v (Some m) l = Inr (n, l')"
  shows "owners_ok l' \<and> 0 \<le> m \<and> n = nat m + 1 \<and> owner_value_ok k v \<and>
    map_option fst (owner_look own l k) = Some (nat m) \<and>
    owner_look own l' = (owner_look own l)(k \<mapsto> (n, json_norm v)) \<and>
    (\<forall>own' j. own' \<noteq> own \<longrightarrow> owner_look own' l' j = owner_look own' l j)"
proof -
  let ?P = "\<lambda>r. own_owner r = own \<and> own_key r = k \<and> own_version r = nat m"
  let ?f = "\<lambda>r. if ?P r then r\<lparr>own_version := nat m + 1, own_value := json_norm v\<rparr> else r"
  from assms(2) obtain kvs where v: "v = JObj kvs" "k \<noteq> []" "0 \<le> m" "list_ex ?P (led_owners l)"
    by (cases v) (auto simp: owner_save_def split: if_splits)
  from assms(2) v have l': "l' = l\<lparr>led_owners := map ?f (led_owners l)\<rparr>" "n = nat m + 1"
    by (auto simp: owner_save_def simp del: json_norm.simps)
  have rows: "owner_row_of own' j l' = map_option ?f (owner_row_of own' j l)" for own' j
    unfolding l'(1) owner_row_of_def by (simp, rule find_map_pres) simp
  from v(4) have ver: "map_option fst (owner_look own l k) = Some (nat m)"
    using owner_version_iff [OF assms(1)] by blast
  then obtain r where r: "owner_row_of own k l = Some r" "own_version r = nat m"
    by (auto simp: owner_look_def)
  have "map (\<lambda>r. (own_owner r, own_key r)) (led_owners l') = map (\<lambda>r. (own_owner r, own_key r)) (led_owners l)"
    by (simp add: l'(1))
  moreover have "\<forall>r \<in> set (led_owners l'). \<exists>kvs. own_value r = JObj kvs"
    using assms(1) v(1) by (auto simp: owners_ok_def l'(1))
  ultimately have "owners_ok l'"
    using assms(1) by (simp only: owners_ok_def)
  moreover have "owner_look own l' = (owner_look own l)(k \<mapsto> (n, json_norm v))"
  proof
    fix j show "owner_look own l' j = ((owner_look own l)(k \<mapsto> (n, json_norm v))) j"
      using r l'(2) by (cases "owner_row_of own j l")
        (auto simp: owner_look_def rows simp del: json_norm.simps dest: owner_row_of_Some)
  qed
  moreover have "own' \<noteq> own \<Longrightarrow> owner_look own' l' j = owner_look own' l j" for own' j
    by (cases "owner_row_of own' j l") (auto simp: owner_look_def rows dest: owner_row_of_Some)
  ultimately show ?thesis using v l'(2) ver by (simp add: owner_value_ok_def)
qed

lemma owner_delete_Inr:
  assumes "owners_ok l" "owner_delete own k m l = Inr l'"
  shows "owners_ok l' \<and> 0 \<le> m \<and> map_option fst (owner_look own l k) = Some (nat m) \<and>
    owner_look own l' = (owner_look own l)(k := None) \<and>
    (\<forall>own' j. own' \<noteq> own \<longrightarrow> owner_look own' l' j = owner_look own' l j)"
proof -
  let ?P = "\<lambda>r. own_owner r = own \<and> own_key r = k \<and> own_version r = nat m"
  from assms(2) have m: "0 \<le> m" "list_ex ?P (led_owners l)"
    and l': "l' = l\<lparr>led_owners := filter (\<lambda>r. \<not> ?P r) (led_owners l)\<rparr>"
    by (auto simp: owner_delete_def split: if_splits)
  from m(2) have ver: "map_option fst (owner_look own l k) = Some (nat m)"
    using owner_version_iff [OF assms(1)] by blast
  then obtain r where r: "owner_row_of own k l = Some r" "own_version r = nat m"
    by (auto simp: owner_look_def)
  have owners': "led_owners l' = filter (\<lambda>r. \<not> ?P r) (led_owners l)" by (simp add: l')
  have rows: "owner_row_of own' j l' = (if own' = own \<and> j = k then None else owner_row_of own' j l)" for own' j
  proof (cases "own' = own \<and> j = k")
    case True
    then show ?thesis
      using owner_row_unique [OF assms(1)] r
      by (auto simp: owner_row_of_def l' find_None_iff) 
  next
    case False
    then show ?thesis
      unfolding owner_row_of_def owners' if_not_P [OF False] find_filter_and
      by (intro find_agree) auto
  qed
  have "owners_ok l'"
    using assms(1) by (auto simp: owners_ok_def l' distinct_map_filter)
  then show ?thesis using m(1) ver by (auto simp: owner_look_def rows)
qed


text \<open>Every law of the interface holds of the ledger's table.\<close>

interpretation cas: cas_store "owner_look own" "owner_put own" "owner_drop own" owners_ok
  owner_value_ok json_norm
proof
  fix s k v n
  assume ok: "owners_ok s"
  show "owner_value_ok k v \<Longrightarrow>
      (\<exists>s'. owner_put own k v n s = Some s') \<longleftrightarrow> map_option fst (owner_look own s k) = n"
    using owner_version_iff [OF ok, of own k] 
    by (cases n; cases v)
      (auto simp: owner_put_def owner_save_def owner_value_ok_def owner_look_def split: sum.splits)
  show "(\<exists>s'. owner_drop own k m s = Some s') \<longleftrightarrow> map_option fst (owner_look own s k) = Some m" for m
    using owner_version_iff [OF ok, of own k m]
    by (auto simp: owner_drop_def owner_delete_def split: sum.splits)
  fix s'
  show "owner_drop own k m s = Some s' \<Longrightarrow>
      owners_ok s' \<and> owner_look own s' = (owner_look own s)(k := None)" for m
    using owner_delete_Inr [OF ok, of own k "int m" s'] by (auto simp: owner_drop_def split: sum.splits)
  assume put: "owner_put own k v n s = Some s'"
  then obtain n' where sv: "owner_save own k v (map_option int n) s = Inr (n', s')"
    by (auto simp: owner_put_def split: sum.splits)
  show "map_option fst (owner_look own s k) = n \<and> owner_value_ok k v"
    using sv owner_save_insert [OF ok] owner_save_update [OF ok] by (cases n) fastforce+
  show "owners_ok s' \<and> owner_look own s' =
      (owner_look own s)(k \<mapsto> (case n of None \<Rightarrow> 0 | Some m \<Rightarrow> Suc m, json_norm v))"
    using sv owner_save_insert [OF ok] owner_save_update [OF ok] by (cases n) fastforce+
qed

end
