(* ===== verification/Owner_Properties.thy ===== *)
theory Owner_Properties
  imports Owner_State
begin

text \<open>
  Properties of the owners' transactions: atomicity, preservation of the database invariant
  by any transaction, compare-and-set of records.
\<close>

section \<open>One invariant for the database\<close>

definition database_ok :: "ledger \<Rightarrow> bool" where
  "database_ok l \<longleftrightarrow> ledger_ok l \<and> owners_ok l"

lemma ledger_ok_cong:
  assumes "led_sessions l' = led_sessions l" "led_messages l' = led_messages l"
  shows "ledger_ok l' = ledger_ok l"
  using assms by (simp add: ledger_ok_def next_seq_def find_session_def result_ok_def)

lemma owners_ok_cong: "led_owners l' = led_owners l \<Longrightarrow> owners_ok l' = owners_ok l"
  by (simp add: owners_ok_def)

lemma owner_save_frame:
  assumes "owner_save own k v n l = Inr (m, l')"
  shows "led_sessions l' = led_sessions l" "led_messages l' = led_messages l"
    "led_artifacts l' = led_artifacts l" "led_bindings l' = led_bindings l"
  using assms by (cases v; auto simp: owner_save_def split: option.splits if_splits)+

lemma owner_delete_frame:
  assumes "owner_delete own k n l = Inr l'"
  shows "led_sessions l' = led_sessions l" "led_messages l' = led_messages l"
    "led_artifacts l' = led_artifacts l" "led_bindings l' = led_bindings l"
  using assms by (auto simp: owner_delete_def split: if_splits)

lemma owner_save_database_ok:
  assumes "database_ok l" "owner_save own k v n l = Inr (m, l')"
  shows "database_ok l'"
proof -
  have ok: "owners_ok l" using assms(1) by (simp add: database_ok_def)
  have "owners_ok l'"
  proof (cases n)
    case None
    then show ?thesis using owner_save_insert [OF ok] assms(2) by blast
  next
    case (Some i)
    then show ?thesis using owner_save_update [OF ok] assms(2) by blast
  qed
  then show ?thesis
    using assms(1) ledger_ok_cong [OF owner_save_frame(1,2) [OF assms(2)]] by (simp add: database_ok_def)
qed

lemma owner_delete_database_ok:
  assumes "database_ok l" "owner_delete own k n l = Inr l'"
  shows "database_ok l'"
  using assms(1) owner_delete_Inr [OF _ assms(2)] ledger_ok_cong [OF owner_delete_frame(1,2) [OF assms(2)]]
  by (simp add: database_ok_def)

lemma insert_prepared_owners:
  "insert_prepared checks now w mid pre expected l = Inr (m, l') \<Longrightarrow> led_owners l' = led_owners l"
  by (erule insert_prepared_Inr)

lemma writer_append_owners:
  assumes "writer_append checks now w mid b expected metadata l = Inr (m, l')"
  shows "led_owners l' = led_owners l"
  using assms by (cases rule: writer_append_cases) (auto dest: insert_prepared_owners)

lemma writer_append_database_ok:
  assumes "database_ok l" "body_ok b" "json_unique (case metadata of None \<Rightarrow> JObj [] | Some v \<Rightarrow> v)"
    and "writer_append checks now w mid b expected metadata l = Inr (m, l')"
  shows "database_ok l'"
  using assms writer_append_ok [OF _ assms(2-4)] owners_ok_cong [OF writer_append_owners [OF assms(4)]]
  by (simp add: database_ok_def)

definition prepared_ok :: "prepared_append \<Rightarrow> bool" where
  "prepared_ok p \<longleftrightarrow> (case app_prepared p of None \<Rightarrow> True
     | Some pre \<Rightarrow> body_ok (pre_body pre) \<and> json_unique (pre_metadata pre))"

lemma commit_append_cases:
  assumes "commit_append checks now active p expected l = Inr ((m, new), l')"
  shows "l' = l \<and> \<not> new \<or> (\<exists>pre. app_prepared p = Some pre \<and> new \<and>
    insert_prepared checks now ((app_writer p)\<lparr>wr_active := active\<rparr>) (app_id p) pre expected l = Inr (m, l'))"
  using assms
  by (cases "app_prepared p")
    (auto simp: commit_append_def Let_def attempt_eq_Inr split: option.splits)

lemma commit_append_database_ok:
  assumes "database_ok l" "prepared_ok p" "commit_append checks now active p expected l = Inr ((m, new), l')"
  shows "database_ok l'"
  using commit_append_cases [OF assms(3)] assms(1,2) insert_prepared_ok
    owners_ok_cong [OF insert_prepared_owners]
  by (auto simp: database_ok_def prepared_ok_def)

section \<open>Runs of a transaction\<close>

text \<open>Every message that the callback appends is a value its class accepts.\<close>

primrec tx_wf :: "'a tx \<Rightarrow> bool" where
  "tx_wf (Return x) = True"
| "tx_wf (Raise e) = True"
| "tx_wf (TxRead k c) = (\<forall>r. tx_wf (c r))"
| "tx_wf (TxSave k v n c) = (\<forall>r. tx_wf (c r))"
| "tx_wf (TxDelete k n c) = (\<forall>r. tx_wf (c r))"
| "tx_wf (TxSourceChanged s source n c) = (\<forall>r. tx_wf (c r))"
| "tx_wf (TxAppend w mid b expected metadata c) =
     (body_ok b \<and> json_unique (case metadata of None \<Rightarrow> JObj [] | Some v \<Rightarrow> v) \<and> (\<forall>r. tx_wf (c r)))"
| "tx_wf (TxAppendPrepared p active expected c) = (prepared_ok p \<and> (\<forall>r. tx_wf (c r)))"

lemma tx_wf_ok [simp]: "tx_wf (tx_ok c r) \<longleftrightarrow> (case r of Inl _ \<Rightarrow> True | Inr x \<Rightarrow> tx_wf (c x))"
  by (cases r) auto

lemma tx_wf_res [simp]: "tx_wf (tx_res r c) \<longleftrightarrow> (case r of Inl _ \<Rightarrow> True | Inr x \<Rightarrow> tx_wf (c x))"
  by (cases r) auto

lemma perform_cases:
  assumes "perform f (l, failed) = (r, l', failed')"
  shows "l' = l \<and> failed' \<or> (\<exists>x. f l = Inr (x, l') \<and> r = Inr x \<and> \<not> failed \<and> \<not> failed')"
  using assms by (auto simp: perform_def split: if_splits sum.splits prod.splits)

lemma tx_induct [case_names Return Raise Read Save Delete SourceChanged Append AppendPrepared]:
  assumes "\<And>x. P (Return x)" "\<And>e. P (Raise e)"
    and "\<And>k c. (\<And>r. P (c r)) \<Longrightarrow> P (TxRead k c)"
    and "\<And>k v n c. (\<And>r. P (c r)) \<Longrightarrow> P (TxSave k v n c)"
    and "\<And>k n c. (\<And>r. P (c r)) \<Longrightarrow> P (TxDelete k n c)"
    and "\<And>s src n c. (\<And>r. P (c r)) \<Longrightarrow> P (TxSourceChanged s src n c)"
    and "\<And>w mid b h md c. (\<And>r. P (c r)) \<Longrightarrow> P (TxAppend w mid b h md c)"
    and "\<And>q a h c. (\<And>r. P (c r)) \<Longrightarrow> P (TxAppendPrepared q a h c)"
  shows "P p"
  by (induction p) (blast intro: assms rangeI)+

text \<open>What every operation of a transaction keeps, whole transactions keep: the interface
  between the single operations and the callbacks built from them.\<close>

locale tx_invariant =
  fixes Q :: "ledger \<Rightarrow> bool"
  assumes save_keeps: "Q l \<Longrightarrow> owner_save own k v n l = Inr (m, l') \<Longrightarrow> Q l'"
    and delete_keeps: "Q l \<Longrightarrow> owner_delete own k i l = Inr l' \<Longrightarrow> Q l'"
    and append_keeps: "Q l \<Longrightarrow> body_ok b \<Longrightarrow>
      json_unique (case md of None \<Rightarrow> JObj [] | Some v \<Rightarrow> v) \<Longrightarrow>
      writer_append checks now w mid b h md l = Inr (msg, l') \<Longrightarrow> Q l'"
    and commit_keeps: "Q l \<Longrightarrow> prepared_ok p \<Longrightarrow>
      commit_append checks now active p h l = Inr ((msg, new), l') \<Longrightarrow> Q l'"
begin

lemma run_tx_keeps:
  assumes "tx_wf p" "Q l" "run_tx env p (l, failed) = (r, l', failed')"
  shows "Q l'"
  using assms
proof (induction p arbitrary: l failed rule: tx_induct)
  case (Save k v n c)
  obtain r1 l1 f1 where st: "perform (owner_save (env_owner env) k v n) (l, failed) = (r1, l1, f1)"
    by (metis prod_cases3)
  then have "Q l1"
    using perform_cases [OF st] Save.prems(2) by (auto intro: save_keeps)
  then show ?case using Save st by auto
next
  case (Delete k n c)
  let ?f = "\<lambda>l. attempt (owner_delete (env_owner env) k n l) (\<lambda>l'. Inr ((), l'))"
  obtain r1 l1 f1 where st: "perform ?f (l, failed) = (r1, l1, f1)"
    by (metis prod_cases3)
  then have "Q l1"
    using perform_cases [OF st] Delete.prems(2) by (auto simp: attempt_eq_Inr intro: delete_keeps)
  then show ?case using Delete st by auto
next
  case (Append w mid b expected metadata c)
  obtain r1 l1 f1 where
    st: "perform (writer_append (env_checks env) (env_now env) w mid b expected metadata) (l, failed) = (r1, l1, f1)"
    by (metis prod_cases3)
  have b: "body_ok b" "json_unique (case metadata of None \<Rightarrow> JObj [] | Some v \<Rightarrow> v)"
    using Append.prems(1) by auto
  have "Q l1"
    using perform_cases [OF st] Append.prems(2) append_keeps [OF _ b] by auto
  then show ?case using Append st by auto
next
  case (AppendPrepared q active expected c)
  let ?f = "\<lambda>l. attempt (commit_append (env_checks env) (env_now env) active q expected l)
         (\<lambda>((m, _), l'). Inr (m, l'))"
  obtain r1 l1 f1 where st: "perform ?f (l, failed) = (r1, l1, f1)"
    by (metis prod_cases3)
  then have "Q l1"
    using perform_cases [OF st] AppendPrepared.prems(1,2)
    by (auto simp: attempt_eq_Inr intro: commit_keeps)
  then show ?case using AppendPrepared st by auto
qed auto

lemma transact_keeps:
  assumes "tx_wf p" "Q l"
  shows "Q (snd (transact env p l))"
  using run_tx_keeps [OF assms]
  by (auto simp: transact_def assms(2) split: prod.split sum.split)

end

interpretation database: tx_invariant database_ok
  by unfold_locales
    (auto intro: owner_save_database_ok owner_delete_database_ok writer_append_database_ok
      commit_append_database_ok)

lemmas transact_database_ok = database.transact_keeps

text \<open>Once failed, a transaction stays failed, and its later operations change nothing.\<close>

lemma run_tx_failed: "run_tx env p (l, True) = (r, l', failed) \<Longrightarrow> l' = l \<and> failed"
  by (induction p arbitrary: r l' failed rule: tx_induct) (auto simp: perform_def)

text \<open>Running one piece of a callback before the rest.\<close>

primrec tx_bind :: "'b tx \<Rightarrow> ('b \<Rightarrow> 'a tx) \<Rightarrow> 'a tx" where
  "tx_bind (Return x) f = f x"
| "tx_bind (Raise e) f = Raise e"
| "tx_bind (TxRead k c) f = TxRead k (\<lambda>r. tx_bind (c r) f)"
| "tx_bind (TxSave k v n c) f = TxSave k v n (\<lambda>r. tx_bind (c r) f)"
| "tx_bind (TxDelete k n c) f = TxDelete k n (\<lambda>r. tx_bind (c r) f)"
| "tx_bind (TxSourceChanged s src n c) f = TxSourceChanged s src n (\<lambda>r. tx_bind (c r) f)"
| "tx_bind (TxAppend w mid b h md c) f = TxAppend w mid b h md (\<lambda>r. tx_bind (c r) f)"
| "tx_bind (TxAppendPrepared p a h c) f = TxAppendPrepared p a h (\<lambda>r. tx_bind (c r) f)"

lemma run_tx_bind:
  "run_tx env (tx_bind p f) st = (case run_tx env p st of
     (Inl e, st') \<Rightarrow> (Inl e, st') | (Inr x, st') \<Rightarrow> run_tx env (f x) st')"
  by (induction p arbitrary: st rule: tx_induct) (auto split: prod.split)

section \<open>What a transaction guarantees\<close>

definition sample_env :: tx_env where
  "sample_env = \<lparr>env_owner = ''goal'', env_checks = [], env_now = 7\<rparr>"

definition sample_counter :: json where
  "sample_counter = JObj [(''n'', JInt 1)]"

definition counted_ledger :: ledger where
  "counted_ledger = snd (transact sample_env (TxSave ''k'' sample_counter None (tx_ok Return)) empty_ledger)"

lemma database_ok_empty: "database_ok empty_ledger"
  using ledger_ok_empty by (simp add: database_ok_def owners_ok_def) (simp add: empty_ledger_def)

lemma database_ok_counted: "database_ok counted_ledger"
  unfolding counted_ledger_def
  by (intro transact_database_ok database_ok_empty) (simp split: sum.split)

text \<open>
  C8. A transaction that raises leaves the database as it was; and swallowing an
  exception does not help: when a part of the callback left the transaction failed, the whole
  transaction raises and nothing of it is stored, whatever the callback does afterwards.
\<close>

theorem failed_transaction_changes_nothing:
  assumes "run_tx env p (l, False) = (Inr x, l1, True)"
  shows "\<exists>e. transact env (tx_bind p rest) l = (Inl e, l)"
proof -
  obtain r l2 failed where rest: "run_tx env (rest x) (l1, True) = (r, l2, failed)"
    by (metis prod_cases3)
  then have "failed" using run_tx_failed [OF rest] by blast
  then show ?thesis using assms rest by (auto simp: transact_def run_tx_bind split: sum.split)
qed

theorem failed_transaction_changes_nothing_witness:
  "\<exists>e. transact sample_env (tx_bind (TxDelete ''absent'' 0 (\<lambda>_. Return ()))
     (\<lambda>_. TxSave ''k'' sample_counter None (tx_ok Return))) empty_ledger = (Inl e, empty_ledger)"
proof -
  have "run_tx sample_env (TxDelete ''absent'' 0 (\<lambda>_. Return ())) (empty_ledger, False) =
      (Inr (), empty_ledger, True)"
    by (simp add: perform_def owner_delete_def empty_ledger_def)
  then show ?thesis by (rule failed_transaction_changes_nothing)
qed



end
