(* ===== verification/Ledger_Sessions.thy ===== *)
theory Ledger_Sessions
  imports Owner_Properties "HOL-Library.Product_Lexorder"
begin

text \<open>
  Session management of \<open>plugins/ledger/log.py\<close>: the fixed attributes and their stored form,
  admission with its initializers, soft deletion, titles, resource bindings and the session
  directory with its cursor. The last section closes the log's operations into one step
  relation.
\<close>

section \<open>The stored form of the attributes\<close>

definition visibility_text :: "visibility \<Rightarrow> string" where
  "visibility_text v = (case v of Listed \<Rightarrow> ''listed'' | Internal \<Rightarrow> ''internal'')"

definition learning_text :: "learning \<Rightarrow> string" where
  "learning_text v = (case v of Eligible \<Rightarrow> ''eligible'' | Excluded \<Rightarrow> ''excluded'')"

definition encode_attributes :: "session_attributes \<Rightarrow> json" where
  "encode_attributes att = json_norm (JObj (
     [(''visibility'', JStr (visibility_text (att_visibility att))),
      (''learning'', JStr (learning_text (att_learning att)))] @
     (if att_scope att \<noteq> [] then [(''scope'', JObj (map (map_prod id JStr) (att_scope att)))] else [])))"

definition visibility_of :: "json option \<Rightarrow> visibility res" where
  "visibility_of v =
     (if v = Some (JStr ''listed'') then Inr Listed
      else if v = Some (JStr ''internal'') then Inr Internal else Inl ValueError)"

definition learning_of :: "json option \<Rightarrow> learning res" where
  "learning_of v =
     (if v = Some (JStr ''eligible'') then Inr Eligible
      else if v = Some (JStr ''excluded'') then Inr Excluded else Inl ValueError)"

definition scope_entry :: "string \<times> json \<Rightarrow> (string \<times> string) res" where
  "scope_entry kv = (case snd kv of JStr v \<Rightarrow> Inr (fst kv, v) | _ \<Rightarrow> Inl ValueError)"

definition decode_scope :: "json option \<Rightarrow> (string \<times> string) list res" where
  "decode_scope v = (case v of
     None \<Rightarrow> Inr []
   | Some (JObj kvs) \<Rightarrow> if kvs = [] then Inl ValueError else traverse scope_entry kvs
   | Some _ \<Rightarrow> Inl ValueError)"

definition decode_attributes :: "json \<Rightarrow> session_attributes res" where
  "decode_attributes v = (case v of
     JObj kvs \<Rightarrow>
       if \<not> json_unique v then Inl ValueError
       else if set (keys_of kvs) - {''scope''} \<noteq> {''visibility'', ''learning''} then Inl ValueError
       else attempt (decode_scope (map_of kvs ''scope'')) (\<lambda>scope.
         attempt (visibility_of (map_of kvs ''visibility'')) (\<lambda>vis.
         attempt (learning_of (map_of kvs ''learning'')) (\<lambda>learn.
           mk_attributes vis learn (sort_key fst scope))))
   | _ \<Rightarrow> Inl ValueError)"

definition attributes_ok :: "session_attributes \<Rightarrow> bool" where
  "attributes_ok att \<longleftrightarrow> mk_attributes (att_visibility att) (att_learning att) (att_scope att) = Inr att"

lemma visibility_of_text [simp]: "visibility_of (Some (JStr (visibility_text v))) = Inr v"
  by (cases v) (simp_all add: visibility_of_def visibility_text_def)

lemma learning_of_text [simp]: "learning_of (Some (JStr (learning_text v))) = Inr v"
  by (cases v) (simp_all add: learning_of_def learning_text_def)

lemma attributes_scope:
  assumes "attributes_ok att"
  shows "sorted (map fst (att_scope att))" "distinct (map fst (att_scope att))"
  using assms by (auto simp: attributes_ok_def mk_attributes_def split: if_splits)

lemma scope_entries [simp]: "traverse scope_entry (map (map_prod id JStr) xs) = Inr xs"
  by (induction xs) (auto simp: scope_entry_def)

lemma json_norm_scope:
  assumes "sorted (map fst xs)"
  shows "json_norm (JObj (map (map_prod id JStr) xs)) = JObj (map (map_prod id JStr) xs)"
proof -
  have "map (map_prod id json_norm) (map (map_prod id JStr) xs) = map (map_prod id JStr) xs" by auto
  moreover have "keys_of (map (map_prod id JStr) xs) = map fst xs" by (simp add: comp_def)
  ultimately show ?thesis using assms by (simp only: json_norm.simps sort_fields_id)
qed

lemma decode_encode_attributes:
  assumes "attributes_ok att"
  shows "decode_attributes (encode_attributes att) = Inr att"
proof -
  note sc = attributes_scope [OF assms]
  let ?kvs = "[(''visibility'', JStr (visibility_text (att_visibility att))),
      (''learning'', JStr (learning_text (att_learning att)))] @
     (if att_scope att \<noteq> [] then [(''scope'', JObj (map (map_prod id JStr) (att_scope att)))] else [])"
  let ?ns = "sort_fields (map (map_prod id json_norm) ?kvs)"
  have enc: "encode_attributes att = JObj ?ns" by (simp add: encode_attributes_def)
  have dist: "distinct (keys_of ?kvs)" by simp
  have get: "map_of ?ns k = map_option json_norm (map_of ?kvs k)" for k
    by (rule map_of_norm [OF dist])
  have "json_unique (JObj ?kvs)"
    using sc(2) by (auto simp: comp_def json_unique_JObj)
  then have uni: "json_unique (JObj ?ns)" using json_unique_norm [of "JObj ?kvs"] by simp
  have keys: "set (keys_of ?ns) - {''scope''} = {''visibility'', ''learning''}"
    by auto
  have "decode_scope (map_of ?ns ''scope'') = Inr (att_scope att)"
    using json_norm_scope [OF sc(1)]
    by (simp add: get decode_scope_def del: json_norm.simps)
  moreover have "sort_key fst (att_scope att) = att_scope att"
    using sc(1) by (simp add: sort_key_id_if_sorted)
  ultimately show ?thesis
    using assms uni keys
    by (simp add: enc decode_attributes_def get attributes_ok_def del: json_unique_JObj)
qed

section \<open>Managing sessions\<close>

definition max_title :: nat where
  "max_title = 200"

definition normalize_title :: "string option \<Rightarrow> string option res" where
  "normalize_title title =
     (let normalized = (case title of None \<Rightarrow> None
        | Some t \<Rightarrow> if py_strip t = [] then None else Some (py_strip t)) in
      case normalized of
        None \<Rightarrow> Inr None
      | Some t \<Rightarrow> if length t > max_title then Inl ValueError else Inr (Some t))"

text \<open>The initializers of \<open>ensure_session\<close>: pairs of an owner's store and a callback. \<open>None\<close>
  stands for a store that belongs to another log.\<close>

type_synonym initializer = "string option \<times> (string \<Rightarrow> session_attributes \<Rightarrow> unit tx)"

fun run_initializers ::
  "append_check list \<Rightarrow> int \<Rightarrow> string \<Rightarrow> session_attributes \<Rightarrow> initializer list \<Rightarrow> ledger \<Rightarrow> ledger res" where
  "run_initializers checks now s att [] l = Inr l"
| "run_initializers checks now s att ((own, initialize) # inits) l = (case own of
     None \<Rightarrow> Inl ValueError
   | Some name \<Rightarrow>
       (case run_tx \<lparr>env_owner = name, env_checks = checks, env_now = now\<rparr> (initialize s att) (l, False) of
          (Inl e, _) \<Rightarrow> Inl e
        | (Inr _, l', failed) \<Rightarrow>
            if failed then Inl RuntimeError else run_initializers checks now s att inits l'))"

definition session_insert :: "string \<Rightarrow> int \<Rightarrow> session_attributes \<Rightarrow> ledger \<Rightarrow> ledger" where
  "session_insert s now att l =
     l\<lparr>led_sessions := led_sessions l @
       [\<lparr>ses_key = s, ses_created = now, ses_updated = now, ses_metadata = None, ses_next_seq = 0,
         ses_attributes = att, ses_deleted = None, ses_title = None\<rparr>]\<rparr>"

text \<open>The transaction \<open>create\<close> of \<open>ensure_session\<close>.\<close>

definition create_session ::
  "append_check list \<Rightarrow> int \<Rightarrow> initializer list \<Rightarrow> string \<Rightarrow> session_attributes \<Rightarrow> ledger \<Rightarrow>
   (session_attributes \<times> ledger) res" where
  "create_session checks now inits s att l = (case find_session s l of
     Some r \<Rightarrow> if ses_attributes r \<noteq> att then Inl MessageConflict else Inr (ses_attributes r, l)
   | None \<Rightarrow> attempt (run_initializers checks now s att inits (session_insert s now att l))
       (\<lambda>l'. Inr (att, l')))"

text \<open>\<open>ensure_session\<close>: the first look happens outside the transaction, on the state \<open>seen\<close>;
  another connection may have committed in between.\<close>

definition ensure_session ::
  "append_check list \<Rightarrow> int \<Rightarrow> initializer list \<Rightarrow> string \<Rightarrow> session_attributes \<Rightarrow> ledger \<Rightarrow> ledger \<Rightarrow>
   session_attributes res \<times> ledger" where
  "ensure_session checks now inits s att seen l =
     (if s = [] then (Inl ValueError, l)
      else case find_session s seen of
        Some r \<Rightarrow> (if ses_attributes r \<noteq> att then Inl MessageConflict else Inr (ses_attributes r), l)
      | None \<Rightarrow> in_transaction (create_session checks now inits s att) l)"

definition set_session_deleted :: "string \<Rightarrow> bool \<Rightarrow> int \<Rightarrow> ledger \<Rightarrow> (int option \<times> ledger) res" where
  "set_session_deleted s deleted now l = (case find_session s l of
     None \<Rightarrow> Inl KeyError
   | Some r \<Rightarrow>
       if \<not> deleted then
         (if ses_deleted r = None then Inr (None, l)
          else Inr (None, update_session s (\<lambda>r. r\<lparr>ses_deleted := None\<rparr>) l))
       else if ses_deleted r \<noteq> None then Inr (ses_deleted r, l)
       else Inr (Some now, update_session s (\<lambda>r. r\<lparr>ses_deleted := Some now\<rparr>) l))"

definition set_session_title :: "string \<Rightarrow> string option \<Rightarrow> ledger \<Rightarrow> (string option \<times> ledger) res" where
  "set_session_title s title l =
     attempt (normalize_title title) (\<lambda>normalized. case find_session s l of
       None \<Rightarrow> Inl KeyError
     | Some r \<Rightarrow>
         if ses_title r = normalized then Inr (normalized, l)
         else Inr (normalized, update_session s (\<lambda>r. r\<lparr>ses_title := normalized\<rparr>) l))"

definition set_session_title_if_unset :: "string \<Rightarrow> string \<Rightarrow> ledger \<Rightarrow> (bool \<times> ledger) res" where
  "set_session_title_if_unset s title l =
     attempt (normalize_title (Some title)) (\<lambda>normalized. case normalized of
       None \<Rightarrow> Inl ValueError
     | Some t \<Rightarrow> (case find_session s l of
         None \<Rightarrow> Inl KeyError
       | Some r \<Rightarrow>
           if ses_title r = None \<and> ses_deleted r = None
           then Inr (True, update_session s (\<lambda>r. r\<lparr>ses_title := Some t\<rparr>) l)
           else Inr (False, l)))"

section \<open>Resource bindings\<close>

text \<open>The cache of \<open>save_binding\<close> holds objects that were read from or committed to the
  table, so that consulting it first gives the table's answer. The stored payload is checked to
  be an object only after the transaction committed, so that a descriptor which is no mapping
  is stored although the call raises.\<close>

definition save_binding :: "string \<Rightarrow> pyval \<Rightarrow> ledger \<Rightarrow> unit res \<times> ledger" where
  "save_binding b descriptor l =
     (if b = [] then (Inl ValueError, l)
      else case freeze_json descriptor of
        Inl e \<Rightarrow> (Inl e, l)
      | Inr v \<Rightarrow>
          let payload = json_norm v;
              checked = attempt (stored_object payload) (\<lambda>_. Inr ()) in
          case map_of (led_bindings l) b of
            Some known \<Rightarrow> (if known \<noteq> payload then Inl MessageConflict else checked, l)
          | None \<Rightarrow> (checked, l\<lparr>led_bindings := led_bindings l @ [(b, payload)]\<rparr>))"

definition read_binding :: "string \<Rightarrow> ledger \<Rightarrow> json res" where
  "read_binding b l = (case map_of (led_bindings l) b of
     None \<Rightarrow> Inl KeyError | Some payload \<Rightarrow> stored_object payload)"

section \<open>The session directory\<close>

record session_entry =
  ent_id :: string
  ent_created :: int
  ent_updated :: int
  ent_attributes :: session_attributes
  ent_metadata :: "json option"
  ent_head :: int
  ent_count :: nat
  ent_first :: "message option"
  ent_title :: "string option"

record session_page =
  pg_entries :: "session_entry list"
  pg_total :: nat
  pg_cursor :: "(int \<times> string) option"

text \<open>\<open>_session_entry\<close>, with the statistics the query joins to the row.\<close>

definition mk_session_entry :: "ledger \<Rightarrow> session_row \<Rightarrow> session_entry res" where
  "mk_session_entry l r =
     (let rows = session_rows (ses_key r) l in
      attempt (case rows of [] \<Rightarrow> Inr None | row # _ \<Rightarrow> attempt (decode_row row) (\<lambda>m. Inr (Some m))) (\<lambda>first.
      attempt (case ses_metadata r of None \<Rightarrow> Inr None
               | Some v \<Rightarrow> attempt (stored_object v) (\<lambda>md. Inr (Some md))) (\<lambda>md.
        Inr \<lparr>ent_id = ses_key r, ent_created = ses_created r, ent_updated = ses_updated r,
          ent_attributes = ses_attributes r, ent_metadata = md, ent_head = max_seq rows,
          ent_count = length rows, ent_first = first, ent_title = ses_title r\<rparr>)))"

text \<open>SQLite's \<open>julianday\<close> is the parameter \<open>julian\<close>: it maps a time to the value the
  directory sorts by, and distinct times may get the same value. The newest session comes
  first, sessions of one time in the order of their keys.\<close>

definition directory_key :: "(int \<Rightarrow> int) \<Rightarrow> session_row \<Rightarrow> int \<times> string" where
  "directory_key julian r = (- julian (ses_updated r), ses_key r)"

definition directory_rows :: "string \<Rightarrow> visibility option \<Rightarrow> ledger \<Rightarrow> session_row list" where
  "directory_rows prefix vis l =
     filter (\<lambda>r. starts_with (ses_key r) prefix \<and> ses_deleted r = None \<and>
       (case vis of None \<Rightarrow> True | Some v \<Rightarrow> att_visibility (ses_attributes r) = v)) (led_sessions l)"

definition after_cursor :: "(int \<Rightarrow> int) \<Rightarrow> (int \<times> string) option \<Rightarrow> session_row \<Rightarrow> bool" where
  "after_cursor julian after r = (case after of
     None \<Rightarrow> True
   | Some (t, k) \<Rightarrow> julian (ses_updated r) < julian t \<or>
       (julian (ses_updated r) = julian t \<and> k < ses_key r))"

definition catalog_sessions ::
  "(int \<Rightarrow> int) \<Rightarrow> string \<Rightarrow> visibility option \<Rightarrow> (int \<times> string) option \<Rightarrow> int \<Rightarrow> ledger \<Rightarrow>
   session_page res" where
  "catalog_sessions julian prefix vis after limit l =
     (if \<not> (1 \<le> limit \<and> limit \<le> 200) then Inl InvalidPage
      else
        let base = directory_rows prefix vis l;
            rows = take (nat limit + 1)
              (sort_key (directory_key julian) (filter (after_cursor julian after) base)) in
        attempt (traverse (mk_session_entry l) (take (nat limit) rows)) (\<lambda>entries.
          Inr \<lparr>pg_entries = entries, pg_total = length base,
            pg_cursor = (if length rows > nat limit
              then Some (ent_updated (last entries), ent_id (last entries)) else None)\<rparr>))"

definition snapshot_heads :: "string \<Rightarrow> visibility option \<Rightarrow> ledger \<Rightarrow> (string \<times> int) list" where
  "snapshot_heads prefix vis l =
     (let filtered = (prefix \<noteq> [] \<or> vis \<noteq> None) in
      map (\<lambda>r. (ses_key r, max_seq (session_rows (ses_key r) l)))
        (sort_key ses_key (filter (\<lambda>r. starts_with (ses_key r) prefix \<and>
          (filtered \<longrightarrow> ses_deleted r = None) \<and>
          (case vis of None \<Rightarrow> True | Some v \<Rightarrow> att_visibility (ses_attributes r) = v)) (led_sessions l))))"

definition snapshot_attributes :: "ledger \<Rightarrow> (string \<times> session_attributes) list" where
  "snapshot_attributes l = map (\<lambda>r. (ses_key r, ses_attributes r)) (sort_key ses_key (led_sessions l))"

text \<open>A reader of the directory: page after page, each from the cursor of the one before.\<close>

fun walk_directory ::
  "nat \<Rightarrow> (int \<Rightarrow> int) \<Rightarrow> string \<Rightarrow> visibility option \<Rightarrow> (int \<times> string) option \<Rightarrow> int \<Rightarrow> ledger \<Rightarrow>
   session_entry list res option" where
  "walk_directory 0 julian prefix vis after limit l = None"
| "walk_directory (Suc n) julian prefix vis after limit l =
     (case catalog_sessions julian prefix vis after limit l of
        Inl e \<Rightarrow> Some (Inl e)
      | Inr page \<Rightarrow> (case pg_cursor page of
          None \<Rightarrow> Some (Inr (pg_entries page))
        | Some cursor \<Rightarrow>
            map_option (\<lambda>rest. attempt rest (\<lambda>entries. Inr (pg_entries page @ entries)))
              (walk_directory n julian prefix vis (Some cursor) limit l)))"

subsection \<open>Following the cursors\<close>

definition entries_ok :: "ledger \<Rightarrow> bool" where
  "entries_ok l \<longleftrightarrow> (\<forall>r \<in> set (led_sessions l). \<exists>e. mk_session_entry l r = Inr e)"

lemma entry_of_row:
  "mk_session_entry l r = Inr e \<Longrightarrow> ent_id e = ses_key r \<and> ent_updated e = ses_updated r"
  by (auto simp: mk_session_entry_def Let_def attempt_eq_Inr)

lemma after_cursor_key:
  "after_cursor julian (Some (ses_updated x, ses_key x)) r \<longleftrightarrow>
   directory_key julian x < directory_key julian r"
  by (auto simp: after_cursor_def directory_key_def less_prod_def)

lemma sorted_key_distinct:
  assumes "distinct (map key xs)"
  shows "sorted_wrt (\<lambda>a b. key a < (key b :: 'k :: linorder)) (sort_key key xs)"
proof -
  have "distinct (map key (sort_key key xs))" using assms by (simp add: distinct_map)
  then have "sorted_wrt (<) (map key (sort_key key xs))"
    by (simp only: strict_sorted_iff sorted_sort_key simp_thms)
  then show ?thesis by (simp add: sorted_wrt_map)
qed

lemma filter_greater_append:
  assumes "sorted_wrt (\<lambda>a b. key a < (key b :: 'k :: linorder)) (xs @ x # ys)"
  shows "filter (\<lambda>r. key x < key r) (xs @ x # ys) = ys"
  using assms by (auto simp: sorted_wrt_append filter_empty_conv intro!: filter_True)

lemma filter_after_take:
  assumes "sorted_wrt (\<lambda>a b. key a < (key b :: 'k :: linorder)) xs" "n < length xs" "0 < n"
  shows "filter (\<lambda>r. key (last (take n xs)) < key r) xs = drop n xs"
proof -
  have split: "xs = take (n - 1) xs @ xs ! (n - 1) # drop n xs"
    using assms(2,3) by (metis Suc_diff_1 Suc_lessD id_take_nth_drop less_imp_diff_less)
  have "take n xs = take (n - 1) xs @ [xs ! (n - 1)]"
    using assms(2,3) by (metis Suc_diff_1 Suc_lessD less_imp_diff_less take_Suc_conv_app_nth)
  then have "last (take n xs) = xs ! (n - 1)" by simp
  then show ?thesis using filter_greater_append [of key "take (n - 1) xs"] assms(1) split by metis
qed

lemma catalog_page:
  fixes julian prefix vis after l
  assumes "1 \<le> limit" "limit \<le> 200" "entries_ok l"
  defines "xs \<equiv> filter (after_cursor julian after)
      (sort_key (directory_key julian) (directory_rows prefix vis l))"
  obtains page where "catalog_sessions julian prefix vis after limit l = Inr page"
    "map ent_id (pg_entries page) = map ses_key (take (nat limit) xs)"
    "pg_cursor page = (if length xs > nat limit
       then (let r = last (take (nat limit) xs) in Some (ses_updated r, ses_key r)) else None)"
proof -
  let ?rows = "take (nat limit) xs"
  have in_sessions: "set ?rows \<subseteq> set (led_sessions l)"
    using set_take_subset [of "nat limit" xs] by (auto simp: xs_def directory_rows_def)
  define entry where "entry r = (SOME e. mk_session_entry l r = Inr e)" for r
  have entry: "mk_session_entry l r = Inr (entry r)" if "r \<in> set ?rows" for r
    using assms(3) that in_sessions unfolding entry_def entries_ok_def by (metis (mono_tags) someI subsetD)
  then have trav: "traverse (mk_session_entry l) ?rows = Inr (map entry ?rows)"
    by (rule traverse_Inr_map)
  have ids: "ent_id (entry r) = ses_key r" "ent_updated (entry r) = ses_updated r" if "r \<in> set ?rows" for r
    using entry_of_row [OF entry [OF that]] by auto
  have rows: "take (nat limit + 1) (sort_key (directory_key julian)
      (filter (after_cursor julian after) (directory_rows prefix vis l))) = take (nat limit + 1) xs"
    by (simp add: xs_def filter_sort)
  have len: "nat limit < length (take (nat limit + 1) xs) \<longleftrightarrow> nat limit < length xs"
    by auto
  let ?page = "\<lparr>pg_entries = map entry ?rows, pg_total = length (directory_rows prefix vis l),
    pg_cursor = (if nat limit < length xs
      then Some (ent_updated (last (map entry ?rows)), ent_id (last (map entry ?rows))) else None)\<rparr>"
  have page: "catalog_sessions julian prefix vis after limit l = Inr ?page"
    using assms(1,2) trav unfolding catalog_sessions_def Let_def rows len by (simp add: min_def)
  have "?rows \<noteq> []" if "nat limit < length xs" using that assms(1) by (cases xs) auto
  then have cursor: "pg_cursor ?page = (if length xs > nat limit
       then (let r = last ?rows in Some (ses_updated r, ses_key r)) else None)"
    using ids by (simp add: last_map Let_def)
  show thesis
    by (rule that [OF page _ cursor]) (use ids in simp)
qed

lemma after_cursor_trans:
  assumes "after_cursor julian after x" "after_cursor julian (Some (ses_updated x, ses_key x)) r"
  shows "after_cursor julian after r"
proof (cases after)
  case (Some c)
  obtain t k where "c = (t, k)" by (cases c)
  then show ?thesis using assms Some by (auto simp: after_cursor_def)
qed (simp add: after_cursor_def)

lemma filter_filter_imp: "(\<And>x. P x \<Longrightarrow> Q x) \<Longrightarrow> filter P (filter Q xs) = filter P xs"
  by (induction xs) auto

lemma walk_directory_from:
  fixes julian prefix vis limit l
  assumes "1 \<le> limit" "limit \<le> 200" "entries_ok l" "distinct (map ses_key (led_sessions l))"
  defines "sorted_rows \<equiv> sort_key (directory_key julian) (directory_rows prefix vis l)"
  shows "length (filter (after_cursor julian after) sorted_rows) < n \<Longrightarrow>
    \<exists>entries. walk_directory n julian prefix vis after limit l = Some (Inr entries) \<and>
      map ent_id entries = map ses_key (filter (after_cursor julian after) sorted_rows)"
proof (induction n arbitrary: after)
  case (Suc n)
  let ?xs = "filter (after_cursor julian after) sorted_rows"
  obtain page where page: "catalog_sessions julian prefix vis after limit l = Inr page"
      "map ent_id (pg_entries page) = map ses_key (take (nat limit) ?xs)"
    and cursor: "pg_cursor page = (if length ?xs > nat limit
       then (let r = last (take (nat limit) ?xs) in Some (ses_updated r, ses_key r)) else None)"
    by (rule catalog_page [OF assms(1-3), of julian prefix vis after, folded sorted_rows_def])
  show ?case
  proof (cases "length ?xs > nat limit")
    case False
    then show ?thesis using page cursor by simp
  next
    case True
    let ?x = "last (take (nat limit) ?xs)"
    let ?next = "Some (ses_updated ?x, ses_key ?x)"
    have "distinct (map (directory_key julian) (directory_rows prefix vis l))"
      using assms(4) by (auto simp: distinct_map inj_on_def directory_key_def directory_rows_def)
    then have sorted: "sorted_wrt (\<lambda>a b. directory_key julian a < directory_key julian b) sorted_rows"
      unfolding sorted_rows_def by (rule sorted_key_distinct)
    have pos: "0 < nat limit" using assms(1) by simp
    have step: "filter (after_cursor julian ?next) ?xs = drop (nat limit) ?xs"
      unfolding after_cursor_key
      by (rule filter_after_take [OF sorted_wrt_filter [OF sorted] True pos])
    have x: "?x \<in> set ?xs"
      using True pos by (metis in_set_takeD last_in_set list.size(3) not_less0 take_eq_Nil less_not_refl2)
    have "after_cursor julian after ?x" using x by simp
    then have "filter (after_cursor julian ?next) sorted_rows = filter (after_cursor julian ?next) ?xs"
      by (intro filter_filter_imp [symmetric]) (rule after_cursor_trans)
    with step have rest: "filter (after_cursor julian ?next) sorted_rows = drop (nat limit) ?xs" by simp
    then have "length (filter (after_cursor julian ?next) sorted_rows) < n"
      using Suc.prems pos True unfolding rest length_drop by arith
    then obtain entries where "walk_directory n julian prefix vis ?next limit l = Some (Inr entries)"
        "map ent_id entries = map ses_key (drop (nat limit) ?xs)"
      using Suc.IH [of ?next] rest by auto
    then show ?thesis
      using page cursor True by (simp add: Let_def flip: take_map drop_map)
  qed
qed simp

section \<open>Every operation in one relation\<close>

text \<open>What time never takes back: accepted messages, admitted sessions with their attributes
  and creation time, spent sequence numbers, saved bindings.\<close>

definition session_facts :: "ledger \<Rightarrow> string \<Rightarrow> (int \<times> session_attributes) option" where
  "session_facts l s = map_option (\<lambda>r. (ses_created r, ses_attributes r)) (find_session s l)"

definition extends :: "ledger \<Rightarrow> ledger \<Rightarrow> bool" where
  "extends l l' \<longleftrightarrow> (\<exists>new. led_messages l' = led_messages l @ new) \<and>
     session_facts l \<subseteq>\<^sub>m session_facts l' \<and> (\<forall>s. next_seq l s \<le> next_seq l' s) \<and>
     map_of (led_bindings l) \<subseteq>\<^sub>m map_of (led_bindings l')"

lemma extends_refl [simp]: "extends l l"
  by (simp add: extends_def)

lemma extends_trans: "extends l l1 \<Longrightarrow> extends l1 l2 \<Longrightarrow> extends l l2"
  unfolding extends_def by (metis append.assoc le_trans map_le_trans)

lemma extends_facts: "extends l l' \<Longrightarrow> session_facts l s = Some x \<Longrightarrow> session_facts l' s = Some x"
  unfolding extends_def map_le_def by (metis domI)

lemma extends_cong:
  assumes "led_sessions l' = led_sessions l" "led_messages l' = led_messages l"
    "led_bindings l' = led_bindings l"
  shows "extends l0 l' = extends l0 l"
  using assms by (simp add: extends_def session_facts_def [abs_def] next_seq_def find_session_def)

lemma extends_update:
  assumes "\<And>r. ses_key (f r) = ses_key r" "\<And>r. ses_created (f r) = ses_created r"
    "\<And>r. ses_attributes (f r) = ses_attributes r"
    "\<And>r. find_session s l = Some r \<Longrightarrow> ses_next_seq r \<le> ses_next_seq (f r)"
  shows "extends l (update_session s f l)"
proof -
  have "session_facts (update_session s f l) t = session_facts l t" for t
    using assms(2,3) by (simp add: session_facts_def find_session_update assms(1) option.map_comp comp_def)
  moreover have "next_seq l t \<le> next_seq (update_session s f l) t" for t
    using assms(4) by (auto simp: next_seq_update assms(1)) (auto simp: next_seq_def split: option.split)
  ultimately show ?thesis by (simp add: extends_def ledger_frame map_le_def)
qed

lemma extends_admit: "extends l (admit_session s now l)"
  by (auto simp: extends_def ledger_frame map_le_def session_facts_def find_session_admit)

lemma find_session_insert:
  assumes "find_session s l = None"
  shows "find_session t (session_insert s now att l) = (if t = s then
    Some \<lparr>ses_key = s, ses_created = now, ses_updated = now, ses_metadata = None, ses_next_seq = 0,
         ses_attributes = att, ses_deleted = None, ses_title = None\<rparr> else find_session t l)"
  using assms by (auto simp: session_insert_def find_session_def find_append_found split: option.split)

lemma next_seq_insert:
  "find_session s l = None \<Longrightarrow> next_seq (session_insert s now att l) t = next_seq l t"
  by (auto simp: next_seq_def find_session_insert)

lemma extends_insert:
  assumes "find_session s l = None"
  shows "extends l (session_insert s now att l)"
  using assms
  by (auto simp: extends_def map_le_def session_facts_def next_seq_insert find_session_insert)
    (auto simp: session_insert_def)

lemma insert_prepared_extends:
  assumes "insert_prepared checks now w mid pre expected l = Inr (m, l')"
  shows "extends l l'"
proof -
  let ?s = "wr_session w"
  let ?l1 = "admit_session ?s now l"
  let ?seq = "case find_session ?s ?l1 of None \<Rightarrow> 0 | Some r \<Rightarrow> ses_next_seq r"
  obtain r l2 l3 l4 where 2: "insert_message_row r ?l1 = Inr l2"
    and 3: "insert_attachments mid (pre_artifacts pre) l2 = Inr l3"
    and 4: "insert_bindings mid (pre_bindings pre) l3 = Inr l4"
    and 5: "apply_session_metadata ?s (pre_session_metadata pre)
        (update_session ?s (\<lambda>r. r\<lparr>ses_next_seq := ?seq + 1, ses_updated := now\<rparr>) l4) = Inr l'"
    using assms by (auto simp: insert_prepared_def Let_def attempt_eq_Inr)
  have "extends l ?l1" by (rule extends_admit)
  moreover have "extends ?l1 l2"
    using insert_message_row_Inr [OF 2] by (simp add: extends_def session_facts_def [abs_def] next_seq_def find_session_def)
  moreover have "extends l2 l4"
    using extends_cong [of l4 l3 l2] extends_cong [of l3 l2 l2]
      insert_attachments_frame [OF 3] insert_bindings_frame [OF 4] by simp
  moreover have sess: "find_session ?s l4 = find_session ?s ?l1"
    using insert_message_row_Inr [OF 2] insert_attachments_frame(2) [OF 3] insert_bindings_frame(2) [OF 4]
    by (simp add: find_session_def)
  have "extends l4 (update_session ?s (\<lambda>r. r\<lparr>ses_next_seq := ?seq + 1, ses_updated := now\<rparr>) l4)"
    by (rule extends_update) (simp_all add: sess)
  moreover have "extends (update_session ?s (\<lambda>r. r\<lparr>ses_next_seq := ?seq + 1, ses_updated := now\<rparr>) l4) l'"
    using apply_session_metadata_cases [OF 5] by (auto intro: extends_update)
  ultimately show ?thesis by (blast intro: extends_trans)
qed

lemma writer_append_extends:
  assumes "writer_append checks now w mid b expected metadata l = Inr (m, l')"
  shows "extends l l'"
  using assms by (cases rule: writer_append_cases) (auto intro: insert_prepared_extends)

lemma commit_append_extends:
  assumes "commit_append checks now active p h l = Inr ((m, new), l')"
  shows "extends l l'"
  using commit_append_cases [OF assms] by (auto intro: insert_prepared_extends)

interpretation history: tx_invariant "extends start" for start
proof
  fix l own k v n m l'
  assume "extends start l" "owner_save own k v n l = Inr (m, l')"
  then show "extends start l'" using extends_cong owner_save_frame by metis
next
  fix l own k i l'
  assume "extends start l" "owner_delete own k i l = Inr l'"
  then show "extends start l'" using extends_cong owner_delete_frame by metis
qed (auto intro: extends_trans writer_append_extends commit_append_extends)

lemma update_session_database_ok:
  assumes "\<And>r. ses_key (f r) = ses_key r" "\<And>r. ses_next_seq (f r) = ses_next_seq r"
  shows "database_ok (update_session s f l) = database_ok l"
proof -
  have nx: "next_seq (update_session s f l) t = next_seq l t" for t
    by (simp add: next_seq_update assms) (simp add: next_seq_def assms split: option.split)
  have found: "find_session t (update_session s f l) = None \<longleftrightarrow> find_session t l = None" for t
    by (simp add: find_session_update assms(1))
  have "result_ok (update_session s f l) = result_ok l"
    by (intro ext) (simp add: result_ok_def ledger_frame)
  then show ?thesis
    using update_session_keys [of f s l] assms(1)
    by (simp add: database_ok_def ledger_ok_def owners_ok_def nx found ledger_frame)
qed

lemma session_insert_database_ok:
  assumes "database_ok l" "find_session s l = None"
  shows "database_ok (session_insert s now att l)"
proof -
  let ?l = "session_insert s now att l"
  have frame: "led_messages ?l = led_messages l" "led_owners ?l = led_owners l"
    by (simp_all add: session_insert_def)
  have nx: "next_seq ?l t = next_seq l t" for t
    by (rule next_seq_insert [OF assms(2)])
  have found: "find_session t l \<noteq> None \<Longrightarrow> find_session t ?l \<noteq> None" for t
    by (simp add: find_session_insert [OF assms(2)])
  have keys: "distinct (map ses_key (led_sessions ?l))"
    using assms by (auto simp: session_insert_def database_ok_def ledger_ok_def find_session_def find_None_iff)
  have "result_ok ?l = result_ok l"
    by (intro ext) (simp add: result_ok_def frame)
  then show ?thesis
    using assms(1) keys found by (simp add: database_ok_def ledger_ok_def owners_ok_def nx frame)
qed

definition initializers_wf :: "initializer list \<Rightarrow> bool" where
  "initializers_wf inits \<longleftrightarrow> (\<forall>(own, initialize) \<in> set inits. \<forall>s att. tx_wf (initialize s att))"

context tx_invariant
begin

lemma run_initializers_keeps:
  assumes "initializers_wf inits" "Q l" "run_initializers checks now s att inits l = Inr l'"
  shows "Q l'"
  using assms
proof (induction inits arbitrary: l)
  case (Cons init inits)
  obtain own initialize where init: "init = (own, initialize)" by (cases init)
  have wf: "tx_wf (initialize s att)" "initializers_wf inits"
    using Cons.prems(1) by (auto simp: initializers_wf_def init)
  from Cons.prems(3) obtain name x l1 where
    run: "run_tx \<lparr>env_owner = name, env_checks = checks, env_now = now\<rparr> (initialize s att) (l, False) =
      (Inr x, l1, False)" and rest: "run_initializers checks now s att inits l1 = Inr l'"
    by (auto simp: init split: option.splits sum.splits prod.splits if_splits)
  show ?case
    by (rule Cons.IH [OF wf(2) run_tx_keeps [OF wf(1) Cons.prems(2) run] rest])
qed simp

end

lemma create_session_effect:
  assumes "initializers_wf inits" "create_session checks now inits s att l = Inr (att', l')"
  shows "att' = att \<and> extends l l' \<and> (database_ok l \<longrightarrow> database_ok l') \<and>
    map_option snd (session_facts l' s) = Some att \<and> (find_session s l \<noteq> None \<longrightarrow> l' = l)"
proof (cases "find_session s l")
  case None
  let ?l1 = "session_insert s now att l"
  from assms(2) None have run: "run_initializers checks now s att inits ?l1 = Inr l'" and att: "att' = att"
    by (auto simp: create_session_def attempt_eq_Inr)
  have ext: "extends ?l1 l'"
    by (rule history.run_initializers_keeps [OF assms(1) extends_refl run])
  have "session_facts ?l1 s = Some (now, att)"
    by (simp add: session_facts_def find_session_insert [OF None])
  then have "session_facts l' s = Some (now, att)"
    by (rule extends_facts [OF ext])
  moreover have "database_ok l \<longrightarrow> database_ok l'"
    using database.run_initializers_keeps [OF assms(1) _ run] session_insert_database_ok [OF _ None] by blast
  ultimately show ?thesis
    using extends_trans [OF extends_insert [OF None] ext] att None by simp
next
  case (Some r)
  then show ?thesis using assms(2) by (auto simp: create_session_def session_facts_def split: if_splits)
qed

lemma set_session_deleted_cases:
  assumes "set_session_deleted s deleted now l = Inr (x, l')"
  shows "l' = l \<or> (\<exists>d. l' = update_session s (\<lambda>r. r\<lparr>ses_deleted := d\<rparr>) l)"
  using assms by (auto simp: set_session_deleted_def split: option.splits if_splits)

lemma set_session_title_cases:
  assumes "set_session_title s title l = Inr (x, l')"
  shows "l' = l \<or> (\<exists>t. l' = update_session s (\<lambda>r. r\<lparr>ses_title := t\<rparr>) l)"
  using assms by (auto simp: set_session_title_def attempt_eq_Inr split: option.splits if_splits)

lemma set_session_title_if_unset_cases:
  assumes "set_session_title_if_unset s title l = Inr (x, l')"
  shows "l' = l \<or> (\<exists>t. l' = update_session s (\<lambda>r. r\<lparr>ses_title := t\<rparr>) l)"
proof -
  from assms obtain normalized where "(case normalized of None \<Rightarrow> Inl ValueError
     | Some t \<Rightarrow> (case find_session s l of None \<Rightarrow> Inl KeyError
       | Some r \<Rightarrow> if ses_title r = None \<and> ses_deleted r = None
           then Inr (True, update_session s (\<lambda>r. r\<lparr>ses_title := Some t\<rparr>) l)
           else Inr (False, l))) = Inr (x, l')"
    by (auto simp: set_session_title_if_unset_def attempt_eq_Inr)
  then show ?thesis by (cases normalized; cases "find_session s l") (auto split: if_splits)
qed

lemma save_binding_cases:
  "snd (save_binding b d l) = l \<or> (\<exists>v. map_of (led_bindings l) b = None \<and>
     snd (save_binding b d l) = l\<lparr>led_bindings := led_bindings l @ [(b, v)]\<rparr>)"
  by (auto simp: save_binding_def Let_def split: sum.split option.split)

text \<open>One step of the log: an append, an owner's transaction, an admission, a management
  operation, a new binding; it may raise, and then leaves what the source leaves.\<close>

inductive log_step :: "ledger \<Rightarrow> ledger \<Rightarrow> bool" where
  step_append: "body_ok b \<Longrightarrow> json_unique (case metadata of None \<Rightarrow> JObj [] | Some v \<Rightarrow> v) \<Longrightarrow>
    log_step l (snd (append_message checks now w mid b expected metadata l))"
| step_transact: "tx_wf p \<Longrightarrow> log_step l (snd (transact env (p :: unit tx) l))"
| step_ensure: "initializers_wf inits \<Longrightarrow> log_step l (snd (ensure_session checks now inits s att seen l))"
| step_deleted: "log_step l (snd (in_transaction (set_session_deleted s deleted now) l))"
| step_title: "log_step l (snd (in_transaction (set_session_title s title) l))"
| step_title_if_unset: "log_step l (snd (in_transaction (set_session_title_if_unset s t) l))"
| step_binding: "log_step l (snd (save_binding b d l))"

inductive_cases log_stepE: "log_step l l'"

lemma in_transaction_cases:
  "snd (in_transaction f l) = l \<or> (\<exists>x. f l = Inr (x, snd (in_transaction f l)))"
  by (cases "f l") (auto simp: in_transaction_def)

lemma log_step_keeps:
  assumes "log_step l l'"
  shows "extends l l' \<and> (database_ok l \<longrightarrow> database_ok l')"
  using assms
proof cases
  case (step_append b metadata checks now w mid expected)
  show ?thesis
    using in_transaction_cases [of "writer_append checks now w mid b expected metadata" l]
      writer_append_extends writer_append_database_ok [OF _ step_append(2,3)]
    unfolding step_append(1) append_message_def by (metis extends_refl)
next
  case (step_transact p env)
  then show ?thesis
    using history.transact_keeps [of p l l] transact_database_ok [of p] by simp
next
  case (step_ensure inits checks now s att seen)
  have "extends l (snd (in_transaction (create_session checks now inits s att) l)) \<and>
      (database_ok l \<longrightarrow> database_ok (snd (in_transaction (create_session checks now inits s att) l)))"
    using in_transaction_cases [of "create_session checks now inits s att" l]
      create_session_effect [OF step_ensure(2)] by (metis extends_refl)
  then show ?thesis unfolding step_ensure(1) by (simp add: ensure_session_def split: option.split)
next
  case (step_deleted s deleted now)
  have "l' = l \<or> (\<exists>d. l' = update_session s (\<lambda>r. r\<lparr>ses_deleted := d\<rparr>) l)"
    using in_transaction_cases set_session_deleted_cases unfolding step_deleted by metis
  then show ?thesis by (auto intro: extends_update simp: update_session_database_ok)
next
  case (step_title s title)
  have "l' = l \<or> (\<exists>t. l' = update_session s (\<lambda>r. r\<lparr>ses_title := t\<rparr>) l)"
    using in_transaction_cases set_session_title_cases unfolding step_title by metis
  then show ?thesis by (auto intro: extends_update simp: update_session_database_ok)
next
  case (step_title_if_unset s t)
  have "l' = l \<or> (\<exists>t. l' = update_session s (\<lambda>r. r\<lparr>ses_title := t\<rparr>) l)"
    using in_transaction_cases set_session_title_if_unset_cases unfolding step_title_if_unset by metis
  then show ?thesis by (auto intro: extends_update simp: update_session_database_ok)
next
  case (step_binding b d)
  have "database_ok (l\<lparr>led_bindings := v\<rparr>) = database_ok l" for v
    using ledger_ok_cong [of "l\<lparr>led_bindings := v\<rparr>" l] owners_ok_cong [of "l\<lparr>led_bindings := v\<rparr>" l]
    by (simp add: database_ok_def)
  moreover have "map_of (led_bindings l) b = None \<Longrightarrow> extends l (l\<lparr>led_bindings := led_bindings l @ [(b, v)]\<rparr>)" for v
    by (auto simp: extends_def session_facts_def [abs_def] next_seq_def find_session_def map_le_def map_add_def
      split: option.split)
  ultimately show ?thesis using save_binding_cases [of b d l] unfolding step_binding by auto
qed

inductive log_run :: "ledger \<Rightarrow> ledger \<Rightarrow> bool" where
  run_start: "log_run l l"
| run_step: "log_run l l1 \<Longrightarrow> log_step l1 l2 \<Longrightarrow> log_run l l2"

lemma log_run_keeps: "log_run l l' \<Longrightarrow> extends l l' \<and> (database_ok l \<longrightarrow> database_ok l')"
proof (induction rule: log_run.induct)
  case (run_step l l1 l2)
  then show ?case using log_step_keeps [OF run_step.hyps(2)] extends_trans by blast
qed simp

section \<open>Properties\<close>

lemma session_rows_later:
  assumes "extends l l'" "database_ok l" "database_ok l'" "h \<le> reader_head l s None"
  shows "filter (\<lambda>r. int (row_seq r) \<le> h) (session_rows s l') =
    filter (\<lambda>r. int (row_seq r) \<le> h) (session_rows s l)"
proof -
  from assms(1) obtain new where new: "led_messages l' = led_messages l @ new"
    by (auto simp: extends_def)
  let ?old = "filter (\<lambda>r. row_session r = s) (led_messages l)"
  have rows: "session_rows s l = ?old"
    "session_rows s l' = ?old @ filter (\<lambda>r. row_session r = s) new"
    using assms(2,3) by (simp_all add: session_rows_ok(1) database_ok_def new)
  have "sorted_wrt (\<lambda>a b. row_seq a < row_seq b) (session_rows s l')"
    using assms(3) by (auto simp: database_ok_def intro: session_rows_ok(2))
  then have later: "row_seq a < row_seq b"
    if "a \<in> set ?old" "b \<in> set new" "row_session b = s" for a b
    using that by (auto simp: rows(2) sorted_wrt_append)
  have "h < int (row_seq b)" if b: "b \<in> set new" "row_session b = s" for b
  proof -
    have "max_seq ?old < int (row_seq b)" by (rule max_seq_less) (use later b in blast)
    then show ?thesis using assms(4) by (simp add: reader_head_def)
  qed
  then have "filter (\<lambda>r. int (row_seq r) \<le> h) (filter (\<lambda>r. row_session r = s) new) = []"
    by (auto simp: filter_empty_conv not_le)
  then show ?thesis by (simp only: rows filter_append append_Nil2)
qed

lemma reader_read_through:
  "reader_read l s after_seq (Some h) source limit =
    (if limit < 1 \<or> after_seq < -1 then Inl ValueError
     else traverse decode_row (take (nat limit) (filter (\<lambda>r. after_seq < int (row_seq r) \<and>
       (case source of None \<Rightarrow> True | Some src \<Rightarrow> row_source r = src))
       (filter (\<lambda>r. int (row_seq r) \<le> h) (session_rows s l)))))"
  by (simp add: reader_read_def conj_ac)

text \<open>
  C1. History is append-only: whatever operations run, of any owners and writers and
  whether they return or raise, the database invariant holds afterwards; accepted messages
  stay in place, a session keeps its attributes and creation time, bindings keep their
  descriptors; and every read up to an already accepted sequence number gives the same answer
  as before.
\<close>

theorem history_append_only:
  assumes "database_ok l" "log_run l l'" "h \<le> reader_head l s None"
  shows "database_ok l' \<and> (\<exists>new. led_messages l' = led_messages l @ new) \<and>
    (\<forall>t x. session_facts l t = Some x \<longrightarrow> session_facts l' t = Some x) \<and>
    (\<forall>b v. map_of (led_bindings l) b = Some v \<longrightarrow> map_of (led_bindings l') b = Some v) \<and>
    reader_read l' s after_seq (Some h) source limit = reader_read l s after_seq (Some h) source limit"
proof -
  have ext: "extends l l'" and ok: "database_ok l'"
    using log_run_keeps [OF assms(2)] assms(1) by auto
  have "reader_read l' s after_seq (Some h) source limit = reader_read l s after_seq (Some h) source limit"
    unfolding reader_read_through session_rows_later [OF ext assms(1) ok assms(3)] ..
  moreover have "map_of (led_bindings l') b = Some v" if "map_of (led_bindings l) b = Some v" for b v
    using ext that unfolding extends_def map_le_def by (metis domI)
  ultimately show ?thesis using ok ext extends_facts by (simp add: extends_def)
qed

theorem history_append_only_witness:
  "\<exists>l :: ledger. log_run stored_sample l \<and> find_session ''t'' l \<noteq> None \<and>
     reader_read l ''s'' (-1) (Some 0) None 5 = reader_read stored_sample ''s'' (-1) (Some 0) None 5"
proof -
  let ?l = "snd (ensure_session [] 6 [] ''t'' default_attributes stored_sample stored_sample)"
  have "log_step stored_sample ?l" by (rule step_ensure) (simp add: initializers_wf_def)
  then have run: "log_run stored_sample ?l" by (rule run_step [OF run_start])
  have "snd (append_message [] 5 sample_writer ''m1'' sample_input None None empty_ledger) = stored_sample"
    by (simp add: stored_sample_def)
  then have "log_step empty_ledger stored_sample"
    using step_append [OF sample_body_ok(1) no_metadata] by metis
  then have ok: "database_ok stored_sample"
    using log_step_keeps database_ok_empty by blast
  have "0 \<le> reader_head stored_sample ''s'' None" by code_simp
  from history_append_only [OF ok run this]
  have "reader_read ?l ''s'' (-1) (Some 0) None 5 = reader_read stored_sample ''s'' (-1) (Some 0) None 5"
    by blast
  moreover have "find_session ''t'' ?l \<noteq> None" by code_simp
  ultimately show ?thesis using run by blast
qed

text \<open>
  A session is admitted once: when \<open>ensure_session\<close> returns, the session exists
  with exactly the requested attributes, and from then on, after any further operations of the
  log, asking for other attributes raises \<open>MessageConflict\<close> and changes nothing, while asking
  for the same ones returns them without running the initializers again.
\<close>

theorem session_admitted_once:
  assumes "initializers_wf inits" "ensure_session checks now inits s att seen l = (Inr att', l')"
    and "log_run seen l" "log_run l' l''"
  shows "att' = att \<and> ensure_session checks' now' inits' s other l'' l'' =
    (if other = att then Inr att else Inl MessageConflict, l'')"
proof -
  have s: "s \<noteq> []" using assms(2) by (auto simp: ensure_session_def)
  have "att' = att \<and> map_option snd (session_facts l' s) = Some att"
  proof (cases "find_session s seen")
    case None
    then have "create_session checks now inits s att l = Inr (att', l')"
      using assms(2) s by (auto simp: ensure_session_def in_transaction_def split: sum.splits)
    then show ?thesis using create_session_effect [OF assms(1)] by blast
  next
    case (Some r)
    then have r: "ses_attributes r = att" "att' = att" "l' = l"
      using assms(2) s by (auto simp: ensure_session_def split: if_splits)
    have "session_facts l' s = Some (ses_created r, att)"
      by (rule extends_facts [of seen]) (use log_run_keeps [OF assms(3)] r Some in \<open>auto simp: session_facts_def\<close>)
    then show ?thesis using r by simp
  qed
  then obtain c where "att' = att" "session_facts l' s = Some (c, att)" by auto
  moreover have "extends l' l''" using log_run_keeps [OF assms(4)] by blast
  ultimately have "att' = att" "session_facts l'' s = Some (c, att)" using extends_facts by blast+
  then show ?thesis
    using s by (auto simp: ensure_session_def session_facts_def)
qed

definition internal_attributes :: session_attributes where
  "internal_attributes = default_attributes\<lparr>att_visibility := Internal\<rparr>"

theorem session_admitted_once_witness:
  "\<exists>l'. ensure_session [] 6 [] ''t'' default_attributes stored_sample stored_sample = (Inr default_attributes, l') \<and>
     ensure_session [] 7 [] ''t'' internal_attributes l' l' = (Inl MessageConflict, l')"
proof -
  obtain a l' where run: "ensure_session [] 6 [] ''t'' default_attributes stored_sample stored_sample = (a, l')"
    by (metis prod.exhaust)
  have "fst (ensure_session [] 6 [] ''t'' default_attributes stored_sample stored_sample) = Inr default_attributes"
    by code_simp
  then have a: "a = Inr default_attributes" by (simp add: run)
  have wf: "initializers_wf []" by (simp add: initializers_wf_def)
  have "internal_attributes \<noteq> default_attributes" by (simp add: internal_attributes_def default_attributes_def)
  then show ?thesis
    using session_admitted_once [OF wf run [unfolded a] run_start run_start, of "[]" 7 "[]" internal_attributes]
      run a by simp
qed

text \<open>
  The attributes of a session survive storage: every value the class accepts is
  read back from its stored form unchanged.
\<close>

theorem attributes_roundtrip:
  assumes "mk_attributes vis learn scope = Inr att"
  shows "decode_attributes (encode_attributes att) = Inr att"
proof (rule decode_encode_attributes)
  show "attributes_ok att" using assms by (auto simp: attributes_ok_def mk_attributes_def split: if_splits)
qed

theorem attributes_roundtrip_witness:
  "decode_attributes (encode_attributes \<lparr>att_visibility = Internal, att_learning = Excluded,
     att_scope = [(''household'', ''h1''), (''person'', ''p 2'')]\<rparr>) =
   Inr \<lparr>att_visibility = Internal, att_learning = Excluded, att_scope = [(''household'', ''h1''), (''person'', ''p 2'')]\<rparr>"
  by (rule attributes_roundtrip [of Internal Excluded "[(''household'', ''h1''), (''person'', ''p 2'')]"]) code_simp

text \<open>
  C33. Following the directory's cursors, with any page size from 1 to 200, lists
  every session that matches exactly once, newest first, even when several sessions have the
  same time; as many pages as sessions are enough.
\<close>

theorem directory_walk_complete:
  assumes "database_ok l" "entries_ok l" "1 \<le> limit" "limit \<le> 200"
    and "length (directory_rows prefix vis l) < n"
  shows "\<exists>entries. walk_directory n julian prefix vis None limit l = Some (Inr entries) \<and>
    map ent_id entries = map ses_key (sort_key (directory_key julian) (directory_rows prefix vis l)) \<and>
    distinct (map ent_id entries)"
proof -
  have dist: "distinct (map ses_key (led_sessions l))"
    using assms(1) by (simp add: database_ok_def ledger_ok_def)
  have all: "filter (after_cursor julian None) xs = xs" for xs by (simp add: after_cursor_def)
  obtain entries where "walk_directory n julian prefix vis None limit l = Some (Inr entries)"
      "map ent_id entries = map ses_key (sort_key (directory_key julian) (directory_rows prefix vis l))"
    using walk_directory_from [OF assms(3,4,2) dist, of julian None prefix vis n] assms(5) by (auto simp: all)
  moreover have "distinct (map ses_key (sort_key (directory_key julian) (directory_rows prefix vis l)))"
    using dist by (auto simp: distinct_map inj_on_def directory_rows_def)
  ultimately show ?thesis by auto
qed

definition two_sessions :: ledger where
  "two_sessions = snd (ensure_session [] 5 [] ''t'' internal_attributes stored_sample stored_sample)"

theorem directory_walk_complete_witness:
  "\<exists>entries. walk_directory 3 (\<lambda>t. t div 1000) [] None None 1 two_sessions = Some (Inr entries) \<and>
     map ent_id entries = [''s'', ''t'']"
proof -
  have step: "log_step stored_sample two_sessions"
    unfolding two_sessions_def by (rule step_ensure) (simp add: initializers_wf_def)
  have "snd (append_message [] 5 sample_writer ''m1'' sample_input None None empty_ledger) = stored_sample"
    by (simp add: stored_sample_def)
  then have "log_step empty_ledger stored_sample"
    using step_append [OF sample_body_ok(1) no_metadata] by metis
  then have ok: "database_ok two_sessions"
    using log_step_keeps [OF step] log_step_keeps database_ok_empty by blast
  have "list_all (\<lambda>r. case mk_session_entry two_sessions r of Inl _ \<Rightarrow> False | Inr _ \<Rightarrow> True) (led_sessions two_sessions)"
    by code_simp
  then have entries: "entries_ok two_sessions"
    by (auto simp: entries_ok_def list_all_iff split: sum.splits) (metis sumE)
  have "length (directory_rows [] None two_sessions) < 3" by code_simp
  from directory_walk_complete [OF ok entries _ _ this, of 1]
  have "\<exists>entries. walk_directory 3 (\<lambda>t. t div 1000) [] None None 1 two_sessions = Some (Inr entries) \<and>
     map ent_id entries = map ses_key (sort_key (directory_key (\<lambda>t. t div 1000)) (directory_rows [] None two_sessions))"
    by fastforce
  moreover have "map ses_key (sort_key (directory_key (\<lambda>t. t div 1000)) (directory_rows [] None two_sessions)) = [''s'', ''t'']"
    by code_simp
  ultimately show ?thesis by simp
qed

end
