(* ===== verification/Turn_Projection.thy ===== *)
theory Turn_Projection
  imports Ledger_Sessions
begin

text \<open>
  \<open>plugins/turn_projection\<close>: the logical turns of a source, read off its messages. The model
  of \<open>TurnProjection.project\<close> is a loop over the messages with the local variables of the
  source as its state; the lemmas show that the turns partition the inputs and outputs, and
  that projecting a tail from a closed boundary gives the remaining turns.
\<close>

section \<open>The projection\<close>

datatype turn_status = OpenTurn | CompleteTurn | QuietTurn | AbandonedTurn

record turn =
  turn_source :: string
  turn_after :: int
  turn_through :: int
  turn_ending :: "string option"
  turn_status :: turn_status
  turn_messages :: "string list"
  turn_observations :: "(call_ref \<times> string) list"

record member =
  mem_seq :: nat
  mem_id :: string
  mem_ref :: "call_ref option"
  mem_calls :: "call_ref list"

definition build_turn ::
  "string \<Rightarrow> int \<Rightarrow> int \<Rightarrow> string option \<Rightarrow> turn_status \<Rightarrow> member list \<Rightarrow> turn" where
  "build_turn source after_seq through_seq ending status ms =
     \<lparr>turn_source = source, turn_after = after_seq, turn_through = through_seq,
      turn_ending = ending, turn_status = status,
      turn_messages = map mem_id (filter (\<lambda>i. mem_ref i = None) ms),
      turn_observations = map (\<lambda>i. (the (mem_ref i), mem_id i)) (filter (\<lambda>i. mem_ref i \<noteq> None) ms)\<rparr>"

record projection =
  pj_session :: "string option"
  pj_previous :: int
  pj_after :: int
  pj_head :: int
  pj_turns :: "turn list"
  pj_pending :: "member list"
  pj_calls :: "call_ref set"

definition call_refs :: "string \<Rightarrow> part list \<Rightarrow> call_ref list" where
  "call_refs mid ps = map (\<lambda>i. \<lparr>ref_message = mid, ref_part = i\<rparr>)
     (filter (\<lambda>i. is_tool_call (ps ! i)) [0..<length ps])"

definition pending_calls :: "member list \<Rightarrow> call_ref set" where
  "pending_calls ms = \<Union> (set (map (set \<circ> mem_calls) ms))"

text \<open>The branches on the body of a message of the source.\<close>

definition project_output ::
  "string \<Rightarrow> bool \<Rightarrow> message \<Rightarrow> part list \<Rightarrow> finish \<Rightarrow> projection \<Rightarrow> projection" where
  "project_output source include_closed m ps f st =
     (let refs = call_refs (msg_id m) ps;
          pending = pj_pending st @
            [\<lparr>mem_seq = msg_seq m, mem_id = msg_id m, mem_ref = None, mem_calls = refs\<rparr>];
          close = (\<lambda>status. st\<lparr>
            pj_turns := pj_turns st @ (if include_closed then
              [build_turn source (pj_after st) (int (msg_seq m)) (Some (msg_id m)) status pending] else []),
            pj_pending := [], pj_calls := {}, pj_after := int (msg_seq m)\<rparr>) in
      case f of
        Continue \<Rightarrow> st\<lparr>pj_pending := pending, pj_calls := pj_calls st \<union> set refs\<rparr>
      | Complete \<Rightarrow> close CompleteTurn
      | Quiet \<Rightarrow> close QuietTurn)"

definition project_abandon ::
  "string \<Rightarrow> bool \<Rightarrow> int \<Rightarrow> message \<Rightarrow> nat \<Rightarrow> projection \<Rightarrow> projection res" where
  "project_abandon source include_closed consumed m through st =
     (if int through \<le> consumed then Inr st
      else if int through \<le> pj_after st then Inl ValueError
      else
        let closed = filter (\<lambda>i. mem_seq i \<le> through) (pj_pending st);
            later = filter (\<lambda>i. through < mem_seq i) (pj_pending st);
            calls = pending_calls later;
            pending = filter (\<lambda>i. case mem_ref i of None \<Rightarrow> True | Some ref \<Rightarrow> ref \<in> calls) later in
        Inr (st\<lparr>
          pj_turns := pj_turns st @ (if closed \<noteq> [] \<and> include_closed then
            [build_turn source (pj_after st) (int through) (Some (msg_id m)) AbandonedTurn closed] else []),
          pj_pending := pending, pj_calls := calls, pj_after := int through\<rparr>))"

definition project_body ::
  "string \<Rightarrow> bool \<Rightarrow> int \<Rightarrow> message \<Rightarrow> projection \<Rightarrow> projection res" where
  "project_body source include_closed consumed m st = (case msg_body m of
     Input ps \<Rightarrow> Inr (st\<lparr>pj_pending := pj_pending st @
       [\<lparr>mem_seq = msg_seq m, mem_id = msg_id m, mem_ref = None, mem_calls = []\<rparr>]\<rparr>)
   | Output ps f \<Rightarrow> Inr (project_output source include_closed m ps f st)
   | ToolResult legacy ref oc ps \<Rightarrow> Inr (if ref \<in> pj_calls st then
       st\<lparr>pj_pending := pj_pending st @
         [\<lparr>mem_seq = msg_seq m, mem_id = msg_id m, mem_ref = Some ref, mem_calls = []\<rparr>]\<rparr> else st)
   | Control action through reason \<Rightarrow>
       if action = AbandonAction then project_abandon source include_closed consumed m through st
       else Inr st)"

definition project_step ::
  "string \<Rightarrow> bool \<Rightarrow> int \<Rightarrow> projection \<Rightarrow> message \<Rightarrow> projection res" where
  "project_step source include_closed consumed st m =
     (if (case pj_session st of None \<Rightarrow> False | Some s \<Rightarrow> msg_session m \<noteq> s) \<or>
         int (msg_seq m) \<le> pj_previous st then Inl ValueError
      else
        let st1 = st\<lparr>pj_session := Some (msg_session m), pj_previous := int (msg_seq m)\<rparr> in
        if msg_source m \<noteq> source then Inr st1
        else project_body source include_closed consumed m (st1\<lparr>pj_head := int (msg_seq m)\<rparr>))"

definition project_start :: "int \<Rightarrow> projection" where
  "project_start after_seq = \<lparr>pj_session = None, pj_previous = after_seq, pj_after = after_seq,
     pj_head = after_seq, pj_turns = [], pj_pending = [], pj_calls = {}\<rparr>"

definition open_turn :: "string \<Rightarrow> projection \<Rightarrow> turn list" where
  "open_turn source st = (if pj_pending st \<noteq> [] then
     [build_turn source (pj_after st) (pj_head st) None OpenTurn (pj_pending st)] else [])"

definition project :: "message list \<Rightarrow> string \<Rightarrow> int \<Rightarrow> bool \<Rightarrow> turn list res" where
  "project ms source after_seq include_closed =
     attempt (fold_res (project_step source include_closed after_seq) (project_start after_seq) ms)
       (\<lambda>st. Inr (pj_turns st @ open_turn source st))"

section \<open>What the loop keeps\<close>

definition pending_ok :: "projection \<Rightarrow> bool" where
  "pending_ok st \<longleftrightarrow> pj_calls st = pending_calls (pj_pending st) \<and>
     sorted_wrt (\<lambda>i j. mem_seq i < mem_seq j) (pj_pending st) \<and>
     (\<forall>i \<in> set (pj_pending st). pj_after st < int (mem_seq i) \<and> int (mem_seq i) \<le> pj_head st \<and>
       (\<forall>ref. mem_ref i = Some ref \<longrightarrow> ref \<in> pj_calls st \<and> mem_calls i = [])) \<and>
     pj_after st \<le> pj_previous st \<and> pj_head st \<le> pj_previous st"

text \<open>What the constructor of \<open>Message\<close> guarantees about a control.\<close>

definition control_ok :: "message \<Rightarrow> bool" where
  "control_ok m \<longleftrightarrow> (\<forall>n. control_through (msg_body m) = Some n \<longrightarrow> n < msg_seq m)"

lemma pending_calls_simps [simp]:
  "pending_calls [] = {}" "pending_calls (xs @ ys) = pending_calls xs \<union> pending_calls ys"
  "pending_calls (i # xs) = set (mem_calls i) \<union> pending_calls xs"
  by (auto simp: pending_calls_def)

lemma pending_calls_mono: "set xs \<subseteq> set ys \<Longrightarrow> pending_calls xs \<subseteq> pending_calls ys"
  by (auto simp: pending_calls_def)

text \<open>Dropping observations drops no call.\<close>

lemma pending_calls_filter:
  assumes "\<And>i. i \<in> set xs \<Longrightarrow> \<not> P i \<Longrightarrow> mem_calls i = []"
  shows "pending_calls (filter P xs) = pending_calls xs"
  using assms by (induction xs) auto

lemma pending_ok_start: "pending_ok (project_start a)"
  by (simp add: pending_ok_def project_start_def)

lemma project_step_pending_ok:
  assumes "pending_ok st" "control_ok m" "project_step source incl consumed st m = Inr st'"
  shows "pending_ok st'"
proof -
  let ?s1 = "st\<lparr>pj_session := Some (msg_session m), pj_previous := int (msg_seq m)\<rparr>"
  let ?s2 = "?s1\<lparr>pj_head := int (msg_seq m)\<rparr>"
  from assms(3) have new: "pj_previous st < int (msg_seq m)"
    and step: "if msg_source m \<noteq> source then st' = ?s1 else project_body source incl consumed m ?s2 = Inr st'"
    by (auto simp: project_step_def Let_def split: if_splits)
  have old: "\<And>i. i \<in> set (pj_pending st) \<Longrightarrow> int (mem_seq i) < int (msg_seq m)"
    using assms(1) new by (fastforce simp: pending_ok_def)
  have ok2: "pending_ok ?s2" using assms(1) new old by (force simp: pending_ok_def)
  show ?thesis
  proof (cases "msg_source m = source")
    case False
    then have "st' = ?s1" using step by simp
    then show ?thesis using assms(1) new by (auto simp: pending_ok_def)
  next
    case True
    then have body: "project_body source incl consumed m ?s2 = Inr st'" using step by simp
    show ?thesis
    proof (cases "msg_body m")
      case (Input ps)
      then show ?thesis using body assms(1) new old
        by (fastforce simp: project_body_def pending_ok_def sorted_wrt_append)
    next
      case (Output ps f)
      then show ?thesis using body assms(1) new old
        by (cases f) (fastforce simp: project_body_def project_output_def Let_def pending_ok_def sorted_wrt_append)+
    next
      case (ToolResult legacy ref oc ps)
      show ?thesis
      proof (cases "ref \<in> pj_calls st")
        case True
        then show ?thesis using ToolResult body assms(1) new old
          by (fastforce simp: project_body_def pending_ok_def sorted_wrt_append)
      next
        case False
        then show ?thesis using ToolResult body ok2 by (simp add: project_body_def)
      qed
    next
      case (Control action through reason)
      then show ?thesis
      proof (cases "action = AbandonAction \<and> \<not> int through \<le> consumed")
        case False
        then show ?thesis using body ok2 Control
          by (auto simp: project_body_def project_abandon_def split: if_splits)
      next
        case abandon: True
        let ?later = "filter (\<lambda>i. through < mem_seq i) (pj_pending st)"
        let ?kept = "filter (\<lambda>i. case mem_ref i of None \<Rightarrow> True | Some ref \<Rightarrow> ref \<in> pending_calls ?later) ?later"
        have lt: "through < msg_seq m" using assms(2) Control by (simp add: control_ok_def)
        have st': "pj_pending st' = ?kept" "pj_calls st' = pending_calls ?later" "pj_after st' = int through"
          "pj_head st' = int (msg_seq m)" "pj_previous st' = int (msg_seq m)"
          using body Control abandon
          by (auto simp: project_body_def project_abandon_def Let_def split: if_splits)
        have "pending_calls ?kept = pending_calls ?later"
          by (rule pending_calls_filter) (use assms(1) in \<open>auto simp: pending_ok_def split: option.splits\<close>)
        then show ?thesis
          using assms(1) lt old
          by (auto simp: pending_ok_def st' sorted_wrt_filter less_imp_le)
      qed
    qed
  qed
qed

text \<open>The cases of one step on a message of the source, for the proofs below.\<close>

definition moved :: "projection \<Rightarrow> message \<Rightarrow> projection" where
  "moved st m = st\<lparr>pj_session := Some (msg_session m), pj_previous := int (msg_seq m)\<rparr>"

definition entered :: "projection \<Rightarrow> message \<Rightarrow> projection" where
  "entered st m = (moved st m)\<lparr>pj_head := int (msg_seq m)\<rparr>"

lemma moved_simps [simp]:
  "pj_session (moved st m) = Some (msg_session m)" "pj_previous (moved st m) = int (msg_seq m)"
  "pj_after (moved st m) = pj_after st" "pj_turns (moved st m) = pj_turns st"
  "pj_pending (moved st m) = pj_pending st" "pj_calls (moved st m) = pj_calls st"
  "pj_head (moved st m) = pj_head st"
  by (simp_all add: moved_def)

lemma entered_simps [simp]:
  "pj_session (entered st m) = Some (msg_session m)" "pj_previous (entered st m) = int (msg_seq m)"
  "pj_after (entered st m) = pj_after st" "pj_turns (entered st m) = pj_turns st"
  "pj_pending (entered st m) = pj_pending st" "pj_calls (entered st m) = pj_calls st"
  "pj_head (entered st m) = int (msg_seq m)"
  by (simp_all add: entered_def)

lemma project_step_eq:
  "project_step source incl consumed st m =
     (if (case pj_session st of None \<Rightarrow> False | Some s \<Rightarrow> msg_session m \<noteq> s) \<or>
         int (msg_seq m) \<le> pj_previous st then Inl ValueError
      else if msg_source m \<noteq> source then Inr (moved st m)
      else project_body source incl consumed m (entered st m))"
  by (simp add: project_step_def Let_def moved_def entered_def)

lemma project_step_Inr:
  assumes "project_step source incl consumed st m = Inr st'"
  obtains "msg_source m \<noteq> source" "st' = moved st m" "pj_previous st < int (msg_seq m)"
  | "msg_source m = source" "project_body source incl consumed m (entered st m) = Inr st'"
    "pj_previous st < int (msg_seq m)"
  using assms by (auto simp: project_step_eq split: if_splits)

text \<open>The outcomes of an abandonment, field by field.\<close>

definition closed_by :: "nat \<Rightarrow> member list \<Rightarrow> member list" where
  "closed_by through ms = filter (\<lambda>i. mem_seq i \<le> through) ms"

definition left_by :: "nat \<Rightarrow> member list \<Rightarrow> member list" where
  "left_by through ms = filter (\<lambda>i. through < mem_seq i) ms"

definition kept_by :: "nat \<Rightarrow> member list \<Rightarrow> member list" where
  "kept_by through ms = filter (\<lambda>i. case mem_ref i of None \<Rightarrow> True
     | Some ref \<Rightarrow> ref \<in> pending_calls (left_by through ms)) (left_by through ms)"

lemma project_abandon_eq:
  "project_abandon source incl consumed m through st =
     (if int through \<le> consumed then Inr st
      else if int through \<le> pj_after st then Inl ValueError
      else Inr (st\<lparr>
          pj_turns := pj_turns st @ (if closed_by through (pj_pending st) \<noteq> [] \<and> incl then
            [build_turn source (pj_after st) (int through) (Some (msg_id m)) AbandonedTurn
              (closed_by through (pj_pending st))] else []),
          pj_pending := kept_by through (pj_pending st), pj_calls := pending_calls (left_by through (pj_pending st)),
          pj_after := int through\<rparr>))"
  unfolding project_abandon_def Let_def closed_by_def left_by_def kept_by_def ..

lemma project_abandon_Inl:
  "project_abandon source incl consumed m through st = Inl e \<longleftrightarrow>
     \<not> int through \<le> consumed \<and> int through \<le> pj_after st \<and> e = ValueError"
  by (auto simp: project_abandon_eq)

lemma filter_cut:
  assumes "sorted_wrt (\<lambda>i j. f i < (f j :: nat)) xs"
  shows "filter (\<lambda>i. f i \<le> n) xs @ filter (\<lambda>i. n < f i) xs = xs"
  using assms
proof (induction xs)
  case (Cons x xs)
  show ?case
  proof (cases "f x \<le> n")
    case True
    then show ?thesis using Cons by simp
  next
    case False
    then have "\<forall>y \<in> set xs. n < f y" using Cons.prems by fastforce
    then show ?thesis using False by (auto simp: filter_empty_conv intro!: filter_True)
  qed
qed simp

definition conversation :: "string \<Rightarrow> message \<Rightarrow> bool" where
  "conversation source m \<longleftrightarrow> msg_source m = source \<and>
     (case msg_body m of Input _ \<Rightarrow> True | Output _ _ \<Rightarrow> True | _ \<Rightarrow> False)"

definition spoken :: "projection \<Rightarrow> string list" where
  "spoken st = concat (map turn_messages (pj_turns st)) @
     map mem_id (filter (\<lambda>i. mem_ref i = None) (pj_pending st))"

lemma build_turn_messages [simp]:
  "turn_messages (build_turn source a t e s ms) = map mem_id (filter (\<lambda>i. mem_ref i = None) ms)"
  by (simp add: build_turn_def)

lemma project_step_spoken:
  assumes "pending_ok st" "project_step source True consumed st m = Inr st'"
  shows "spoken st' = spoken st @ (if conversation source m then [msg_id m] else [])"
  using assms(2)
proof (cases rule: project_step_Inr)
  case 1
  then show ?thesis by (simp add: spoken_def conversation_def)
next
  case 2
  show ?thesis
  proof (cases "msg_body m")
    case (Control action through reason)
    let ?P = "\<lambda>i. mem_ref i = None"
    have "closed_by through (pj_pending st) @ left_by through (pj_pending st) = pj_pending st"
      using assms(1) filter_cut [of mem_seq "pj_pending st" through]
      by (simp add: closed_by_def left_by_def pending_ok_def)
    then have cut: "map mem_id (filter ?P (closed_by through (pj_pending st))) @ map mem_id (filter ?P (left_by through (pj_pending st))) =
        map mem_id (filter ?P (pj_pending st))"
      by (metis filter_append map_append)
    have "filter ?P (filter (\<lambda>i. case mem_ref i of None \<Rightarrow> True | Some ref \<Rightarrow> ref \<in> cs) xs) = filter ?P xs"
      for cs xs by (induction xs) auto
    then have kept: "filter ?P (kept_by through (pj_pending st)) = filter ?P (left_by through (pj_pending st))"
      by (simp only: kept_by_def)
    show ?thesis
    proof (cases "action = AbandonAction \<and> \<not> int through \<le> consumed")
      case True
      then have "\<not> int through \<le> pj_after st" using 2(2) Control
        by (auto simp: project_body_def project_abandon_eq)
      then have "st' = (entered st m)\<lparr>
          pj_turns := pj_turns st @ (if closed_by through (pj_pending st) \<noteq> [] then
            [build_turn source (pj_after st) (int through) (Some (msg_id m)) AbandonedTurn
              (closed_by through (pj_pending st))] else []),
          pj_pending := kept_by through (pj_pending st), pj_calls := pending_calls (left_by through (pj_pending st)),
          pj_after := int through\<rparr>"
        using 2(2) Control True by (auto simp: project_body_def project_abandon_eq)
      then show ?thesis using Control cut
        by (cases "closed_by through (pj_pending st)") (simp_all add: spoken_def conversation_def kept)
    qed (use 2 Control in \<open>auto simp: project_body_def project_abandon_eq spoken_def conversation_def
        split: if_splits\<close>)
  next
    case (Output ps f)
    then show ?thesis using 2
      by (cases f) (auto simp: project_body_def project_output_def Let_def spoken_def conversation_def)
  next
    case (ToolResult legacy ref oc ps)
    then show ?thesis using 2
      by (cases "ref \<in> pj_calls st") (auto simp: project_body_def spoken_def conversation_def)
  qed (use 2 in \<open>auto simp: project_body_def spoken_def conversation_def\<close>)
qed

lemma project_loop_spoken:
  assumes "pending_ok st" "\<forall>m \<in> set ms. control_ok m"
    and "fold_res (project_step source True consumed) st ms = Inr st'"
  shows "pending_ok st' \<and> spoken st' = spoken st @ map msg_id (filter (conversation source) ms)"
  using assms
proof (induction ms arbitrary: st)
  case (Cons m ms)
  obtain st1 where step: "project_step source True consumed st m = Inr st1"
    and rest: "fold_res (project_step source True consumed) st1 ms = Inr st'"
    using Cons.prems(3) by (auto simp: attempt_eq_Inr)
  have "pending_ok st1" using project_step_pending_ok [OF Cons.prems(1) _ step] Cons.prems(2) by simp
  then show ?case
    using Cons.IH [OF _ _ rest] Cons.prems(2) project_step_spoken [OF Cons.prems(1) step] by simp
qed simp

section \<open>Every message in exactly one turn\<close>

text \<open>
  C31. The turns partition the conversation: read one after the other, the
  messages of the turns of a source are exactly the inputs and outputs of that source, each
  once and in order; no message is lost or counted twice by a completion, an abandonment in
  the middle of the open tail, or the end of the log.
\<close>

theorem turns_partition_messages:
  assumes "\<forall>m \<in> set ms. control_ok m" "project ms source after_seq True = Inr turns"
  shows "concat (map turn_messages turns) = map msg_id (filter (conversation source) ms)"
proof -
  obtain st where run: "fold_res (project_step source True after_seq) (project_start after_seq) ms = Inr st"
    and turns: "turns = pj_turns st @ open_turn source st"
    using assms(2) by (auto simp: project_def attempt_eq_Inr)
  have "spoken st = map msg_id (filter (conversation source) ms)"
    using project_loop_spoken [OF pending_ok_start assms(1) run]
    by (simp add: spoken_def project_start_def)
  then show ?thesis by (cases "pj_pending st") (simp_all add: turns spoken_def open_turn_def)
qed

definition talk :: "message list" where
  "talk = map (\<lambda>(n, b). \<lparr>msg_id = ''m'' @ nat_text n, msg_session = ''s'', msg_seq = n,
      msg_recorded = 0, msg_author = ''u'', msg_source = ''c'', msg_body = b, msg_metadata = JObj []\<rparr>)
    [(0, Input []), (1, Output [] Complete), (2, Input []),
     (3, Output [ToolCall ''b'' (JObj [])] Continue),
     (4, ToolResult False \<lparr>ref_message = ''m3'', ref_part = 0\<rparr> Success []),
     (5, Input []), (6, Control AbandonAction 4 None), (7, Output [] Quiet), (8, Input [])]"

theorem turns_partition_messages_witness:
  "(case project talk ''c'' (-1) True of Inl _ \<Rightarrow> False | Inr turns \<Rightarrow> length turns = 4 \<and>
      concat (map turn_messages turns) = map msg_id (filter (conversation ''c'') talk))"
proof -
  have ok: "\<forall>m \<in> set talk. control_ok m" by (simp add: talk_def control_ok_def)
  have "case project talk ''c'' (-1) True of Inl _ \<Rightarrow> False | Inr turns \<Rightarrow> length turns = 4"
    by code_simp
  then obtain turns where turns: "project talk ''c'' (-1) True = Inr turns" "length turns = 4"
    by (auto split: sum.splits)
  then show ?thesis using turns_partition_messages [OF ok turns(1)] by simp
qed

section \<open>Projecting from a closed boundary\<close>

definition later :: "int \<Rightarrow> member list \<Rightarrow> member list" where
  "later b ms = filter (\<lambda>i. b < int (mem_seq i)) ms"

definition remaining :: "int \<Rightarrow> member list \<Rightarrow> member list" where
  "remaining b ms = filter (\<lambda>i. case mem_ref i of None \<Rightarrow> True
     | Some ref \<Rightarrow> ref \<in> pending_calls (later b ms)) (later b ms)"

text \<open>The full projection \<open>F\<close> against the one \<open>I\<close> that starts at \<open>b\<close>: before the boundary is
  closed, after it was closed, or when it was passed without being closed.\<close>

definition tail_meta :: "int \<Rightarrow> projection \<Rightarrow> projection \<Rightarrow> bool" where
  "tail_meta b F I \<longleftrightarrow> pj_session I = (if pj_previous F \<le> b then None else pj_session F) \<and>
     pj_previous I = max b (pj_previous F) \<and> pj_head I = max b (pj_head F)"

definition boundary_open :: "int \<Rightarrow> projection \<Rightarrow> projection \<Rightarrow> bool" where
  "boundary_open b F I \<longleftrightarrow> tail_meta b F I \<and> pj_after F < b \<and>
     (\<forall>u \<in> set (pj_turns F). turn_through u < b) \<and> pj_after I = b \<and> pj_turns I = [] \<and>
     pj_pending I = remaining b (pj_pending F) \<and> pj_calls I = pending_calls (later b (pj_pending F))"

definition boundary_closed :: "int \<Rightarrow> projection \<Rightarrow> projection \<Rightarrow> bool" where
  "boundary_closed b F I \<longleftrightarrow> tail_meta b F I \<and> b \<le> pj_after F \<and> pj_after I = pj_after F \<and>
     pj_turns I = filter (\<lambda>u. b < turn_through u) (pj_turns F) \<and>
     pj_pending I = pj_pending F \<and> pj_calls I = pj_calls F"

definition boundary_missed :: "int \<Rightarrow> projection \<Rightarrow> bool" where
  "boundary_missed b F \<longleftrightarrow> b \<le> pj_after F \<and> (\<forall>u \<in> set (pj_turns F). turn_through u \<noteq> b)"

lemma later_simps [simp]:
  "later b [] = []" "later b (xs @ ys) = later b xs @ later b ys"
  "later b (i # xs) = (if b < int (mem_seq i) then i # later b xs else later b xs)"
  by (simp_all add: later_def)

lemma remaining_Nil [simp]: "remaining b [] = []"
  by (simp add: remaining_def)

lemma remaining_snoc:
  assumes "\<And>j ref. j \<in> set ms \<Longrightarrow> mem_ref j = Some ref \<Longrightarrow> ref \<notin> set (mem_calls i)"
    and "\<And>ref. mem_ref i = Some ref \<Longrightarrow> ref \<notin> set (mem_calls i)"
  shows "remaining b (ms @ [i]) = remaining b ms @
    (if b < int (mem_seq i) \<and> (case mem_ref i of None \<Rightarrow> True | Some ref \<Rightarrow> ref \<in> pending_calls (later b ms))
     then [i] else [])"
proof (cases "b < int (mem_seq i)")
  case True
  let ?P = "\<lambda>cs j. case mem_ref j of None \<Rightarrow> True | Some ref \<Rightarrow> ref \<in> cs"
  let ?new = "pending_calls (later b ms) \<union> set (mem_calls i)"
  have 1: "filter (?P ?new) (later b ms) = filter (?P (pending_calls (later b ms))) (later b ms)"
    by (rule filter_cong) (use assms(1) in \<open>auto simp: later_def split: option.split\<close>)
  have 2: "?P ?new i = ?P (pending_calls (later b ms)) i"
    using assms(2) by (auto split: option.split)
  have 3: "pending_calls (later b (ms @ [i])) = ?new" using True by simp
  have 4: "later b (ms @ [i]) = later b ms @ [i]" using True by simp
  show ?thesis using True unfolding remaining_def 3 unfolding 4 by (simp add: 1 2)
next
  case False
  then have same: "later b (ms @ [i]) = later b ms" by simp
  show ?thesis using False unfolding remaining_def same by simp
qed

lemma build_turn_through [simp]: "turn_through (build_turn source a t e s ms) = t"
  by (simp add: build_turn_def)

lemma boundary_missed_step:
  assumes "boundary_missed b F" "pending_ok F" "project_step source True consumed F m = Inr F'"
  shows "boundary_missed b F'"
  using assms(3)
proof (cases rule: project_step_Inr)
  case 1
  then show ?thesis using assms(1) by (simp add: boundary_missed_def)
next
  case 2
  have "pj_after F < int (msg_seq m)" using assms(2) 2(3) by (simp add: pending_ok_def)
  then show ?thesis
    using 2 assms(1)
    by (cases "msg_body m")
      (auto simp: project_body_def project_output_def project_abandon_def Let_def boundary_missed_def
        split: if_splits finish.splits)
qed

lemma tail_meta_moved:
  assumes "tail_meta b F I" "pj_previous F < int (msg_seq m)" "pj_head F \<le> pj_previous F"
  shows "int (msg_seq m) \<le> b \<Longrightarrow> tail_meta b (moved F m) I"
    "int (msg_seq m) \<le> b \<Longrightarrow> tail_meta b (entered F m) I"
    "b < int (msg_seq m) \<Longrightarrow> tail_meta b (moved F m) (moved I m)"
    "b < int (msg_seq m) \<Longrightarrow> tail_meta b (entered F m) (entered I m)"
  using assms by (auto simp: tail_meta_def)

lemma tail_meta_cong:
  assumes "tail_meta b F I" "pj_session F' = pj_session F" "pj_previous F' = pj_previous F" "pj_head F' = pj_head F"
    "pj_session I' = pj_session I" "pj_previous I' = pj_previous I" "pj_head I' = pj_head I"
  shows "tail_meta b F' I'"
  using assms by (simp add: tail_meta_def)

lemma project_body_frame:
  assumes "project_body source incl consumed m st = Inr st'"
  shows "pj_session st' = pj_session st" "pj_previous st' = pj_previous st" "pj_head st' = pj_head st"
  using assms
  by (cases "msg_body m"; auto simp: project_body_def project_output_def project_abandon_def Let_def
        split: if_splits finish.splits)+

text \<open>A message past the boundary passes the guards of the incremental run as well.\<close>

lemma tail_step_eq:
  assumes "tail_meta b F I" "b < int (msg_seq m)" "project_step source True consumed F m = Inr F'"
  shows "project_step source True b I m =
    (if msg_source m \<noteq> source then Inr (moved I m) else project_body source True b m (entered I m))"
  using assms by (auto simp: project_step_eq tail_meta_def split: if_splits option.splits)

lemma boundary_closed_body:
  assumes rel: "boundary_closed b F I" and "pending_ok F" "a \<le> b" "b < int (msg_seq m)"
    and meta: "tail_meta b (entered F m) (entered I m)"
    and step: "project_body source True a m (entered F m) = Inr F'"
  shows "\<exists>I'. project_body source True b m (entered I m) = Inr I' \<and> boundary_closed b F' I'"
proof (cases "project_body source True b m (entered I m)")
  case (Inl e)
  then obtain through reason where "msg_body m = Control AbandonAction through reason"
      "\<not> int through \<le> b" "int through \<le> pj_after I"
    by (cases "msg_body m") (auto simp: project_body_def project_abandon_Inl split: if_split_asm)
  then show ?thesis using step rel assms(3) by (simp add: project_body_def project_abandon_eq boundary_closed_def)
next
  case (Inr I')
  have "tail_meta b F' I'"
    by (rule tail_meta_cong [OF meta]) (simp_all add: project_body_frame [OF step] project_body_frame [OF Inr])
  moreover have "b \<le> pj_after F' \<and> pj_after I' = pj_after F' \<and>
     pj_turns I' = filter (\<lambda>u. b < turn_through u) (pj_turns F') \<and>
     pj_pending I' = pj_pending F' \<and> pj_calls I' = pj_calls F'"
  proof (cases "msg_body m")
    case (Output ps f)
    then show ?thesis using rel Inr step assms(4)
      by (cases f) (auto simp: project_body_def project_output_def Let_def boundary_closed_def)
  next
    case (ToolResult legacy ref oc ps)
    let ?i = "\<lparr>mem_seq = msg_seq m, mem_id = msg_id m, mem_ref = Some ref, mem_calls = []\<rparr>"
    have "F' = (if ref \<in> pj_calls F then (entered F m)\<lparr>pj_pending := pj_pending F @ [?i]\<rparr> else entered F m)"
      using ToolResult step by (auto simp: project_body_def split: if_splits)
    moreover have "I' = (if ref \<in> pj_calls I then (entered I m)\<lparr>pj_pending := pj_pending I @ [?i]\<rparr> else entered I m)"
      using ToolResult Inr by (auto simp: project_body_def split: if_splits)
    ultimately show ?thesis using rel by (simp add: boundary_closed_def)
  next
    case (Control action through reason)
    show ?thesis
    proof (cases "action = AbandonAction \<and> \<not> int through \<le> a")
      case True
      have past: "\<not> int through \<le> pj_after F"
        using True step Control project_abandon_Inl [of source True a m through "entered F m" ValueError]
        by (auto simp: project_body_def)
      then have "\<not> int through \<le> b" using rel by (simp add: boundary_closed_def)
      then show ?thesis using True past Control rel Inr step
        by (auto simp: project_body_def project_abandon_eq boundary_closed_def)
    next
      case False
      then have "F' = entered F m" "I' = entered I m"
        using Control step Inr assms(3) by (auto simp: project_body_def project_abandon_eq split: if_split_asm)
      then show ?thesis using rel by (simp add: boundary_closed_def)
    qed
  qed (use rel Inr step in \<open>auto simp: project_body_def boundary_closed_def\<close>)
  ultimately show ?thesis using Inr by (simp add: boundary_closed_def)
qed

lemma boundary_closed_step:
  assumes rel: "boundary_closed b F I" and ok: "pending_ok F" "a \<le> b"
    and step: "project_step source True a F m = Inr F'"
  shows "b < int (msg_seq m) \<and>
    (\<exists>I'. project_step source True b I m = Inr I' \<and> boundary_closed b F' I')"
proof -
  have meta: "tail_meta b F I" using rel by (simp add: boundary_closed_def)
  have prev: "pj_previous F < int (msg_seq m)" using step by (cases rule: project_step_Inr) auto
  then have new: "b < int (msg_seq m)" using rel ok(1) by (simp add: boundary_closed_def pending_ok_def)
  have head: "pj_head F \<le> pj_previous F" using ok(1) by (simp add: pending_ok_def)
  note eq = tail_step_eq [OF meta new step]
  show ?thesis
    using step
  proof (cases rule: project_step_Inr)
    case 1
    then have "boundary_closed b F' (moved I m)"
      using rel tail_meta_moved(3) [OF meta prev head new] by (simp add: boundary_closed_def)
    then show ?thesis using 1 eq new by simp
  next
    case 2
    show ?thesis
      using boundary_closed_body [OF rel ok new tail_meta_moved(4) [OF meta prev head new] 2(2)] 2 eq new
      by simp
  qed
qed

definition fresh_for :: "projection \<Rightarrow> message \<Rightarrow> bool" where
  "fresh_for F m \<longleftrightarrow> (\<forall>c \<in> pj_calls F. ref_message c \<noteq> msg_id m)"

lemma call_refs_message: "c \<in> set (call_refs mid ps) \<Longrightarrow> ref_message c = mid"
  by (auto simp: call_refs_def)

text \<open>How the pending members and calls of the tail follow those of the full run.\<close>

lemma remaining_push:
  assumes "pending_ok F" "\<forall>c \<in> set (mem_calls i). c \<notin> pj_calls F" "mem_ref i \<noteq> None \<longrightarrow> mem_calls i = []"
  shows "remaining b (pj_pending F @ [i]) = remaining b (pj_pending F) @
    (if b < int (mem_seq i) \<and> (case mem_ref i of None \<Rightarrow> True
       | Some ref \<Rightarrow> ref \<in> pending_calls (later b (pj_pending F))) then [i] else [])"
  by (rule remaining_snoc) (use assms in \<open>auto simp: pending_ok_def\<close>)

lemma later_all:
  assumes "\<forall>i \<in> set ms. int (mem_seq i) \<le> b"
  shows "later b ms = []"
  using assms by (auto simp: later_def filter_empty_conv)

text \<open>An abandonment before the boundary changes nothing that remains after it; one at the
  boundary leaves exactly what remains.\<close>

lemma remaining_abandon:
  assumes "int through \<le> b" "\<forall>i \<in> set ms. mem_ref i \<noteq> None \<longrightarrow> mem_calls i = []"
  defines "rest \<equiv> filter (\<lambda>i. through < mem_seq i) ms"
  defines "kept \<equiv> filter (\<lambda>i. case mem_ref i of None \<Rightarrow> True | Some ref \<Rightarrow> ref \<in> pending_calls rest) rest"
  shows "pending_calls (later b kept) = pending_calls (later b ms)" "remaining b kept = remaining b ms"
proof -
  have l: "later b rest = later b ms"
    using assms(1) by (auto simp: later_def rest_def intro!: filter_cong)
  have lk: "later b kept = filter (\<lambda>i. case mem_ref i of None \<Rightarrow> True | Some ref \<Rightarrow> ref \<in> pending_calls rest) (later b ms)"
    unfolding l [symmetric] by (auto simp: later_def kept_def conj_commute)
  show calls: "pending_calls (later b kept) = pending_calls (later b ms)"
    unfolding lk by (rule pending_calls_filter) (use assms(2) in \<open>auto simp: later_def split: option.splits\<close>)
  have sub: "pending_calls (later b ms) \<subseteq> pending_calls rest"
    unfolding l [symmetric] by (rule pending_calls_mono) (auto simp: later_def)
  show "remaining b kept = remaining b ms"
    unfolding remaining_def calls unfolding lk filter_filter
    by (rule filter_cong) (use sub in \<open>auto split: option.splits\<close>)
qed

lemma boundary_open_old:
  assumes rel: "boundary_open b F I" and ok: "pending_ok F" and old: "int (msg_seq m) \<le> b"
    and ctl: "control_ok m"
    and step: "project_step source True a F m = Inr F'"
  shows "boundary_open b F' I \<or> boundary_closed b F' I"
  using step
proof (cases rule: project_step_Inr)
  case 1
  have "tail_meta b F' I"
    using rel ok 1 old by (auto simp: boundary_open_def pending_ok_def intro: tail_meta_moved(1))
  then show ?thesis using rel 1 by (simp add: boundary_open_def)
next
  case 2
  have below: "\<forall>i \<in> set (pj_pending F). int (mem_seq i) \<le> b"
    using ok old 2(3) by (auto simp: pending_ok_def)
  have F: "pj_after F < b" "\<forall>u \<in> set (pj_turns F). turn_through u < b" "pj_after I = b" "pj_turns I = []"
      "pj_pending I = []" "pj_calls I = {}"
    using rel later_all [OF below] by (auto simp: boundary_open_def remaining_def)
  have "tail_meta b (entered F m) I"
    using rel ok 2 old by (auto simp: boundary_open_def pending_ok_def intro: tail_meta_moved(2))
  then have meta: "tail_meta b F' I"
    by (rule tail_meta_cong) (simp_all add: project_body_frame [OF 2(2)])
  have below': "\<forall>i \<in> set (pj_pending F'). int (mem_seq i) \<le> b"
    using 2(2) below old by (cases "msg_body m")
      (auto simp: project_body_def project_output_def project_abandon_def Let_def split: if_splits finish.splits)
  have "pj_after F' < b \<and> (\<forall>u \<in> set (pj_turns F'). turn_through u < b) \<or>
      pj_after F' = b \<and> (\<forall>u \<in> set (pj_turns F'). turn_through u \<le> b) \<and> pj_pending F' = [] \<and> pj_calls F' = {}"
  proof (cases "msg_body m")
    case (Control action through reason)
    have "through < msg_seq m" using ctl Control by (simp add: control_ok_def)
    then show ?thesis using 2(2) F old Control
      by (auto simp: project_body_def project_abandon_def Let_def split: if_splits)
  next
    case (Output ps f)
    then show ?thesis using 2(2) F old
      by (cases f) (auto simp: project_body_def project_output_def Let_def less_imp_le)
  qed (use 2(2) F in \<open>auto simp: project_body_def split: if_splits\<close>)
  then show ?thesis
    using meta F later_all [OF below'] by (auto simp: boundary_open_def boundary_closed_def remaining_def
        filter_empty_conv not_less)
qed

lemma boundary_open_body:
  assumes rel: "boundary_open b F I" and ok: "pending_ok F" "a < b" and new: "b < int (msg_seq m)"
    and fresh: "fresh_for F m" and meta: "tail_meta b (entered F m) (entered I m)"
    and step: "project_body source True a m (entered F m) = Inr F'"
  shows "boundary_missed b F' \<or> (\<exists>I'. project_body source True b m (entered I m) = Inr I' \<and>
    (boundary_open b F' I' \<or> boundary_closed b F' I'))"
proof (cases "\<exists>I'. project_body source True b m (entered I m) = Inr I'")
  case False
  then have "\<exists>through reason. msg_body m = Control AbandonAction through reason \<and> b < int through"
    using rel by (cases "msg_body m") (auto simp: project_body_def project_abandon_def Let_def boundary_open_def
      split: if_splits)
  moreover have "\<And>u. u \<in> set (pj_turns F) \<Longrightarrow> turn_through u \<noteq> b"
    using rel by (auto simp: boundary_open_def)
  ultimately have "boundary_missed b F'"
    using rel step ok(2)
    by (auto simp: project_body_def project_abandon_def Let_def boundary_open_def boundary_missed_def
      split: if_splits)
  then show ?thesis ..
next
  case True
  then obtain I' where I': "project_body source True b m (entered I m) = Inr I'" by blast
  have meta': "tail_meta b F' I'"
    by (rule tail_meta_cong [OF meta]) (simp_all add: project_body_frame [OF step] project_body_frame [OF I'])
  have F: "pj_after F < b" "\<forall>u \<in> set (pj_turns F). turn_through u < b" "pj_after I = b" "pj_turns I = []"
      "pj_pending I = remaining b (pj_pending F)" "pj_calls I = pending_calls (later b (pj_pending F))"
    using rel by (auto simp: boundary_open_def)
  let ?goal = "boundary_missed b F' \<or> boundary_open b F' I' \<or> boundary_closed b F' I'"
  have ?goal
  proof (cases "msg_body m")
    case (Input ps)
    then have "boundary_open b F' I'" using step I' F meta' new
      by (auto simp: project_body_def boundary_open_def remaining_push [OF ok(1)])
    then show ?thesis by blast
  next
    case (Output ps f)
    have ne: "\<And>u. u \<in> set (pj_turns F) \<Longrightarrow> turn_through u \<noteq> b" using F(2) by auto
    have refs: "\<forall>c \<in> set (call_refs (msg_id m) ps). c \<notin> pj_calls F"
      using fresh call_refs_message by (fastforce simp: fresh_for_def)
    show ?thesis
    proof (cases f)
      case Continue
      then have "boundary_open b F' I'" using Output step I' F meta' new refs
        by (auto simp: project_body_def project_output_def Let_def boundary_open_def remaining_push [OF ok(1)])
      then show ?thesis by blast
    next
      case Complete
      then have "boundary_missed b F'" using Output step F(1) new
        by (auto dest: ne simp: project_body_def project_output_def Let_def boundary_missed_def)
      then show ?thesis by blast
    next
      case Quiet
      then have "boundary_missed b F'" using Output step F(1) new
        by (auto dest: ne simp: project_body_def project_output_def Let_def boundary_missed_def)
      then show ?thesis by blast
    qed
  next
    case (ToolResult legacy ref oc ps)
    have sub: "pending_calls (later b (pj_pending F)) \<subseteq> pj_calls F"
      using ok(1) pending_calls_mono [of "later b (pj_pending F)" "pj_pending F"]
      by (auto simp: pending_ok_def later_def)
    let ?i = "\<lparr>mem_seq = msg_seq m, mem_id = msg_id m, mem_ref = Some ref, mem_calls = []\<rparr>"
    have F': "F' = (if ref \<in> pj_calls F then (entered F m)\<lparr>pj_pending := pj_pending F @ [?i]\<rparr> else entered F m)"
      using ToolResult step by (auto simp: project_body_def split: if_splits)
    have "I' = (if ref \<in> pj_calls I then (entered I m)\<lparr>pj_pending := pj_pending I @ [?i]\<rparr> else entered I m)"
      using ToolResult I' by (auto simp: project_body_def split: if_splits)
    moreover have push: "remaining b (pj_pending F @ [?i]) = remaining b (pj_pending F) @
        (if ref \<in> pending_calls (later b (pj_pending F)) then [?i] else [])"
      using new by (subst remaining_push [OF ok(1)]) simp_all
    ultimately have "boundary_open b F' I'"
      using F sub new meta' unfolding F' boundary_open_def by auto
    then show ?thesis by blast
  next
    case (Control action through reason)
    have obs: "\<forall>i \<in> set (pj_pending F). mem_ref i \<noteq> None \<longrightarrow> mem_calls i = []"
      using ok(1) by (auto simp: pending_ok_def)
    show ?thesis
    proof (cases "action = AbandonAction \<and> \<not> int through \<le> a")
      case False
      then have same: "F' = entered F m" "I' = entered I m"
        using step I' Control F(3) ok(2) by (auto simp: project_body_def project_abandon_def split: if_splits)
      then show ?thesis using F meta' by (simp add: boundary_open_def)
    next
      case abandon: True
      then have F': "pj_after F' = int through" "pj_after F < int through"
          "pj_pending F' = filter (\<lambda>i. case mem_ref i of None \<Rightarrow> True | Some ref \<Rightarrow>
             ref \<in> pending_calls (filter (\<lambda>i. through < mem_seq i) (pj_pending F)))
             (filter (\<lambda>i. through < mem_seq i) (pj_pending F))"
          "pj_calls F' = pending_calls (filter (\<lambda>i. through < mem_seq i) (pj_pending F))"
          "\<forall>u \<in> set (pj_turns F'). turn_through u < b \<or> turn_through u = int through"
        using step Control F(2) by (auto simp: project_body_def project_abandon_def Let_def split: if_splits)
      consider "int through < b" | "int through = b" | "b < int through" by linarith
      then show ?thesis
      proof cases
        case 1
        then have "I' = entered I m"
          using I' Control abandon by (simp add: project_body_def project_abandon_def)
        moreover have "\<forall>u \<in> set (pj_turns F'). turn_through u < b" using F'(5) 1 by auto
        ultimately have "boundary_open b F' I'"
          using F F'(1) meta' 1 remaining_abandon [OF less_imp_le [OF 1] obs, folded F'(3)]
          by (simp add: boundary_open_def)
        then show ?thesis by blast
      next
        case 2
        then have same: "I' = entered I m"
          using I' Control abandon by (simp add: project_body_def project_abandon_def)
        have rest: "filter (\<lambda>i. through < mem_seq i) (pj_pending F) = later b (pj_pending F)"
          unfolding later_def using 2 by (intro filter_cong) auto
        have "filter (\<lambda>u. b < turn_through u) (pj_turns F') = []"
          using F'(5) 2 by (auto simp: filter_empty_conv)
        moreover have "pj_pending F' = remaining b (pj_pending F)"
          unfolding F'(3) remaining_def rest ..
        moreover have "pj_calls F' = pending_calls (later b (pj_pending F))"
          unfolding F'(4) rest ..
        ultimately have "boundary_closed b F' I'"
          using F meta' 2 F'(1) by (simp add: boundary_closed_def same)
        then show ?thesis by blast
      next
        case 3
        then show ?thesis using F' by (fastforce simp: boundary_missed_def)
      qed
    qed
  qed
  then show ?thesis using I' by blast
qed

lemma boundary_open_step:
  assumes rel: "boundary_open b F I" and ok: "pending_ok F" "a < b" and new: "b < int (msg_seq m)"
    and fresh: "fresh_for F m" and step: "project_step source True a F m = Inr F'"
  shows "boundary_missed b F' \<or> (\<exists>I'. project_step source True b I m = Inr I' \<and>
    (boundary_open b F' I' \<or> boundary_closed b F' I'))"
proof -
  have meta: "tail_meta b F I" using rel by (simp add: boundary_open_def)
  have prev: "pj_previous F < int (msg_seq m)" using step by (cases rule: project_step_Inr) auto
  have head: "pj_head F \<le> pj_previous F" using ok(1) by (simp add: pending_ok_def)
  note eq = tail_step_eq [OF meta new step]
  show ?thesis
    using step
  proof (cases rule: project_step_Inr)
    case 1
    then have "boundary_open b F' (moved I m)"
      using rel tail_meta_moved(3) [OF meta prev head new] by (simp add: boundary_open_def)
    then show ?thesis using 1 eq by simp
  next
    case 2
    show ?thesis
      using boundary_open_body [OF rel ok new fresh tail_meta_moved(4) [OF meta prev head new] 2(2)] 2 eq
      by simp
  qed
qed

lemma project_step_calls:
  assumes "project_step source incl a F m = Inr F'" "c \<in> pj_calls F'" "pending_ok F"
  shows "c \<in> pj_calls F \<or> ref_message c = msg_id m"
  using assms(1)
proof (cases rule: project_step_Inr)
  case 2
  have sub: "x \<in> pending_calls (filter P (pj_pending F)) \<Longrightarrow> x \<in> pj_calls F" for P x
    using assms(3) pending_calls_mono [of "filter P (pj_pending F)"] by (auto simp: pending_ok_def)
  show ?thesis using 2(2) assms(2) 
    by (cases "msg_body m") (auto dest: sub call_refs_message simp: project_body_def project_output_def project_abandon_def Let_def
      split: if_splits finish.splits)
qed (use assms(2) in simp)

lemma boundary_missed_loop:
  assumes "boundary_missed b F" "pending_ok F" "\<forall>m \<in> set ms. control_ok m"
    and "fold_res (project_step source True a) F ms = Inr F'"
  shows "boundary_missed b F'"
  using assms
proof (induction ms arbitrary: F)
  case (Cons m ms)
  then obtain F1 where step: "project_step source True a F m = Inr F1"
    and rest: "fold_res (project_step source True a) F1 ms = Inr F'"
    by (auto simp: attempt_eq_Inr)
  show ?case
    by (rule Cons.IH [OF boundary_missed_step [OF Cons.prems(1,2) step]
        project_step_pending_ok [OF Cons.prems(2) _ step] _ rest]) (use Cons.prems(3) in auto)
qed simp

text \<open>The whole run against the run on the tail.\<close>

lemma project_loop_tail:
  assumes "pending_ok F" "a < b" "\<forall>m \<in> set ms. control_ok m" "distinct (map msg_id ms)"
    and "\<forall>c \<in> pj_calls F. ref_message c \<notin> set (map msg_id ms)"
    and "boundary_open b F I \<or> boundary_closed b F I \<or> boundary_missed b F"
    and "fold_res (project_step source True a) F ms = Inr F'"
  shows "boundary_missed b F' \<or>
    (\<exists>I'. fold_res (project_step source True b) I (filter (\<lambda>m. b < int (msg_seq m)) ms) = Inr I' \<and>
      (boundary_open b F' I' \<or> boundary_closed b F' I'))"
  using assms
proof (induction ms arbitrary: F I)
  case (Cons m ms)
  obtain F1 where step: "project_step source True a F m = Inr F1"
    and rest: "fold_res (project_step source True a) F1 ms = Inr F'"
    using Cons.prems(7) by (auto simp: attempt_eq_Inr)
  have ctl: "control_ok m" "\<forall>m \<in> set ms. control_ok m" using Cons.prems(3) by auto
  have ok1: "pending_ok F1" by (rule project_step_pending_ok [OF Cons.prems(1) ctl(1) step])
  have fresh: "fresh_for F m" using Cons.prems(5) by (auto simp: fresh_for_def)
  have ids: "\<forall>c \<in> pj_calls F1. ref_message c \<notin> set (map msg_id ms)"
    using project_step_calls [OF step _ Cons.prems(1)] Cons.prems(4,5) by fastforce
  note IH = Cons.IH [OF ok1 Cons.prems(2) ctl(2) _ ids _ rest]
  from Cons.prems(6) consider "boundary_open b F I" "int (msg_seq m) \<le> b"
    | "boundary_open b F I" "b < int (msg_seq m)" | "boundary_closed b F I" | "boundary_missed b F"
    by linarith
  then show ?case
  proof cases
    case 1
    then show ?thesis
      using boundary_open_old [OF 1(1) Cons.prems(1) 1(2) ctl(1) step] IH [of I] Cons.prems(4) by auto
  next
    case 2
    from boundary_open_step [OF 2(1) Cons.prems(1,2) 2(2) fresh step] show ?thesis
    proof
      assume "boundary_missed b F1"
      then show ?thesis using IH [of I] Cons.prems(4) boundary_missed_loop [OF _ ok1 ctl(2) rest] by blast
    next
      assume "\<exists>I'. project_step source True b I m = Inr I' \<and> (boundary_open b F1 I' \<or> boundary_closed b F1 I')"
      then obtain I1 where "project_step source True b I m = Inr I1"
        "boundary_open b F1 I1 \<or> boundary_closed b F1 I1" by blast
      then show ?thesis using IH [of I1] Cons.prems(4) 2(2) by auto
    qed
  next
    case 3
    then show ?thesis
      using boundary_closed_step [OF 3 Cons.prems(1) less_imp_le [OF Cons.prems(2)] step] IH Cons.prems(4)
      by auto
  next
    case 4
    then show ?thesis
      using boundary_missed_loop [OF boundary_missed_step [OF 4 Cons.prems(1) step] ok1 ctl(2) rest] by blast
  qed
qed auto

text \<open>
  C4. Incremental projection is exact: projecting only the messages after the
  end of a turn that the full projection closed, by an output or by an abandonment, gives
  precisely the turns of the full projection that end after that boundary, the open one
  included.
\<close>

theorem incremental_projection_exact:
  assumes "\<forall>m \<in> set ms. control_ok m" "distinct (map msg_id ms)"
    and "project ms source after_seq True = Inr turns"
    and "t \<in> set turns" "turn_status t \<noteq> OpenTurn"
  shows "project (filter (\<lambda>m. turn_through t < int (msg_seq m)) ms) source (turn_through t) True =
    Inr (filter (\<lambda>u. turn_through t < turn_through u) turns)"
proof -
  let ?b = "turn_through t"
  let ?F = "project_start after_seq"
  let ?I = "project_start ?b"
  obtain F' where run: "fold_res (project_step source True after_seq) ?F ms = Inr F'"
    and turns: "turns = pj_turns F' @ open_turn source F'"
    using assms(3) by (auto simp: project_def attempt_eq_Inr)
  have ok: "pending_ok F'" using project_loop_spoken [OF pending_ok_start assms(1) run] by blast
  have t: "t \<in> set (pj_turns F')"
    using assms(4,5) by (auto simp: turns open_turn_def build_turn_def split: if_splits)
  have "\<not> boundary_missed ?b F'" using t by (auto simp: boundary_missed_def)
  moreover have "after_seq < ?b"
  proof (rule ccontr)
    assume "\<not> after_seq < ?b"
    then have "boundary_missed ?b ?F" by (simp add: boundary_missed_def project_start_def)
    then have "boundary_missed ?b F'"
      by (rule boundary_missed_loop [OF _ pending_ok_start assms(1) run])
    then show False using calculation by blast
  qed
  moreover have "boundary_open ?b ?F ?I" if "after_seq < ?b"
    using that by (simp add: boundary_open_def project_start_def tail_meta_def)
  ultimately obtain I' where
    tail: "fold_res (project_step source True ?b) ?I (filter (\<lambda>m. ?b < int (msg_seq m)) ms) = Inr I'"
    and rel: "boundary_open ?b F' I' \<or> boundary_closed ?b F' I'"
    using project_loop_tail [OF pending_ok_start _ assms(1,2) _ _ run, of ?b ?I]
    by (auto simp: project_start_def)
  have closed: "boundary_closed ?b F' I'" using rel t by (auto simp: boundary_open_def)
  have "open_turn source I' = filter (\<lambda>u. ?b < turn_through u) (open_turn source F')"
  proof (cases "pj_pending F' = []")
    case False
    then obtain i where "i \<in> set (pj_pending F')" by (cases "pj_pending F'") auto
    then have "?b < pj_head F'" using ok closed by (force simp: pending_ok_def boundary_closed_def)
    then show ?thesis using closed False
      by (simp add: open_turn_def boundary_closed_def tail_meta_def max_def)
  qed (use closed in \<open>simp add: open_turn_def boundary_closed_def\<close>)
  then show ?thesis using tail closed by (simp add: project_def turns boundary_closed_def)
qed

theorem incremental_projection_exact_witness:
  "(case project talk ''c'' (-1) True of Inl _ \<Rightarrow> False | Inr turns \<Rightarrow>
      turn_through (turns ! 1) = 4 \<and> turn_status (turns ! 1) = AbandonedTurn \<and>
      project (filter (\<lambda>m. 4 < int (msg_seq m)) talk) ''c'' 4 True =
        Inr (filter (\<lambda>u. 4 < turn_through u) turns))"
proof -
  have ok: "\<forall>m \<in> set talk. control_ok m" by (simp add: talk_def control_ok_def)
  have dist: "distinct (map msg_id talk)" by code_simp
  have "case project talk ''c'' (-1) True of Inl _ \<Rightarrow> False | Inr turns \<Rightarrow>
      1 < length turns \<and> turn_through (turns ! 1) = 4 \<and> turn_status (turns ! 1) = AbandonedTurn"
    by code_simp
  then obtain turns where turns: "project talk ''c'' (-1) True = Inr turns" "1 < length turns"
      "turn_through (turns ! 1) = 4" "turn_status (turns ! 1) = AbandonedTurn"
    by (auto split: sum.splits)
  then show ?thesis
    using incremental_projection_exact [OF ok dist turns(1), of "turns ! 1"] by simp
qed

section \<open>The effect a turn declares\<close>

text \<open>\<open>post_commit_effect\<close> and \<open>set_post_commit_effect\<close> of the contract, on the turn's metadata
  as key-value pairs.\<close>

datatype post_commit = Allow | Suppress

fun post_commit_text :: "post_commit \<Rightarrow> string" where
  "post_commit_text Allow = ''allow''"
| "post_commit_text Suppress = ''suppress''"

definition post_commit_of :: "json \<Rightarrow> post_commit res" where
  "post_commit_of v =
     (if v = JStr ''allow'' then Inr Allow else if v = JStr ''suppress'' then Inr Suppress
      else Inl ValueError)"

definition post_commit_effect :: "(string \<times> json) list option \<Rightarrow> post_commit res" where
  "post_commit_effect metadata = (case metadata of
     None \<Rightarrow> Inr Allow
   | Some kvs \<Rightarrow> (case map_of kvs ''effects'' of
       None \<Rightarrow> Inr Allow
     | Some JNull \<Rightarrow> Inr Allow
     | Some (JObj effects) \<Rightarrow> (case map_of effects ''post_commit'' of
         None \<Rightarrow> Inr Allow
       | Some JNull \<Rightarrow> Inr Allow
       | Some v \<Rightarrow> post_commit_of v)
     | Some _ \<Rightarrow> Inl ValueError))"

definition set_post_commit_effect ::
  "(string \<times> json) list \<Rightarrow> post_commit \<Rightarrow> (string \<times> json) list res" where
  "set_post_commit_effect kvs effect =
     attempt (case map_of kvs ''effects'' of
         None \<Rightarrow> Inr []
       | Some JNull \<Rightarrow> Inr []
       | Some (JObj effects) \<Rightarrow> Inr effects
       | Some _ \<Rightarrow> Inl ValueError) (\<lambda>effects.
     Inr (dict_put ''effects''
       (JObj (dict_put ''post_commit'' (JStr (post_commit_text effect)) effects)) kvs))"

definition suppresses_post_commit :: "(string \<times> json) list option \<Rightarrow> bool res" where
  "suppresses_post_commit metadata =
     attempt (post_commit_effect metadata) (\<lambda>e. Inr (e = Suppress))"

end
