(* ===== verification/Iso_Time.thy ===== *)
theory Iso_Time
  imports Json
begin

text \<open>
  The times the owners store: \<open>datetime\<close> with an offset in minutes, its \<open>isoformat\<close> text
  and \<open>fromisoformat\<close> on the texts \<open>YYYY-MM-DD[THH[:MM[:SS[.fff[fff]]]][Z|+HH:MM]]\<close>, the
  forms that \<open>isoformat\<close> writes and their prefixes; other forms of ISO 8601 are rejected here.
\<close>

record moment =
  mo_year :: nat
  mo_month :: nat
  mo_day :: nat
  mo_hour :: nat
  mo_minute :: nat
  mo_second :: nat
  mo_micro :: nat
  mo_offset :: "int option"

definition leap_year :: "nat \<Rightarrow> bool" where
  "leap_year y \<longleftrightarrow> y mod 4 = 0 \<and> (y mod 100 \<noteq> 0 \<or> y mod 400 = 0)"

definition month_lengths :: "nat \<Rightarrow> nat list" where
  "month_lengths y = [31, if leap_year y then 29 else 28, 31, 30, 31, 30, 31, 31, 30, 31, 30, 31]"

definition days_in_month :: "nat \<Rightarrow> nat \<Rightarrow> nat" where
  "days_in_month y m = (if 1 \<le> m \<and> m \<le> 12 then month_lengths y ! (m - 1) else 0)"

definition moment_ok :: "moment \<Rightarrow> bool" where
  "moment_ok t \<longleftrightarrow> 1 \<le> mo_year t \<and> mo_year t \<le> 9999 \<and> 1 \<le> mo_day t \<and>
     mo_day t \<le> days_in_month (mo_year t) (mo_month t) \<and> mo_hour t < 24 \<and> mo_minute t < 60 \<and>
     mo_second t < 60 \<and> mo_micro t < 1000000 \<and>
     (case mo_offset t of None \<Rightarrow> True | Some z \<Rightarrow> -1440 < z \<and> z < 1440)"

lemma moment_ok_month: "moment_ok t \<Longrightarrow> 1 \<le> mo_month t \<and> mo_month t \<le> 12"
  by (auto simp: moment_ok_def days_in_month_def split: if_splits)

lemma days_in_month_bound: "days_in_month y m \<le> 31"
proof -
  have "\<forall>k < 12. month_lengths y ! k \<le> 31"
    by (simp add: month_lengths_def All_less_Suc2 eval_nat_numeral)
  then show ?thesis by (auto simp: days_in_month_def)
qed

text \<open>The ordinal of the date (\<open>date.toordinal\<close>) and the microseconds of an aware time on the
  universal time line; aware times are compared by it.\<close>

definition ordinal :: "nat \<Rightarrow> nat \<Rightarrow> nat \<Rightarrow> nat" where
  "ordinal y m d = (y - 1) * 365 + (y - 1) div 4 - (y - 1) div 100 + (y - 1) div 400 +
     sum_list (take (m - 1) (month_lengths y)) + d"

definition instant :: "moment \<Rightarrow> int" where
  "instant t = (((int (ordinal (mo_year t) (mo_month t) (mo_day t)) * 24 + int (mo_hour t)) * 60 +
     int (mo_minute t) - (case mo_offset t of None \<Rightarrow> 0 | Some z \<Rightarrow> z)) * 60 + int (mo_second t)) * 1000000 +
     int (mo_micro t)"

section \<open>Fixed-width numbers\<close>

primrec pad :: "nat \<Rightarrow> nat \<Rightarrow> string" where
  "pad 0 n = []"
| "pad (Suc w) n = pad w (n div 10) @ [digit_char (n mod 10)]"

declare digit_char.simps [simp del]

definition digit_value :: "char \<Rightarrow> nat option" where
  "digit_value c = (let n = of_char c :: nat in if 48 \<le> n \<and> n \<le> 57 then Some (n - 48) else None)"

definition read_num :: "string \<Rightarrow> nat option" where
  "read_num s = fold (\<lambda>c acc. case (acc, digit_value c) of
     (Some n, Some d) \<Rightarrow> Some (10 * n + d) | _ \<Rightarrow> None) s (Some 0)"

lemma digit_value_char [simp]: "d < 10 \<Longrightarrow> digit_value (digit_char d) = Some d"
  by (simp add: digit_value_def digit_char.simps)

lemma length_pad [simp]: "length (pad w n) = w"
  by (induction w arbitrary: n) auto

lemma read_num_pad [simp]: "n < 10 ^ w \<Longrightarrow> read_num (pad w n) = Some n"
proof (induction w arbitrary: n)
  case (Suc w)
  then have "read_num (pad w (n div 10)) = Some (n div 10)" by (simp add: less_mult_imp_div_less mult.commute)
  moreover have "read_num (pad (Suc w) n) =
      (case (read_num (pad w (n div 10)), digit_value (digit_char (n mod 10))) of
         (Some n, Some d) \<Rightarrow> Some (10 * n + d) | _ \<Rightarrow> None)"
    by (simp add: read_num_def del: digit_value_char)
  ultimately show ?case by simp
qed (simp add: read_num_def)

lemma pad_digits: "\<forall>c \<in> set (pad w n). \<exists>d < 10. c = digit_char d"
proof (induction w arbitrary: n)
  case (Suc w)
  have "n mod 10 < 10" by simp
  then have "\<exists>d < 10. digit_char (n mod 10) = digit_char d" by blast
  then show ?case using Suc by auto
qed simp

definition zone_start :: "char \<Rightarrow> bool" where
  "zone_start c \<longleftrightarrow> c = CHR ''+'' \<or> c = CHR ''-'' \<or> c = CHR ''Z''"

lemma pad_no_zone: "c \<in> set (pad w n) \<Longrightarrow> \<not> zone_start c"
proof -
  assume "c \<in> set (pad w n)"
  then obtain d where "d < 10" "c = digit_char d" using pad_digits by blast
  then have "digit_value c \<noteq> None" by simp
  then show "\<not> zone_start c" by (auto simp: zone_start_def digit_value_def)
qed

lemma separators_no_zone: "\<not> zone_start CHR '':''" "\<not> zone_start CHR ''.''"
  by (simp_all add: zone_start_def)

section \<open>The text\<close>

definition clock_text :: "moment \<Rightarrow> string" where
  "clock_text t = pad 2 (mo_hour t) @ '':'' @ pad 2 (mo_minute t) @ '':'' @ pad 2 (mo_second t) @
     (if mo_micro t = 0 then [] else ''.'' @ pad 6 (mo_micro t))"

definition zone_text :: "int option \<Rightarrow> string" where
  "zone_text z = (case z of None \<Rightarrow> []
   | Some n \<Rightarrow> (if n < 0 then ''-'' else ''+'') @ pad 2 (nat \<bar>n\<bar> div 60) @ '':'' @ pad 2 (nat \<bar>n\<bar> mod 60))"

definition iso_text :: "moment \<Rightarrow> string" where
  "iso_text t = pad 4 (mo_year t) @ ''-'' @ pad 2 (mo_month t) @ ''-'' @ pad 2 (mo_day t) @ ''T'' @
     clock_text t @ zone_text (mo_offset t)"

text \<open>A number of \<open>w\<close> digits after the separator \<open>sep\<close>, and the rest.\<close>

definition read_after :: "string \<Rightarrow> nat \<Rightarrow> string \<Rightarrow> (nat \<times> string) option" where
  "read_after sep w s =
     (if take (length sep) s \<noteq> sep \<or> length s < length sep + w then None
      else map_option (\<lambda>n. (n, drop (length sep + w) s)) (read_num (take w (drop (length sep) s))))"

lemma read_after_pad [simp]:
  "n < 10 ^ w \<Longrightarrow> read_after sep w (sep @ pad w n @ rest) = Some (n, rest)"
  by (simp add: read_after_def)

definition parse_clock :: "string \<Rightarrow> (nat \<times> nat \<times> nat \<times> nat) option" where
  "parse_clock s = Option.bind (read_after [] 2 s) (\<lambda>(h, s1).
     if s1 = [] then Some (h, 0, 0, 0)
     else Option.bind (read_after '':'' 2 s1) (\<lambda>(m, s2).
       if s2 = [] then Some (h, m, 0, 0)
       else Option.bind (read_after '':'' 2 s2) (\<lambda>(sec, s3).
         if s3 = [] then Some (h, m, sec, 0)
         else if length s3 = 4 then map_option (\<lambda>(ms, _). (h, m, sec, ms * 1000)) (read_after ''.'' 3 s3)
         else if length s3 = 7 then map_option (\<lambda>(us, _). (h, m, sec, us)) (read_after ''.'' 6 s3)
         else None)))"

definition parse_zone :: "string \<Rightarrow> int option option" where
  "parse_zone s =
     (if s = [] then Some None
      else if s = ''Z'' then Some (Some 0)
      else if hd s = CHR ''+'' \<or> hd s = CHR ''-'' then
        Option.bind (read_after [] 2 (tl s)) (\<lambda>(h, s1).
        Option.bind (read_after '':'' 2 s1) (\<lambda>(m, s2).
          if s2 \<noteq> [] \<or> 60 \<le> m then None
          else Some (Some ((if hd s = CHR ''-'' then -1 else 1) * int (h * 60 + m)))))
      else None)"

definition parse_iso :: "string \<Rightarrow> moment option" where
  "parse_iso s =
     Option.bind (read_after [] 4 s) (\<lambda>(y, s1).
     Option.bind (read_after ''-'' 2 s1) (\<lambda>(mo, s2).
     Option.bind (read_after ''-'' 2 s2) (\<lambda>(d, s3).
     Option.bind (if s3 = [] then Some (0, 0, 0, 0)
       else parse_clock (takeWhile (\<lambda>c. \<not> zone_start c) (tl s3))) (\<lambda>(h, mi, sec, us).
     Option.bind (if s3 = [] then Some None
       else parse_zone (dropWhile (\<lambda>c. \<not> zone_start c) (tl s3))) (\<lambda>z.
       let t = \<lparr>mo_year = y, mo_month = mo, mo_day = d, mo_hour = h, mo_minute = mi,
         mo_second = sec, mo_micro = us, mo_offset = z\<rparr> in
       if moment_ok t then Some t else None)))))"

lemma parse_clock_text:
  assumes "moment_ok t"
  shows "parse_clock (clock_text t) = Some (mo_hour t, mo_minute t, mo_second t, mo_micro t)"
proof -
  have b: "mo_hour t < 10 ^ 2" "mo_minute t < 10 ^ 2" "mo_second t < 10 ^ 2" "mo_micro t < 10 ^ 6"
    using assms by (auto simp: moment_ok_def)
  have h: "read_after [] 2 (pad 2 (mo_hour t) @ r) = Some (mo_hour t, r)" for r
    using read_after_pad [OF b(1), of "[]"] by simp
  have us: "read_after ''.'' 6 (CHR ''.'' # pad 6 (mo_micro t)) = Some (mo_micro t, [])"
    using read_after_pad [OF b(4), of "''.''" "[]"] by simp
  show ?thesis
    using read_after_pad [OF b(2), of "'':''"] read_after_pad [OF b(3), of "'':''"]
      read_after_pad [OF b(3), of "'':''" "[]"] us
    by (simp add: parse_clock_def clock_text_def h)
qed

lemma parse_zone_text:
  assumes "moment_ok t"
  shows "parse_zone (zone_text (mo_offset t)) = Some (mo_offset t)"
proof (cases "mo_offset t")
  case (Some n)
  define a where "a = nat \<bar>n\<bar>"
  have "a < 1440" using assms Some by (auto simp: moment_ok_def a_def)
  then have b: "a div 60 < 10 ^ 2" "a mod 60 < 10 ^ 2" by auto
  have 1: "read_after [] 2 (pad 2 (a div 60) @ r) = Some (a div 60, r)" for r
    using read_after_pad [OF b(1), of "[]"] by simp
  have 2: "read_after '':'' 2 (CHR '':'' # pad 2 (a mod 60)) = Some (a mod 60, [])"
    using read_after_pad [OF b(2), of "'':''" "[]"] by simp
  have shape: "zone_text (Some n) = (if n < 0 then ''-'' else ''+'') @ pad 2 (a div 60) @ '':'' @ pad 2 (a mod 60)"
    by (simp only: zone_text_def a_def option.case)
  have "parse_zone (zone_text (Some n)) = Some (Some ((if n < 0 then -1 else 1) * int (a div 60 * 60 + a mod 60)))"
    unfolding shape parse_zone_def by (cases "n < 0") (simp_all add: 1 2 del: of_nat_add of_nat_mult)
  moreover have "(if n < 0 then -1 else 1) * int (a div 60 * 60 + a mod 60) = n" by (simp add: a_def)
  ultimately show ?thesis using Some by simp
qed (simp add: parse_zone_def zone_text_def)

lemma parse_iso_text [simp]:
  assumes "moment_ok t"
  shows "parse_iso (iso_text t) = Some t"
proof -
  have b: "mo_year t < 10 ^ 4" "mo_month t < 10 ^ 2" "mo_day t < 10 ^ 2"
    using assms moment_ok_month [OF assms] days_in_month_bound [of "mo_year t" "mo_month t"]
    by (auto simp: moment_ok_def)
  have y: "read_after [] 4 (pad 4 (mo_year t) @ r) = Some (mo_year t, r)" for r
    using read_after_pad [OF b(1), of "[]"] by simp
  have no: "\<not> zone_start c" if "c \<in> set (clock_text t)" for c
    using that by (auto simp: clock_text_def pad_no_zone separators_no_zone split: if_splits)
  have z: "zone_text (mo_offset t) = [] \<or> zone_start (hd (zone_text (mo_offset t)))"
    by (auto simp: zone_text_def zone_start_def split: option.splits)
  have take: "takeWhile (\<lambda>c. \<not> zone_start c) (clock_text t @ zone_text (mo_offset t)) = clock_text t"
    using no z by (cases "zone_text (mo_offset t)") (auto simp: takeWhile_append2)
  have drop: "dropWhile (\<lambda>c. \<not> zone_start c) (clock_text t @ zone_text (mo_offset t)) = zone_text (mo_offset t)"
    using no z by (cases "zone_text (mo_offset t)") (auto simp: dropWhile_append2)
  have same: "\<lparr>mo_year = mo_year t, mo_month = mo_month t, mo_day = mo_day t, mo_hour = mo_hour t,
      mo_minute = mo_minute t, mo_second = mo_second t, mo_micro = mo_micro t, mo_offset = mo_offset t\<rparr> = t"
    by simp
  show ?thesis
    using read_after_pad [OF b(2), of "''-''"] read_after_pad [OF b(3), of "''-''"]
      parse_clock_text [OF assms] parse_zone_text [OF assms] assms
    by (simp add: parse_iso_def iso_text_def y take drop Let_def same)
qed

lemma parse_iso_ok: "parse_iso s = Some t \<Longrightarrow> moment_ok t"
  by (auto simp: parse_iso_def Let_def bind_eq_Some_conv split: if_splits prod.splits)

end
