(* ===== verification/Goal_State.thy ===== *)
theory Goal_State
  imports Iso_Time
begin

text \<open>
  The goal state machine of \<open>plugins/goal/state.py\<close>: pure functions on a \<open>Goal\<close>. The stored
  reasons, Chinese sentences in the source, are given in English.
\<close>

section \<open>Goals\<close>

datatype goal_status = ActiveGoal | PausedGoal | BlockedGoal | BudgetLimitedGoal | CompleteGoal

datatype coverage = ExactUsage | PartialUsage | UnavailableUsage

text \<open>\<open>_COVERAGE_RANK\<close> orders the coverages, so that \<open>worst_coverage\<close> is their maximum.\<close>

fun coverage_rank :: "coverage \<Rightarrow> nat" where
  "coverage_rank ExactUsage = 0"
| "coverage_rank PartialUsage = 1"
| "coverage_rank UnavailableUsage = 2"

lemma coverage_rank_inj: "coverage_rank a = coverage_rank b \<longleftrightarrow> a = b"
  by (cases a; cases b) auto

instantiation coverage :: linorder
begin

definition less_eq_coverage :: "coverage \<Rightarrow> coverage \<Rightarrow> bool" where
  "less_eq_coverage a b \<longleftrightarrow> coverage_rank a \<le> coverage_rank b"

definition less_coverage :: "coverage \<Rightarrow> coverage \<Rightarrow> bool" where
  "less_coverage a b \<longleftrightarrow> coverage_rank a < coverage_rank b"

instance
  by standard (auto simp: less_eq_coverage_def less_coverage_def coverage_rank_inj [symmetric])

end

definition worst_coverage :: "coverage \<Rightarrow> coverage \<Rightarrow> coverage" where
  "worst_coverage a b = max a b"

record goal =
  goal_session :: string
  goal_id :: string
  goal_objective :: string
  goal_status :: goal_status
  goal_budget :: "int option"
  goal_tokens :: int
  goal_continuations :: int
  goal_empty :: int
  goal_settled :: int
  goal_settled_id :: "string option"
  goal_continuation :: "string option"
  goal_coverage :: coverage
  goal_created :: moment
  goal_updated :: moment
  goal_reason :: "string option"

definition objective_max :: nat where "objective_max = 4000"
definition blocked_after :: int where "blocked_after = 3"
definition max_continuations :: int where "max_continuations = 100"
definition max_token_budget :: int where "max_token_budget = 100000000"

definition goal_active :: "goal \<Rightarrow> bool" where
  "goal_active g \<longleftrightarrow> goal_status g = ActiveGoal"

definition goal_terminal :: "goal \<Rightarrow> bool" where
  "goal_terminal g \<longleftrightarrow> goal_status g \<in> {CompleteGoal, BudgetLimitedGoal}"

definition goal_stopped :: "goal \<Rightarrow> bool" where
  "goal_stopped g \<longleftrightarrow> goal_terminal g \<or> goal_status g \<in> {PausedGoal, BlockedGoal}"

definition remaining_tokens :: "goal \<Rightarrow> int option" where
  "remaining_tokens g = map_option (\<lambda>b. max 0 (b - goal_tokens g)) (goal_budget g)"

definition normalize_objective :: "string \<Rightarrow> string res" where
  "normalize_objective v =
     (let objective = py_strip v in
      if objective = [] then Inl ValueError
      else if length objective > objective_max then Inl ValueError
      else Inr objective)"

definition normalize_token_budget :: "int option \<Rightarrow> int option res" where
  "normalize_token_budget v = (case v of
     None \<Rightarrow> Inr None
   | Some b \<Rightarrow> if b \<le> 0 then Inl ValueError
       else if b > max_token_budget then Inl ValueError else Inr (Some b))"

definition new_goal ::
  "string \<Rightarrow> string \<Rightarrow> string \<Rightarrow> int option \<Rightarrow> int \<Rightarrow> moment \<Rightarrow> goal res" where
  "new_goal s gid objective budget settled now =
     (if s = [] \<or> gid = [] then Inl ValueError
      else if settled < -1 then Inl ValueError
      else attempt (normalize_objective objective) (\<lambda>obj.
        attempt (normalize_token_budget budget) (\<lambda>b.
        Inr \<lparr>goal_session = s, goal_id = gid, goal_objective = obj, goal_status = ActiveGoal,
          goal_budget = b, goal_tokens = 0, goal_continuations = 0, goal_empty = 0,
          goal_settled = settled, goal_settled_id = None, goal_continuation = None,
          goal_coverage = ExactUsage, goal_created = now, goal_updated = now, goal_reason = None\<rparr>)))"

definition stop_goal :: "moment \<Rightarrow> goal_status \<Rightarrow> string \<Rightarrow> goal \<Rightarrow> goal" where
  "stop_goal now st reason g = g\<lparr>goal_updated := now, goal_status := st, goal_reason := Some reason\<rparr>"

definition budget_reason :: string where "budget_reason = ''token budget exhausted''"
definition empty_reason :: string where "empty_reason = ''3 rounds without output''"
definition limit_reason :: string where "limit_reason = ''continuation limit reached''"

definition mark_continuation :: "goal \<Rightarrow> string \<Rightarrow> moment \<Rightarrow> goal res" where
  "mark_continuation g mid now =
     (if \<not> goal_active g then Inl ValueError
      else if mid = [] then Inl ValueError
      else if goal_continuations g \<ge> max_continuations then Inl ValueError
      else Inr (g\<lparr>goal_updated := now, goal_continuations := goal_continuations g + 1,
        goal_continuation := Some mid\<rparr>))"

record round =
  rd_activity :: bool
  rd_tokens :: int
  rd_coverage :: coverage
  rd_through :: int
  rd_settled_id :: "string option"
  rd_reason :: "string option"
  rd_preempted :: bool

definition over_budget :: "int option \<Rightarrow> int \<Rightarrow> bool" where
  "over_budget budget tokens = (case budget of None \<Rightarrow> False | Some b \<Rightarrow> tokens \<ge> b)"

definition settle_round :: "goal \<Rightarrow> round \<Rightarrow> bool \<Rightarrow> moment \<Rightarrow> goal res" where
  "settle_round g r allow_inactive now =
     (if \<not> goal_active g \<and> \<not> allow_inactive then Inl ValueError
      else if rd_tokens r < 0 then Inl ValueError
      else if rd_through r < goal_settled g then Inl ValueError
      else
        let empty = (if rd_preempted r then goal_empty g
              else if rd_activity r then 0 else goal_empty g + 1);
            counted = g\<lparr>goal_updated := now, goal_tokens := goal_tokens g + rd_tokens r,
              goal_settled := rd_through r, goal_settled_id := rd_settled_id r,
              goal_continuation := None, goal_coverage := worst_coverage (goal_coverage g) (rd_coverage r)\<rparr>
        in
        if \<not> goal_active g then Inr counted
        else
          let updated = counted\<lparr>goal_empty := empty,
                goal_reason := (case rd_reason r of None \<Rightarrow> goal_reason g | Some t \<Rightarrow> Some t)\<rparr>
          in
          if over_budget (goal_budget updated) (goal_tokens updated)
          then Inr (stop_goal now BudgetLimitedGoal budget_reason updated)
          else if empty \<ge> blocked_after then Inr (stop_goal now BlockedGoal empty_reason updated)
          else if goal_continuations updated \<ge> max_continuations
          then Inr (stop_goal now PausedGoal limit_reason updated)
          else Inr updated)"

definition apply_model_update :: "goal \<Rightarrow> string \<Rightarrow> moment \<Rightarrow> goal res" where
  "apply_model_update g st now =
     (if \<not> goal_active g then Inl ValueError
      else if st = ''complete'' then Inr (stop_goal now CompleteGoal ''goal complete'' g)
      else if st = ''blocked'' then Inr (stop_goal now BlockedGoal ''goal blocked'' g)
      else if st = ''paused'' then Inr (stop_goal now PausedGoal ''goal paused'' g)
      else Inl ValueError)"

definition pause_goal :: "goal \<Rightarrow> string \<Rightarrow> moment \<Rightarrow> goal res" where
  "pause_goal g reason now =
     (if \<not> goal_active g then Inl ValueError else Inr (stop_goal now PausedGoal reason g))"

definition resume_goal :: "goal \<Rightarrow> moment \<Rightarrow> goal res" where
  "resume_goal g now =
     (if goal_status g \<notin> {PausedGoal, BlockedGoal} then Inl ValueError
      else if goal_continuations g \<ge> max_continuations then Inl ValueError
      else Inr (g\<lparr>goal_updated := now, goal_status := ActiveGoal, goal_empty := 0, goal_reason := None\<rparr>))"

definition set_token_budget :: "goal \<Rightarrow> int option \<Rightarrow> moment \<Rightarrow> goal res" where
  "set_token_budget g budget now =
     (if goal_status g \<notin> {ActiveGoal, PausedGoal, BudgetLimitedGoal} then Inl ValueError
      else attempt (normalize_token_budget budget) (\<lambda>b.
        let updated = g\<lparr>goal_updated := now, goal_budget := b\<rparr> in
        if over_budget b (goal_tokens updated)
        then Inr (stop_goal now BudgetLimitedGoal budget_reason updated)
        else if goal_status g = BudgetLimitedGoal then
          (if goal_continuations g \<ge> max_continuations
           then Inr (stop_goal now PausedGoal limit_reason updated)
           else Inr (updated\<lparr>goal_status := ActiveGoal, goal_reason := None\<rparr>))
        else Inr updated))"

section \<open>One relation of all operations\<close>

datatype goal_event =
    Continued string
  | Settled round bool
  | ModelUpdate string
  | Paused string
  | Resumed
  | BudgetSet "int option"

fun goal_apply_event :: "goal \<Rightarrow> goal_event \<Rightarrow> moment \<Rightarrow> goal res" where
  "goal_apply_event g (Continued mid) now = mark_continuation g mid now"
| "goal_apply_event g (Settled r allow) now = settle_round g r allow now"
| "goal_apply_event g (ModelUpdate st) now = apply_model_update g st now"
| "goal_apply_event g (Paused reason) now = pause_goal g reason now"
| "goal_apply_event g Resumed now = resume_goal g now"
| "goal_apply_event g (BudgetSet b) now = set_token_budget g b now"

fun_cases continued_cases: "goal_apply_event g (Continued mid) now = Inr g'"
  and settled_cases: "goal_apply_event g (Settled r allow) now = Inr g'"

inductive goal_run :: "goal \<Rightarrow> goal_event list \<Rightarrow> goal \<Rightarrow> bool" where
  goal_start: "goal_run g [] g"
| goal_next: "goal_run g es g1 \<Longrightarrow> goal_apply_event g1 e now = Inr g2 \<Longrightarrow> goal_run g (es @ [e]) g2"

lemmas goal_op_defs = mark_continuation_def settle_round_def apply_model_update_def pause_goal_def
  resume_goal_def set_token_budget_def stop_goal_def goal_active_def Let_def

text \<open>The counters and limits every reachable goal keeps.\<close>

definition goal_ok :: "goal \<Rightarrow> bool" where
  "goal_ok g \<longleftrightarrow> goal_session g \<noteq> [] \<and> goal_id g \<noteq> [] \<and>
     normalize_objective (goal_objective g) = Inr (goal_objective g) \<and>
     normalize_token_budget (goal_budget g) = Inr (goal_budget g) \<and>
     0 \<le> goal_tokens g \<and> 0 \<le> goal_empty g \<and> -1 \<le> goal_settled g \<and>
     0 \<le> goal_continuations g \<and> goal_continuations g \<le> max_continuations \<and>
     (goal_active g \<longrightarrow> goal_continuations g < max_continuations \<or> goal_continuation g \<noteq> None)"

lemma normalize_objective_idem: "normalize_objective v = Inr obj \<Longrightarrow> normalize_objective obj = Inr obj"
  by (auto simp: normalize_objective_def Let_def split: if_splits)

lemma normalize_token_budget_id: "normalize_token_budget v = Inr b \<Longrightarrow> b = v"
  by (auto simp: normalize_token_budget_def split: option.splits if_splits)

lemma normalize_token_budget_idem:
  "normalize_token_budget v = Inr b \<Longrightarrow> normalize_token_budget b = Inr b"
  using normalize_token_budget_id by metis

lemma new_goal_ok:
  assumes "new_goal s gid objective budget settled now = Inr g"
  shows "goal_ok g"
  using assms
  by (auto simp: new_goal_def attempt_eq_Inr goal_ok_def normalize_objective_idem
      normalize_token_budget_idem max_continuations_def split: if_splits)

definition same_goal :: "goal \<Rightarrow> goal \<Rightarrow> bool" where
  "same_goal g g' \<longleftrightarrow> goal_session g' = goal_session g \<and> goal_id g' = goal_id g \<and>
     goal_objective g' = goal_objective g \<and> goal_created g' = goal_created g \<and>
     goal_settled g \<le> goal_settled g' \<and> goal_tokens g \<le> goal_tokens g' \<and>
     goal_coverage g \<le> goal_coverage g'"

lemma settle_round_Inr:
  assumes "settle_round g r allow now = Inr g'"
  shows "0 \<le> rd_tokens r" "goal_settled g \<le> rd_through r"
    "goal_tokens g' = goal_tokens g + rd_tokens r" "goal_settled g' = rd_through r"
    "goal_continuations g' = goal_continuations g" "goal_continuation g' = None"
    "goal_budget g' = goal_budget g" "goal_coverage g' = max (goal_coverage g) (rd_coverage r)"
    "goal_session g' = goal_session g" "goal_id g' = goal_id g" "goal_objective g' = goal_objective g"
    "goal_created g' = goal_created g"
    "goal_active g' \<longrightarrow> goal_active g \<and> goal_continuations g < max_continuations \<and> goal_empty g' < blocked_after \<and>
       (\<forall>b. goal_budget g' = Some b \<longrightarrow> goal_tokens g' < b)"
    "goal_empty g' = goal_empty g \<or> goal_empty g' = 0 \<or> goal_empty g' = goal_empty g + 1"
    "goal_updated g' = now"
proof -
  let ?c = "g\<lparr>goal_updated := now, goal_tokens := goal_tokens g + rd_tokens r,
      goal_settled := rd_through r, goal_settled_id := rd_settled_id r,
      goal_continuation := None, goal_coverage := worst_coverage (goal_coverage g) (rd_coverage r)\<rparr>"
  let ?empty = "if rd_preempted r then goal_empty g else if rd_activity r then 0 else goal_empty g + 1"
  let ?u = "?c\<lparr>goal_empty := ?empty,
      goal_reason := (case rd_reason r of None \<Rightarrow> goal_reason g | Some t \<Rightarrow> Some t)\<rparr>"
  let ?over = "over_budget (goal_budget g) (goal_tokens g + rd_tokens r)"
  define res where "res = (if ?over then stop_goal now BudgetLimitedGoal budget_reason ?u
      else if ?empty \<ge> blocked_after then stop_goal now BlockedGoal empty_reason ?u
      else if goal_continuations g \<ge> max_continuations then stop_goal now PausedGoal limit_reason ?u
      else ?u)"
  have ok: "0 \<le> rd_tokens r" "goal_settled g \<le> rd_through r"
    using assms by (auto simp: settle_round_def split: if_split_asm)
  have g': "g' = (if \<not> goal_active g then ?c else res)"
    using assms unfolding res_def by (auto simp: settle_round_def Let_def split: if_split_asm)
  have u: "goal_tokens res = goal_tokens g + rd_tokens r" "goal_settled res = rd_through r"
    "goal_continuations res = goal_continuations g" "goal_continuation res = None"
    "goal_budget res = goal_budget g" "goal_coverage res = max (goal_coverage g) (rd_coverage r)"
    "goal_session res = goal_session g" "goal_id res = goal_id g" "goal_objective res = goal_objective g"
    "goal_created res = goal_created g" "goal_updated res = now" "goal_empty res = ?empty"
    unfolding res_def by (simp_all add: stop_goal_def worst_coverage_def)
  have act: "goal_active res \<Longrightarrow> \<not> ?over \<and> ?empty < blocked_after \<and> goal_continuations g < max_continuations"
    unfolding res_def by (simp add: goal_active_def stop_goal_def split: if_split_asm)
  show "0 \<le> rd_tokens r" "goal_settled g \<le> rd_through r" by (fact ok)+
  show "goal_tokens g' = goal_tokens g + rd_tokens r" "goal_settled g' = rd_through r"
    "goal_continuations g' = goal_continuations g" "goal_continuation g' = None"
    "goal_budget g' = goal_budget g" "goal_coverage g' = max (goal_coverage g) (rd_coverage r)"
    "goal_session g' = goal_session g" "goal_id g' = goal_id g" "goal_objective g' = goal_objective g"
    "goal_created g' = goal_created g" "goal_updated g' = now"
    unfolding g' by (simp_all add: u worst_coverage_def)
  show "goal_empty g' = goal_empty g \<or> goal_empty g' = 0 \<or> goal_empty g' = goal_empty g + 1"
    unfolding g' by (simp add: u)
  show "goal_active g' \<longrightarrow> goal_active g \<and> goal_continuations g < max_continuations \<and> goal_empty g' < blocked_after \<and>
       (\<forall>b. goal_budget g' = Some b \<longrightarrow> goal_tokens g' < b)"
  proof (cases "goal_active g")
    case True
    then show ?thesis unfolding g' using act by (auto simp: u over_budget_def)
  next
    case False
    then show ?thesis unfolding g' by (simp add: goal_active_def)
  qed
qed

lemma stop_goal_ok:
  assumes "goal_ok g" "st \<noteq> ActiveGoal"
  shows "goal_ok (stop_goal now st reason g) \<and> same_goal g (stop_goal now st reason g) \<and>
    goal_continuations (stop_goal now st reason g) = goal_continuations g"
  using assms by (simp add: stop_goal_def goal_ok_def same_goal_def goal_active_def)

lemma resume_goal_ok:
  assumes "goal_ok g" "resume_goal g now = Inr g'"
  shows "goal_ok g' \<and> same_goal g g' \<and> goal_continuations g' = goal_continuations g"
proof -
  have "g' = g\<lparr>goal_updated := now, goal_status := ActiveGoal, goal_empty := 0, goal_reason := None\<rparr>"
    "goal_continuations g < max_continuations"
    using assms(2) by (auto simp: resume_goal_def split: if_split_asm)
  then show ?thesis using assms(1) by (simp add: goal_ok_def same_goal_def)
qed

lemma apply_model_update_Inr:
  assumes "apply_model_update g st now = Inr g'"
  obtains st' reason where "st' \<noteq> ActiveGoal" "g' = stop_goal now st' reason g"
  using assms by (auto simp: apply_model_update_def split: if_split_asm)

lemma settle_round_ok:
  assumes "goal_ok g" "settle_round g r allow now = Inr g'"
  shows "goal_ok g' \<and> same_goal g g'"
  using assms(1) settle_round_Inr [OF assms(2)]
  by (auto simp: goal_ok_def same_goal_def)

lemma mark_continuation_ok:
  assumes "goal_ok g" "mark_continuation g mid now = Inr g'"
  shows "goal_ok g' \<and> same_goal g g' \<and> goal_continuations g' = goal_continuations g + 1"
  using assms by (auto simp: mark_continuation_def goal_ok_def same_goal_def split: if_splits)

lemma set_token_budget_ok:
  assumes "goal_ok g" "set_token_budget g b now = Inr g'"
  shows "goal_ok g' \<and> same_goal g g' \<and> goal_continuations g' = goal_continuations g"
proof -
  obtain b' where b': "normalize_token_budget b = Inr b'"
    using assms(2) by (auto simp: set_token_budget_def attempt_eq_Inr split: if_split_asm)
  let ?u = "g\<lparr>goal_updated := now, goal_budget := b'\<rparr>"
  have u: "goal_ok ?u" "same_goal g ?u" "goal_continuations ?u = goal_continuations g"
    using assms(1) normalize_token_budget_idem [OF b'] by (simp_all add: goal_ok_def same_goal_def goal_active_def)
  have "(\<exists>st r. st \<noteq> ActiveGoal \<and> g' = stop_goal now st r ?u) \<or> g' = ?u \<or>
      (goal_continuations g < max_continuations \<and> g' = ?u\<lparr>goal_status := ActiveGoal, goal_reason := None\<rparr>)"
    using assms(2) b' by (auto simp: set_token_budget_def Let_def split: if_split_asm)
  then show ?thesis
  proof (elim disjE exE conjE)
    fix st r assume "st \<noteq> ActiveGoal" "g' = stop_goal now st r ?u"
    then show ?thesis using stop_goal_ok [OF u(1)] u(2,3) by (simp add: same_goal_def)
  next
    assume "g' = ?u"
    then show ?thesis using u by simp
  next
    assume "goal_continuations g < max_continuations" "g' = ?u\<lparr>goal_status := ActiveGoal, goal_reason := None\<rparr>"
    then show ?thesis using u by (simp add: goal_ok_def same_goal_def)
  qed
qed

lemma goal_event_ok:
  assumes "goal_ok g" "goal_apply_event g e now = Inr g'"
  shows "goal_ok g' \<and> same_goal g g' \<and>
    goal_continuations g' = goal_continuations g + (case e of Continued _ \<Rightarrow> 1 | _ \<Rightarrow> 0)"
proof (cases e)
  case (Settled r allow)
  then have "settle_round g r allow now = Inr g'" using assms(2) by simp
  then show ?thesis using settle_round_ok [OF assms(1)] settle_round_Inr(5) Settled by simp
next
  case (Continued mid)
  then show ?thesis using mark_continuation_ok [OF assms(1)] assms(2) by simp
next
  case (BudgetSet b)
  then show ?thesis using set_token_budget_ok [OF assms(1)] assms(2) by simp
next
  case (ModelUpdate st)
  then have "apply_model_update g st now = Inr g'" using assms(2) by simp
  then show ?thesis
    by (rule apply_model_update_Inr) (use ModelUpdate stop_goal_ok [OF assms(1)] in simp)
next
  case (Paused reason)
  then have "g' = stop_goal now PausedGoal reason g"
    using assms(2) by (simp add: pause_goal_def split: if_split_asm)
  then show ?thesis using Paused stop_goal_ok [OF assms(1), of PausedGoal] by simp
next
  case Resumed
  then show ?thesis using resume_goal_ok [OF assms(1)] assms(2) by simp
qed

lemma same_goal_trans: "same_goal a b \<Longrightarrow> same_goal b c \<Longrightarrow> same_goal a c"
  by (auto simp: same_goal_def)

fun is_continued :: "goal_event \<Rightarrow> bool" where
  "is_continued (Continued _) = True"
| "is_continued _ = False"

lemma goal_run_ok:
  assumes "goal_run g es g'" "goal_ok g"
  shows "goal_ok g' \<and> same_goal g g' \<and>
    goal_continuations g' = goal_continuations g + int (length (filter is_continued es))"
  using assms
proof (induction rule: goal_run.induct)
  case (goal_start g)
  then show ?case by (simp add: same_goal_def)
next
  case (goal_next g es g1 e now g2)
  then have "goal_ok g1 \<and> same_goal g g1 \<and>
      goal_continuations g1 = goal_continuations g + int (length (filter is_continued es))" by blast
  moreover from this have "goal_ok g2 \<and> same_goal g1 g2 \<and>
      goal_continuations g2 = goal_continuations g1 + (case e of Continued _ \<Rightarrow> 1 | _ \<Rightarrow> 0)"
    using goal_event_ok [OF _ goal_next.hyps(2)] by blast
  ultimately show ?case
    using same_goal_trans by (cases e) auto
qed

section \<open>Properties\<close>

definition epoch :: moment where
  "epoch = \<lparr>mo_year = 2025, mo_month = 1, mo_day = 1, mo_hour = 0, mo_minute = 0, mo_second = 0,
     mo_micro = 0, mo_offset = Some 0\<rparr>"

definition fresh_goal :: goal where
  "fresh_goal = (case new_goal ''s'' ''g1'' ''write it'' (Some 10) (-1) epoch of Inr g \<Rightarrow> g | Inl _ \<Rightarrow> undefined)"

definition quiet_round :: "int \<Rightarrow> int \<Rightarrow> round" where
  "quiet_round tokens through = \<lparr>rd_activity = False, rd_tokens = tokens, rd_coverage = PartialUsage,
     rd_through = through, rd_settled_id = Some ''m'', rd_reason = None, rd_preempted = False\<rparr>"

lemma fresh_goal: "new_goal ''s'' ''g1'' ''write it'' (Some 10) (-1) epoch = Inr fresh_goal"
  unfolding fresh_goal_def by code_simp



text \<open>
  C34. Autonomous continuation is bounded: over the whole life of a goal, whatever
  pausing, resuming, settling and budget changes happen in between, at most 100 continuation
  inputs are ever marked.
\<close>

theorem continuations_bounded:
  assumes "new_goal s gid objective budget settled now = Inr g" "goal_run g es g'"
  shows "length (filter is_continued es) \<le> 100"
proof -
  have "goal_continuations g = 0"
    using assms(1) by (auto simp: new_goal_def attempt_eq_Inr split: if_splits)
  then have "int (length (filter is_continued es)) \<le> max_continuations"
    using goal_run_ok [OF assms(2) new_goal_ok [OF assms(1)]] by (simp add: goal_ok_def)
  then show ?thesis by (simp add: max_continuations_def)
qed

theorem continuations_bounded_witness:
  "length (filter is_continued [Continued ''m'']) \<le> 100 \<and>
   (\<exists>g'. goal_run fresh_goal [Continued ''m''] g')"
proof -
  have "\<exists>g1. mark_continuation fresh_goal ''m'' epoch = Inr g1"
  proof -
    have "case mark_continuation fresh_goal ''m'' epoch of Inl _ \<Rightarrow> False | Inr _ \<Rightarrow> True" by code_simp
    then show ?thesis by (auto split: sum.splits)
  qed
  then obtain g1 where "mark_continuation fresh_goal ''m'' epoch = Inr g1" by blast
  then have run: "goal_run fresh_goal [Continued ''m''] g1"
    using goal_next [OF goal_start, of fresh_goal "Continued ''m''" epoch g1] by simp
  show ?thesis using continuations_bounded [OF fresh_goal run] run by blast
qed

text \<open>
  Settling enforces every limit: when a goal is still active after a round was
  settled, it was active before, its tokens are below its budget, fewer than three rounds in a
  row were empty and fewer than 100 continuations were used; a round settled while the goal is
  not active changes neither its status nor the stored reason.
\<close>

theorem settled_within_limits:
  assumes "settle_round g r allow now = Inr g'"
  shows "(goal_active g' \<longrightarrow> goal_active g \<and> goal_empty g' < 3 \<and> goal_continuations g' < 100 \<and>
      (\<forall>b. goal_budget g' = Some b \<longrightarrow> goal_tokens g' < b)) \<and>
    (\<not> goal_active g \<longrightarrow> goal_status g' = goal_status g \<and> goal_reason g' = goal_reason g)"
proof -
  have "\<not> goal_active g \<longrightarrow> goal_status g' = goal_status g \<and> goal_reason g' = goal_reason g"
    using assms by (auto simp: settle_round_def Let_def split: if_splits)
  then show ?thesis using settle_round_Inr [OF assms]
    by (auto simp: max_continuations_def blocked_after_def)
qed

theorem settled_within_limits_witness:
  "(case settle_round fresh_goal (quiet_round 4 7) False epoch of Inl _ \<Rightarrow> False | Inr g' \<Rightarrow>
      goal_active g' \<and> goal_empty g' < 3)"
proof -
  have "case settle_round fresh_goal (quiet_round 4 7) False epoch of Inl _ \<Rightarrow> False | Inr g' \<Rightarrow> goal_active g'"
    by code_simp
  then obtain g' where g': "settle_round fresh_goal (quiet_round 4 7) False epoch = Inr g'" "goal_active g'"
    by (auto split: sum.splits)
  then show ?thesis using settled_within_limits [OF g'(1)] by simp
qed

text \<open>
  Completion is final: no operation takes a completed goal to another status or
  gives it another continuation.
\<close>

theorem complete_is_final:
  assumes "goal_run g es g'" "goal_status g = CompleteGoal"
  shows "goal_status g' = CompleteGoal \<and> goal_continuations g' = goal_continuations g"
  using assms
proof (induction rule: goal_run.induct)
  case (goal_next g es g1 e now g2)
  then have c: "goal_status g1 = CompleteGoal" "goal_continuations g1 = goal_continuations g" by auto
  have "goal_status g2 = CompleteGoal \<and> goal_continuations g2 = goal_continuations g1"
    using goal_next.hyps(2) c(1) by (cases e) (auto simp: goal_op_defs split: if_splits)
  then show ?case using c by simp
qed simp

theorem complete_is_final_witness:
  "\<exists>g g'. goal_run g [Settled (quiet_round 4 7) True] g' \<and> goal_status g = CompleteGoal \<and>
     goal_status g' = CompleteGoal"
proof -
  have "case apply_model_update fresh_goal ''complete'' epoch of Inl _ \<Rightarrow> False | Inr g \<Rightarrow>
      goal_status g = CompleteGoal \<and>
      (case settle_round g (quiet_round 4 7) True epoch of Inl _ \<Rightarrow> False | Inr _ \<Rightarrow> True)"
    by code_simp
  then obtain g g' where g: "goal_status g = CompleteGoal" "settle_round g (quiet_round 4 7) True epoch = Inr g'"
    by (auto split: sum.splits)
  then have run: "goal_run g [Settled (quiet_round 4 7) True] g'"
    using goal_next [OF goal_start, of g "Settled (quiet_round 4 7) True" epoch g'] by simp
  then show ?thesis using complete_is_final [OF run g(1)] g(1) by blast
qed

text \<open>The late settlement of a paused goal adds its tokens without looking at the budget, and
  resuming does not look at it either: a goal can be active with its budget spent. The next
  settlement stops it.\<close>

theorem resume_over_budget:
  "(case pause_goal fresh_goal ''stop'' epoch of Inl _ \<Rightarrow> False | Inr g1 \<Rightarrow>
    (case settle_round g1 (quiet_round 20 7) True epoch of Inl _ \<Rightarrow> False | Inr g2 \<Rightarrow>
    (case resume_goal g2 epoch of Inl _ \<Rightarrow> False | Inr g3 \<Rightarrow>
       goal_active g3 \<and> remaining_tokens g3 = Some 0)))"
  by code_simp

end
