(* ===== verification/Goal_Codec.thy ===== *)
theory Goal_Codec
  imports Goal_State Ledger_Sessions
begin

text \<open>
  The stored form of goals and of operation receipts (\<open>plugins/goal/store.py\<close>): keys,
  decoding with its checks, encoding, and the round trips.
\<close>

section \<open>Keys\<close>

definition goal_prefix :: string where "goal_prefix = ''goal:''"
definition operation_prefix :: string where "operation_prefix = ''goalop:''"

definition operation_kinds :: "string list" where
  "operation_kinds = [''create'', ''update'', ''pause'', ''resume'', ''clear'', ''budget'', ''command'']"

definition goal_key :: "string \<Rightarrow> string res" where
  "goal_key s = (if s = [] then Inl ValueError else Inr (goal_prefix @ s))"

definition operation_key :: "string \<Rightarrow> string \<Rightarrow> string \<Rightarrow> string res" where
  "operation_key kind s oid =
     (if kind \<notin> set operation_kinds then Inl ValueError
      else if s = [] \<or> oid = [] then Inl ValueError
      else Inr (operation_prefix @ kind @ '':'' @ s @ '':'' @ oid))"

section \<open>Fields\<close>

definition entry :: "(string \<times> json) list \<Rightarrow> string \<Rightarrow> json" where
  "entry kvs k = (case map_of kvs k of None \<Rightarrow> JNull | Some v \<Rightarrow> v)"

definition read_moment :: "json \<Rightarrow> moment res" where
  "read_moment v = (case v of
     JStr t \<Rightarrow> (case parse_iso t of
         None \<Rightarrow> Inl ValueError
       | Some m \<Rightarrow> if mo_offset m = None then Inl ValueError else Inr m)
   | _ \<Rightarrow> Inl ValueError)"

definition read_optional_text :: "json \<Rightarrow> string option res" where
  "read_optional_text v = (case v of
     JNull \<Rightarrow> Inr None
   | JStr t \<Rightarrow> if t = [] then Inl ValueError else Inr (Some t)
   | _ \<Rightarrow> Inl ValueError)"

definition read_text :: "json \<Rightarrow> string res" where
  "read_text v = (case v of
     JStr t \<Rightarrow> if t = [] then Inl ValueError else Inr t | _ \<Rightarrow> Inl ValueError)"

definition read_int_from :: "int \<Rightarrow> json \<Rightarrow> int res" where
  "read_int_from least v = (case v of
     JInt n \<Rightarrow> if n < least then Inl ValueError else Inr n | _ \<Rightarrow> Inl ValueError)"

definition read_objective :: "json \<Rightarrow> string res" where
  "read_objective v = (case v of
     JStr t \<Rightarrow> attempt (normalize_objective t) (\<lambda>t'. if t' \<noteq> t then Inl ValueError else Inr t)
   | _ \<Rightarrow> Inl ValueError)"

definition read_budget :: "json \<Rightarrow> int option res" where
  "read_budget v = (case v of
     JNull \<Rightarrow> Inr None
   | JInt n \<Rightarrow> normalize_token_budget (Some n)
   | _ \<Rightarrow> Inl ValueError)"

fun status_text_of :: "goal_status \<Rightarrow> string" where
  "status_text_of ActiveGoal = ''active''"
| "status_text_of PausedGoal = ''paused''"
| "status_text_of BlockedGoal = ''blocked''"
| "status_text_of BudgetLimitedGoal = ''budget_limited''"
| "status_text_of CompleteGoal = ''complete''"

fun coverage_text :: "coverage \<Rightarrow> string" where
  "coverage_text ExactUsage = ''exact''"
| "coverage_text PartialUsage = ''partial''"
| "coverage_text UnavailableUsage = ''unavailable''"

definition read_one_of :: "('a \<Rightarrow> string) \<Rightarrow> 'a list \<Rightarrow> json \<Rightarrow> 'a res" where
  "read_one_of text xs v = (case find (\<lambda>x. v = JStr (text x)) xs of
     None \<Rightarrow> Inl ValueError | Some x \<Rightarrow> Inr x)"

definition read_status :: "json \<Rightarrow> goal_status res" where
  "read_status = read_one_of status_text_of
     [ActiveGoal, PausedGoal, BlockedGoal, BudgetLimitedGoal, CompleteGoal]"

definition read_coverage :: "json \<Rightarrow> coverage res" where
  "read_coverage = read_one_of coverage_text [ExactUsage, PartialUsage, UnavailableUsage]"

definition text_or_null :: "string option \<Rightarrow> json" where
  "text_or_null t = (case t of None \<Rightarrow> JNull | Some s \<Rightarrow> JStr s)"

definition int_or_null :: "int option \<Rightarrow> json" where
  "int_or_null n = (case n of None \<Rightarrow> JNull | Some i \<Rightarrow> JInt i)"

section \<open>Goals\<close>

definition goal_fields :: "string list" where
  "goal_fields = [''version'', ''session_id'', ''goal_id'', ''objective'', ''status'',
     ''token_budget'', ''tokens_used'', ''continuations'', ''consecutive_empty'',
     ''settled_through_seq'', ''last_settled_message_id'', ''continuation_id'',
     ''usage_coverage'', ''created_at'', ''updated_at'', ''last_reason'']"

definition decode_goal :: "string \<Rightarrow> json \<Rightarrow> goal res" where
  "decode_goal s v = (case v of
     JObj kvs \<Rightarrow>
       if set (keys_of kvs) \<noteq> set goal_fields then Inl ValueError
       else if \<not> py_is_one (entry kvs ''version'') then Inl ValueError
       else if entry kvs ''session_id'' \<noteq> JStr s then Inl ValueError
       else
         attempt (read_text (entry kvs ''goal_id'')) (\<lambda>gid.
         attempt (read_objective (entry kvs ''objective'')) (\<lambda>objective.
         attempt (read_status (entry kvs ''status'')) (\<lambda>st.
         attempt (read_budget (entry kvs ''token_budget'')) (\<lambda>budget.
         attempt (read_int_from 0 (entry kvs ''tokens_used'')) (\<lambda>tokens.
         attempt (read_int_from 0 (entry kvs ''continuations'')) (\<lambda>conts.
         attempt (read_int_from 0 (entry kvs ''consecutive_empty'')) (\<lambda>empty.
         attempt (read_int_from (-1) (entry kvs ''settled_through_seq'')) (\<lambda>settled.
         attempt (read_coverage (entry kvs ''usage_coverage'')) (\<lambda>cov.
         attempt (read_optional_text (entry kvs ''last_settled_message_id'')) (\<lambda>sid.
         attempt (read_optional_text (entry kvs ''continuation_id'')) (\<lambda>cid.
         attempt (read_moment (entry kvs ''created_at'')) (\<lambda>created.
         attempt (read_moment (entry kvs ''updated_at'')) (\<lambda>updated.
         attempt (read_optional_text (entry kvs ''last_reason'')) (\<lambda>reason.
           Inr \<lparr>goal_session = s, goal_id = gid, goal_objective = objective, goal_status = st,
             goal_budget = budget, goal_tokens = tokens, goal_continuations = conts,
             goal_empty = empty, goal_settled = settled, goal_settled_id = sid,
             goal_continuation = cid, goal_coverage = cov, goal_created = created,
             goal_updated = updated, goal_reason = reason\<rparr>))))))))))))))
   | _ \<Rightarrow> Inl ValueError)"

definition goal_value :: "goal \<Rightarrow> (string \<times> json) list" where
  "goal_value g =
     [(''version'', JInt 1), (''session_id'', JStr (goal_session g)), (''goal_id'', JStr (goal_id g)),
      (''objective'', JStr (goal_objective g)), (''status'', JStr (status_text_of (goal_status g))),
      (''token_budget'', int_or_null (goal_budget g)), (''tokens_used'', JInt (goal_tokens g)),
      (''continuations'', JInt (goal_continuations g)), (''consecutive_empty'', JInt (goal_empty g)),
      (''settled_through_seq'', JInt (goal_settled g)),
      (''last_settled_message_id'', text_or_null (goal_settled_id g)),
      (''continuation_id'', text_or_null (goal_continuation g)),
      (''usage_coverage'', JStr (coverage_text (goal_coverage g))),
      (''created_at'', JStr (iso_text (goal_created g))), (''updated_at'', JStr (iso_text (goal_updated g))),
      (''last_reason'', text_or_null (goal_reason g))]"

definition encode_goal :: "goal \<Rightarrow> json res" where
  "encode_goal g = (let v = JObj (goal_value g) in
     attempt (decode_goal (goal_session g) v) (\<lambda>_. Inr v))"

section \<open>Operation receipts\<close>

record operation =
  op_kind :: string
  op_digest :: string
  op_response :: string
  op_goal :: "goal option"
  op_created :: moment

definition operation_fields :: "string list" where
  "operation_fields = [''version'', ''kind'', ''digest'', ''response'', ''goal'', ''created_at'']"

definition digest_ok :: "string \<Rightarrow> bool" where
  "digest_ok d \<longleftrightarrow> length d = 64 \<and> list_all (\<lambda>c. c \<in> set ''0123456789abcdef'') d"

definition read_kind :: "json \<Rightarrow> string res" where
  "read_kind v = (if unhashable v then Inl TypeError else case v of
     JStr k \<Rightarrow> if k \<in> set operation_kinds then Inr k else Inl ValueError
   | _ \<Rightarrow> Inl ValueError)"

definition read_digest :: "json \<Rightarrow> string res" where
  "read_digest v = (case v of
     JStr d \<Rightarrow> if digest_ok d then Inr d else Inl ValueError | _ \<Rightarrow> Inl ValueError)"

definition read_goal :: "json \<Rightarrow> goal option res" where
  "read_goal v = (case v of
     JNull \<Rightarrow> Inr None
   | JObj kvs \<Rightarrow> (case map_of kvs ''session_id'' of
         Some (JStr s) \<Rightarrow> attempt (decode_goal s v) (\<lambda>g. Inr (Some g))
       | _ \<Rightarrow> Inl ValueError)
   | _ \<Rightarrow> Inl ValueError)"

definition decode_operation :: "json \<Rightarrow> operation res" where
  "decode_operation v = (case v of
     JObj kvs \<Rightarrow>
       if set (keys_of kvs) \<noteq> set operation_fields then Inl ValueError
       else if \<not> py_is_one (entry kvs ''version'') then Inl ValueError
       else
         attempt (read_kind (entry kvs ''kind'')) (\<lambda>kind.
         attempt (read_digest (entry kvs ''digest'')) (\<lambda>dig.
         attempt (read_text (entry kvs ''response'')) (\<lambda>response.
         attempt (read_goal (entry kvs ''goal'')) (\<lambda>g.
         attempt (read_moment (entry kvs ''created_at'')) (\<lambda>created.
           Inr \<lparr>op_kind = kind, op_digest = dig, op_response = response, op_goal = g,
             op_created = created\<rparr>)))))
   | _ \<Rightarrow> Inl ValueError)"

definition operation_value :: "operation \<Rightarrow> json \<Rightarrow> (string \<times> json) list" where
  "operation_value op g =
     [(''version'', JInt 1), (''kind'', JStr (op_kind op)), (''digest'', JStr (op_digest op)),
      (''response'', JStr (op_response op)), (''goal'', g), (''created_at'', JStr (iso_text (op_created op)))]"

definition encode_operation :: "operation \<Rightarrow> json res" where
  "encode_operation op =
     attempt (case op_goal op of None \<Rightarrow> Inr JNull | Some g \<Rightarrow> encode_goal g) (\<lambda>g.
     let v = JObj (operation_value op g) in
     attempt (decode_operation v) (\<lambda>_. Inr v))"

section \<open>Round trips\<close>

lemma read_optional_text_Inr:
  "read_optional_text (text_or_null t) = Inr t' \<Longrightarrow> t' = t"
  by (auto simp: read_optional_text_def text_or_null_def split: option.splits if_splits)

lemma read_text_Inr: "read_text (JStr t) = Inr t' \<Longrightarrow> t' = t"
  by (auto simp: read_text_def split: if_splits)

lemma read_budget_Inr: "read_budget (int_or_null b) = Inr b' \<Longrightarrow> b' = b"
  by (auto simp: read_budget_def int_or_null_def dest: normalize_token_budget_id split: option.splits)

lemma read_int_from_Inr: "read_int_from k (JInt n) = Inr n' \<Longrightarrow> n' = n"
  by (auto simp: read_int_from_def split: if_splits)

lemma read_objective_Inr: "read_objective (JStr t) = Inr t' \<Longrightarrow> t' = t"
  by (auto simp: read_objective_def attempt_eq_Inr split: if_splits)

lemma read_status_text [simp]: "read_status (JStr (status_text_of st)) = Inr st"
  by (cases st) (simp_all add: read_status_def read_one_of_def)

lemma read_coverage_text [simp]: "read_coverage (JStr (coverage_text c)) = Inr c"
  by (cases c) (simp_all add: read_coverage_def read_one_of_def)

text \<open>A time that a goal carries came from the clock or from a stored text.\<close>

definition stamp_ok :: "moment \<Rightarrow> bool" where
  "stamp_ok t \<longleftrightarrow> moment_ok t \<and> mo_offset t \<noteq> None"

lemma read_moment_text [simp]: "stamp_ok t \<Longrightarrow> read_moment (JStr (iso_text t)) = Inr t"
  by (simp add: stamp_ok_def read_moment_def)

lemma scalar_norms [simp]:
  "json_norm (text_or_null t) = text_or_null t" "json_norm (int_or_null n) = int_or_null n"
  by (simp_all add: text_or_null_def int_or_null_def split: option.split)

lemma goal_value_keys: "keys_of (goal_value g) = goal_fields"
  by (simp add: goal_value_def goal_fields_def)

lemma entry_goal_value:
  "entry (sort_fields (map (map_prod id json_norm) (goal_value g))) k = entry (goal_value g) k"
proof -
  have "distinct (keys_of (goal_value g))" by (simp add: goal_value_keys goal_fields_def)
  then have "map_of (sort_fields (map (map_prod id json_norm) (goal_value g))) k =
      map_option json_norm (map_of (goal_value g) k)" by (rule map_of_norm)
  also have "\<dots> = map_of (goal_value g) k"
    by (simp add: goal_value_def)
  finally show ?thesis by (simp add: entry_def)
qed

lemma decode_goal_norm:
  "decode_goal s (json_norm (JObj (goal_value g))) = decode_goal s (JObj (goal_value g))"
proof -
  let ?ns = "sort_fields (map (map_prod id json_norm) (goal_value g))"
  have "set (keys_of ?ns) = set (keys_of (goal_value g))" by (simp add: image_image)
  then show ?thesis
    by (simp only: json_norm.simps decode_goal_def json.case entry_goal_value)
qed

lemma goal_entries:
  "entry (goal_value g) ''version'' = JInt 1"
  "entry (goal_value g) ''session_id'' = JStr (goal_session g)"
  "entry (goal_value g) ''goal_id'' = JStr (goal_id g)"
  "entry (goal_value g) ''objective'' = JStr (goal_objective g)"
  "entry (goal_value g) ''status'' = JStr (status_text_of (goal_status g))"
  "entry (goal_value g) ''token_budget'' = int_or_null (goal_budget g)"
  "entry (goal_value g) ''tokens_used'' = JInt (goal_tokens g)"
  "entry (goal_value g) ''continuations'' = JInt (goal_continuations g)"
  "entry (goal_value g) ''consecutive_empty'' = JInt (goal_empty g)"
  "entry (goal_value g) ''settled_through_seq'' = JInt (goal_settled g)"
  "entry (goal_value g) ''usage_coverage'' = JStr (coverage_text (goal_coverage g))"
  "entry (goal_value g) ''last_settled_message_id'' = text_or_null (goal_settled_id g)"
  "entry (goal_value g) ''continuation_id'' = text_or_null (goal_continuation g)"
  "entry (goal_value g) ''created_at'' = JStr (iso_text (goal_created g))"
  "entry (goal_value g) ''updated_at'' = JStr (iso_text (goal_updated g))"
  "entry (goal_value g) ''last_reason'' = text_or_null (goal_reason g)"
  by (simp_all add: entry_def goal_value_def)

lemma decode_goal_value:
  assumes "stamp_ok (goal_created g)" "stamp_ok (goal_updated g)"
    and "decode_goal (goal_session g) (JObj (goal_value g)) = Inr g'"
  shows "g' = g"
proof -
  from assms show ?thesis
    by (auto simp: decode_goal_def goal_entries attempt_eq_Inr split: if_split_asm
      dest!: read_optional_text_Inr read_text_Inr read_budget_Inr read_int_from_Inr read_objective_Inr)
qed

lemma encode_goal_Inr:
  assumes "encode_goal g = Inr v"
  shows "v = JObj (goal_value g)" "\<exists>g'. decode_goal (goal_session g) v = Inr g'"
  using assms by (auto simp: encode_goal_def Let_def attempt_eq_Inr)

lemma goal_roundtrip:
  assumes "stamp_ok (goal_created g)" "stamp_ok (goal_updated g)" "encode_goal g = Inr v"
  shows "decode_goal (goal_session g) v = Inr g" "decode_goal (goal_session g) (json_norm v) = Inr g"
proof -
  note v = encode_goal_Inr [OF assms(3)]
  then show 1: "decode_goal (goal_session g) v = Inr g"
    using decode_goal_value [OF assms(1,2)] by auto
  then show "decode_goal (goal_session g) (json_norm v) = Inr g"
    using decode_goal_norm by (simp add: v(1) del: json_norm.simps)
qed

lemma read_budget_ok: "normalize_token_budget b = Inr b \<Longrightarrow> read_budget (int_or_null b) = Inr b"
  by (cases b) (simp_all add: read_budget_def int_or_null_def)

lemma encode_goal_ok:
  assumes "goal_ok g" "stamp_ok (goal_created g)" "stamp_ok (goal_updated g)"
    and "goal_settled_id g \<noteq> Some []" "goal_continuation g \<noteq> Some []" "goal_reason g \<noteq> Some []"
  shows "encode_goal g = Inr (JObj (goal_value g))"
proof -
  have opt: "t \<noteq> Some [] \<Longrightarrow> read_optional_text (text_or_null t) = Inr t" for t
    by (cases t) (simp_all add: read_optional_text_def text_or_null_def)
  have "decode_goal (goal_session g) (JObj (goal_value g)) = Inr g"
    using assms(1-3) goal_value_keys [of g]
    by (simp add: decode_goal_def goal_entries goal_ok_def opt assms(4-6) read_budget_ok read_int_from_def
      read_objective_def read_text_def py_is_one_def)
  then show ?thesis by (simp add: encode_goal_def Let_def)
qed

text \<open>Receipts.\<close>

lemma decode_operation_norm:
  assumes "g = JNull \<or> (\<exists>x. g = JObj (goal_value x))"
  shows "decode_operation (json_norm (JObj (operation_value op g))) = decode_operation (JObj (operation_value op g))"
proof -
  let ?ns = "sort_fields (map (map_prod id json_norm) (operation_value op g))"
  have keys: "set (keys_of ?ns) = set (keys_of (operation_value op g))" by (simp add: image_image)
  have dist: "distinct (keys_of (operation_value op g))" by (simp add: operation_value_def)
  have get: "entry ?ns k = (case map_of (operation_value op g) k of None \<Rightarrow> JNull | Some v \<Rightarrow> json_norm v)" for k
    unfolding entry_def map_of_norm [OF dist] by (cases "map_of (operation_value op g) k") simp_all
  have goal: "read_goal (json_norm g) = read_goal g"
  proof (cases "g = JNull")
    case False
    then obtain x where x: "g = JObj (goal_value x)" using assms by blast
    have "distinct (keys_of (goal_value x))" by (simp add: goal_value_keys goal_fields_def)
    then have s: "map_of (sort_fields (map (map_prod id json_norm) (goal_value x))) ''session_id'' =
        Some (JStr (goal_session x))"
      by (simp only: map_of_norm) (simp add: goal_value_def)
    have s': "map_of (goal_value x) ''session_id'' = Some (JStr (goal_session x))"
      by (simp add: goal_value_def)
    show ?thesis
      using decode_goal_norm [of "goal_session x" x] unfolding x
      by (simp add: read_goal_def s s')
  qed simp
  have scalars: "entry ?ns ''version'' = JInt 1" "entry ?ns ''kind'' = JStr (op_kind op)"
    "entry ?ns ''digest'' = JStr (op_digest op)" "entry ?ns ''response'' = JStr (op_response op)"
    "entry ?ns ''goal'' = json_norm g" "entry ?ns ''created_at'' = JStr (iso_text (op_created op))"
    "entry (operation_value op g) ''version'' = JInt 1" "entry (operation_value op g) ''kind'' = JStr (op_kind op)"
    "entry (operation_value op g) ''digest'' = JStr (op_digest op)"
    "entry (operation_value op g) ''response'' = JStr (op_response op)"
    "entry (operation_value op g) ''goal'' = g"
    "entry (operation_value op g) ''created_at'' = JStr (iso_text (op_created op))"
    by (simp_all add: get) (simp_all add: operation_value_def entry_def)
  show ?thesis
    by (simp only: json_norm.simps decode_operation_def json.case keys scalars goal)
qed

definition receipt_ok :: "operation \<Rightarrow> bool" where
  "receipt_ok op \<longleftrightarrow> stamp_ok (op_created op) \<and>
     (\<forall>g. op_goal op = Some g \<longrightarrow> stamp_ok (goal_created g) \<and> stamp_ok (goal_updated g))"

lemma read_goal_encoded:
  assumes "stamp_ok (goal_created g)" "stamp_ok (goal_updated g)" "encode_goal g = Inr v"
  shows "read_goal v = Inr (Some g)"
proof -
  have v: "v = JObj (goal_value g)" by (rule encode_goal_Inr(1) [OF assms(3)])
  have "map_of (goal_value g) ''session_id'' = Some (JStr (goal_session g))"
    by (simp add: goal_value_def)
  then show ?thesis using goal_roundtrip(1) [OF assms] by (simp add: v read_goal_def)
qed

lemma operation_roundtrip:
  assumes "receipt_ok op" "encode_operation op = Inr v"
  shows "decode_operation v = Inr op" "decode_operation (json_norm v) = Inr op"
proof -
  from assms(2) obtain g where g: "(case op_goal op of None \<Rightarrow> Inr JNull | Some x \<Rightarrow> encode_goal x) = Inr g"
    and v: "v = JObj (operation_value op g)" and ok: "\<exists>op'. decode_operation v = Inr op'"
    by (auto simp: encode_operation_def Let_def attempt_eq_Inr)
  have rg: "read_goal g = Inr (op_goal op)"
  proof (cases "op_goal op")
    case None
    then show ?thesis using g by (simp add: read_goal_def)
  next
    case (Some x)
    then show ?thesis using g assms(1) read_goal_encoded [of x g] by (simp add: receipt_ok_def)
  qed
  have entries: "entry (operation_value op g) ''kind'' = JStr (op_kind op)"
    "entry (operation_value op g) ''digest'' = JStr (op_digest op)"
    "entry (operation_value op g) ''response'' = JStr (op_response op)"
    "entry (operation_value op g) ''goal'' = g"
    "entry (operation_value op g) ''created_at'' = JStr (iso_text (op_created op))"
    by (simp_all add: entry_def operation_value_def)
  have stamp: "stamp_ok (op_created op)" using assms(1) by (simp add: receipt_ok_def)
  show 1: "decode_operation v = Inr op"
    using ok stamp unfolding v
    by (auto simp: decode_operation_def entries rg attempt_eq_Inr read_kind_def read_digest_def read_text_def
      split: if_split_asm)
  have "g = JNull \<or> (\<exists>x. g = JObj (goal_value x))"
    using g encode_goal_Inr(1) by (auto split: option.splits)
  then show "decode_operation (json_norm v) = Inr op"
    using 1 decode_operation_norm by (simp add: v del: json_norm.simps)
qed

lemma new_goal_times:
  assumes "new_goal s gid objective budget seq now = Inr g"
  shows "goal_created g = now" "goal_updated g = now" "goal_settled_id g = None"
    "goal_continuation g = None" "goal_reason g = None" "goal_session g = s"
  using assms by (auto simp: new_goal_def attempt_eq_Inr Let_def split: if_split_asm)

lemma stamp_epoch: "stamp_ok epoch"
  by (simp add: stamp_ok_def moment_ok_def epoch_def days_in_month_def month_lengths_def)

text \<open>
  C30. Goals survive storage: every well-formed goal is encoded, and decoding the
  stored record gives the same goal back.
\<close>

theorem goal_codec_roundtrip:
  assumes "goal_ok g" "stamp_ok (goal_created g)" "stamp_ok (goal_updated g)"
    and "goal_settled_id g \<noteq> Some []" "goal_continuation g \<noteq> Some []" "goal_reason g \<noteq> Some []"
  shows "\<exists>v. encode_goal g = Inr v \<and> decode_goal (goal_session g) (json_norm v) = Inr g"
  using encode_goal_ok [OF assms] goal_roundtrip(2) [OF assms(2,3)] by blast

theorem goal_codec_roundtrip_witness:
  "\<exists>v. encode_goal fresh_goal = Inr v \<and> decode_goal ''s'' (json_norm v) = Inr fresh_goal"
proof -
  have "goal_ok fresh_goal" by (rule new_goal_ok [OF fresh_goal])
  moreover have "stamp_ok (goal_created fresh_goal)" "stamp_ok (goal_updated fresh_goal)"
    "goal_settled_id fresh_goal \<noteq> Some []" "goal_continuation fresh_goal \<noteq> Some []"
    "goal_reason fresh_goal \<noteq> Some []"
    using new_goal_times [OF fresh_goal] stamp_epoch by simp_all
  ultimately have "\<exists>v. encode_goal fresh_goal = Inr v \<and>
      decode_goal (goal_session fresh_goal) (json_norm v) = Inr fresh_goal"
    by (rule goal_codec_roundtrip)
  then show ?thesis using new_goal_times(6) [OF fresh_goal] by simp
qed

end
