(* ===== verification/Owner_Runs.thy ===== *)
theory Owner_Runs
  imports Owner_Properties
begin

text \<open>
  Successful runs of a transaction's callback, taken apart call by call: the rules with which
  the owners' theories read off what a committed transaction did and what it had checked.
\<close>

named_theorems tx_simps \<open>a callback that runs to its end, one call at a time\<close>

definition tx_gives :: "tx_env \<Rightarrow> 'a tx \<Rightarrow> ledger \<Rightarrow> 'a \<Rightarrow> ledger \<Rightarrow> bool" where
  "tx_gives env p l x l' \<longleftrightarrow> run_tx env p (l, False) = (Inr x, l', False)"

lemma transact_Inr: "transact env p l = (Inr x, l') \<longleftrightarrow> tx_gives env p l x l'"
  by (auto simp: transact_def tx_gives_def split: prod.splits sum.splits if_splits)

lemma transact_Inl: "transact env p l = (Inl e, l') \<Longrightarrow> l' = l"
  by (auto simp: transact_def split: prod.splits sum.splits if_splits)

lemma tx_gives_Return [tx_simps]: "tx_gives env (Return y) l x l' \<longleftrightarrow> x = y \<and> l' = l"
  by (auto simp: tx_gives_def)

lemma tx_gives_Raise [tx_simps]: "\<not> tx_gives env (Raise e) l x l'"
  by (simp add: tx_gives_def)

lemma tx_gives_res [tx_simps]:
  "tx_gives env (tx_res r c) l x l' \<longleftrightarrow> (\<exists>y. r = Inr y \<and> tx_gives env (c y) l x l')"
  by (cases r) (simp_all add: tx_simps)

lemma tx_gives_read [tx_simps]:
  "tx_gives env (TxRead k (tx_ok c)) l x l' \<longleftrightarrow>
   (\<exists>rec. owner_read (env_owner env) k l = Inr rec \<and> tx_gives env (c rec) l x l')"
  by (cases "owner_read (env_owner env) k l") (simp_all add: tx_gives_def)

lemma tx_gives_save [tx_simps]:
  "tx_gives env (TxSave k v n (tx_ok c)) l x l' \<longleftrightarrow>
   (\<exists>m l1. owner_save (env_owner env) k v n l = Inr (m, l1) \<and> tx_gives env (c m) l1 x l')"
  by (cases "owner_save (env_owner env) k v n l") (auto simp: tx_gives_def perform_def)

lemma tx_gives_delete [tx_simps]:
  "tx_gives env (TxDelete k n (tx_ok c)) l x l' \<longleftrightarrow>
   (\<exists>l1. owner_delete (env_owner env) k n l = Inr l1 \<and> tx_gives env (c ()) l1 x l')"
  by (cases "owner_delete (env_owner env) k n l") (auto simp: tx_gives_def perform_def)

lemma tx_gives_source [tx_simps]:
  "tx_gives env (TxSourceChanged s src n (tx_ok c)) l x l' \<longleftrightarrow>
   tx_gives env (c (reader_source_changed l s src n)) l x l'"
  by (simp add: tx_gives_def)

lemma tx_gives_append [tx_simps]:
  "tx_gives env (TxAppend w mid b h md (tx_ok c)) l x l' \<longleftrightarrow>
   (\<exists>m l1. writer_append (env_checks env) (env_now env) w mid b h md l = Inr (m, l1) \<and>
      tx_gives env (c m) l1 x l')"
  by (cases "writer_append (env_checks env) (env_now env) w mid b h md l")
    (auto simp: tx_gives_def perform_def)

lemma tx_gives_if [tx_simps]:
  "tx_gives env (if b then p else q) l x l' \<longleftrightarrow> (b \<longrightarrow> tx_gives env p l x l') \<and> (\<not> b \<longrightarrow> tx_gives env q l x l')"
  by simp

lemma tx_gives_database_ok:
  assumes "tx_wf p" "database_ok l" "tx_gives env p l x l'"
  shows "database_ok l'"
  using transact_database_ok [OF assms(1,2), of env] assms(3) by (simp add: transact_Inr [symmetric])

text \<open>Reading a record is looking it up.\<close>

lemma owner_read_look: "owners_ok l \<Longrightarrow> owner_read own k l = Inr (owner_look own l k)"
  by (cases "owner_row_of own k l")
    (auto simp: owner_read_def owner_look_def owners_ok_def decode_owner_row_def dest!: owner_row_of_Some
      split: json.splits)

lemma owner_look_frame:
  assumes "led_owners l' = led_owners l"
  shows "owner_look own l' = owner_look own l"
  using assms by (simp add: owner_look_def owner_row_of_def fun_eq_iff)

text \<open>A list of records that are deleted together.\<close>

primrec tx_deletes :: "(string \<times> nat) list \<Rightarrow> 'a tx \<Rightarrow> 'a tx" where
  "tx_deletes [] p = p"
| "tx_deletes (kv # kvs) p = TxDelete (fst kv) (int (snd kv)) (tx_ok (\<lambda>_. tx_deletes kvs p))"

lemma tx_wf_deletes [simp]: "tx_wf (tx_deletes kvs p) \<longleftrightarrow> tx_wf p"
  by (induction kvs) (simp_all add: split_sum_all)

definition deleted_from :: "string \<Rightarrow> string set \<Rightarrow> ledger \<Rightarrow> ledger \<Rightarrow> bool" where
  "deleted_from own ks l l' \<longleftrightarrow> owners_ok l' \<and>
     owner_look own l' = (\<lambda>k. if k \<in> ks then None else owner_look own l k) \<and>
     (\<forall>own' k. own' \<noteq> own \<longrightarrow> owner_look own' l' k = owner_look own' l k) \<and>
     led_sessions l' = led_sessions l \<and> led_messages l' = led_messages l"

lemma tx_gives_deletes:
  assumes "owners_ok l" "tx_gives env (tx_deletes kvs p) l x l'"
  shows "\<exists>l1. deleted_from (env_owner env) (fst ` set kvs) l l1 \<and> tx_gives env p l1 x l' \<and>
    distinct (map fst kvs) \<and> (\<forall>(k, n) \<in> set kvs. map_option fst (owner_look (env_owner env) l k) = Some n)"
  using assms
proof (induction kvs arbitrary: l)
  case Nil
  then show ?case by (auto simp: deleted_from_def)
next
  case (Cons kv kvs)
  obtain k n where kv: "kv = (k, n)" by (cases kv)
  let ?own = "env_owner env"
  from Cons.prems(2) kv obtain l1 where d: "owner_delete ?own k (int n) l = Inr l1"
    and rest: "tx_gives env (tx_deletes kvs p) l1 x l'"
    by (auto simp: tx_simps)
  note eff = owner_delete_Inr [OF Cons.prems(1) d]
  from Cons.IH [OF _ rest] eff obtain l2 where l2: "deleted_from ?own (fst ` set kvs) l1 l2"
    "tx_gives env p l2 x l'" "distinct (map fst kvs)"
    "\<forall>(j, m) \<in> set kvs. map_option fst (owner_look ?own l1 j) = Some m" by blast
  have "k \<notin> fst ` set kvs" using l2(4) eff by auto
  moreover have "deleted_from ?own (fst ` set (kv # kvs)) l l2"
    using l2(1) eff owner_delete_frame [OF d] by (auto simp: deleted_from_def kv fun_eq_iff)
  moreover have "\<forall>(j, m) \<in> set (kv # kvs). map_option fst (owner_look ?own l j) = Some m"
    using l2(4) eff kv by (auto simp: fun_upd_def split: if_split_asm)
  ultimately show ?case using l2(2,3) kv by auto
qed

end
