(* ===== verification/Goal_Store.thy ===== *)
theory Goal_Store
  imports Goal_Codec Owner_Runs
begin

text \<open>
  \<open>GoalStore\<close> of \<open>plugins/goal/store.py\<close>: the goal owner's transactions. A request of the
  commands or tools carries a key under which its receipt is stored with the change it made;
  the runtime settles rounds and starts continuations under the version it has read. Other
  writers of the database may act between the steps of an operation that are not in one
  transaction (\<open>world\<close>); the clock is read where the code reads it.
\<close>

section \<open>Reading\<close>

text \<open>The validator of text content that the store grants its writer (\<open>plugins/content\<close>).\<close>

definition check_text :: "part \<Rightarrow> content_references res" where
  "check_text p = (case p of
     ContentPart _ (JStr _) \<Rightarrow> mk_references [] [] | _ \<Rightarrow> Inl TypeError)"

definition goal_writer :: "string \<Rightarrow> writer" where
  "goal_writer s = \<lparr>wr_session = s, wr_author = ''goal'', wr_source = ''conversation'',
     wr_types = [InputKind], wr_content = (\<lambda>k. if k = ''text'' then Some check_text else None),
     wr_call = None, wr_check_call = None, wr_session_keys = [], wr_update = None,
     wr_message_keys = [], wr_check_metadata = None, wr_active = True\<rparr>"

definition get_with_version :: "string \<Rightarrow> string \<Rightarrow> ledger \<Rightarrow> (goal \<times> nat) option res" where
  "get_with_version own s l =
     attempt (goal_key s) (\<lambda>k.
     attempt (owner_read own k l) (\<lambda>record. case record of
       None \<Rightarrow> Inr None
     | Some (n, v) \<Rightarrow> attempt (decode_goal s v) (\<lambda>g. Inr (Some (g, n)))))"

definition get_goal :: "string \<Rightarrow> string \<Rightarrow> ledger \<Rightarrow> goal option res" where
  "get_goal own s l =
     attempt (goal_key s) (\<lambda>k.
     attempt (owner_read own k l) (\<lambda>record. case record of
       None \<Rightarrow> Inr None
     | Some (_, v) \<Rightarrow> attempt (decode_goal s v) (\<lambda>g. Inr (Some g))))"

definition goal_version :: "string \<Rightarrow> string \<Rightarrow> ledger \<Rightarrow> nat res" where
  "goal_version own s l =
     attempt (goal_key s) (\<lambda>k.
     attempt (owner_read own k l) (\<lambda>record. case record of
       None \<Rightarrow> Inl MessageConflict | Some (n, _) \<Rightarrow> Inr n))"

definition listed_goals ::
  "(goal \<Rightarrow> bool) \<Rightarrow> string \<Rightarrow> ledger \<Rightarrow> string list res" where
  "listed_goals wanted own l =
     attempt (owner_list own l) (\<lambda>records.
     attempt (traverse (\<lambda>(k, _, v). attempt (decode_goal (drop (length goal_prefix) k) v)
         (\<lambda>g. Inr (drop (length goal_prefix) k, g)))
       (filter (\<lambda>(k, _, _). starts_with k goal_prefix) records)) (\<lambda>goals.
     Inr (map fst (filter (\<lambda>(_, g). wanted g) goals))))"

definition active_sessions :: "string \<Rightarrow> ledger \<Rightarrow> string list res" where
  "active_sessions = listed_goals goal_active"

definition runtime_sessions :: "string \<Rightarrow> ledger \<Rightarrow> string list res" where
  "runtime_sessions = listed_goals (\<lambda>g. goal_active g \<or> goal_continuation g \<noteq> None)"

definition conversation_head :: "string \<Rightarrow> ledger \<Rightarrow> int" where
  "conversation_head s l = reader_head l s (Some ''conversation'')"

definition stored_operation :: "string \<Rightarrow> string \<Rightarrow> string \<Rightarrow> string \<Rightarrow> ledger \<Rightarrow> operation option res" where
  "stored_operation own kind s oid l =
     attempt (operation_key kind s oid) (\<lambda>k.
     attempt (owner_read own k l) (\<lambda>record. case record of
       None \<Rightarrow> Inr None
     | Some (_, v) \<Rightarrow> attempt (decode_operation v) (\<lambda>op. Inr (Some op))))"

section \<open>Receipts that have to go\<close>

definition max_operations :: nat where "max_operations = 1024"

text \<open>The subclasses of \<open>ValueError\<close> among the exceptions, and those of \<open>MessageConflict\<close>.\<close>

definition is_value_error :: "py_error \<Rightarrow> bool" where
  "is_value_error e \<longleftrightarrow> e \<in> {ValueError, InvalidPage, MessageConflict, SourceHeadConflict, GoalStale, GoalConflict}"

definition is_conflict :: "py_error \<Rightarrow> bool" where
  "is_conflict e \<longleftrightarrow> e \<in> {MessageConflict, SourceHeadConflict}"

fun decode_receipts :: "(string \<times> nat \<times> json) list \<Rightarrow> (moment \<times> string \<times> nat) list res" where
  "decode_receipts [] = Inr []"
| "decode_receipts ((k, n, v) # rs) = (case decode_operation v of
     Inl e \<Rightarrow> if is_value_error e then decode_receipts rs else Inl e
   | Inr op \<Rightarrow> attempt (decode_receipts rs) (\<lambda>ds. Inr ((op_created op, k, n) # ds)))"

definition stale_operations :: "string \<Rightarrow> nat \<Rightarrow> ledger \<Rightarrow> (string \<times> nat) list res" where
  "stale_operations own reserve l =
     attempt (owner_list own l) (\<lambda>all.
     let records = filter (\<lambda>(k, _, _). starts_with k operation_prefix) all;
         keep = max_operations - reserve
     in if length records \<le> keep then Inr []
        else attempt (decode_receipts records) (\<lambda>decoded.
          Inr (map (\<lambda>(_, k, n). (k, n))
            (take (length decoded - keep) (sort_key (\<lambda>(created, _, _). instant created) decoded)))))"

section \<open>Applying a request\<close>

record request =
  rq_session :: string
  rq_kind :: string
  rq_digest :: string
  rq_action :: "goal option \<Rightarrow> (goal option \<times> string) res"
  rq_head :: "int option"
  rq_goal :: "(string \<times> int) option"

definition receipt_matches :: "request \<Rightarrow> operation \<Rightarrow> bool" where
  "receipt_matches rq op \<longleftrightarrow> op_kind op = rq_kind rq \<and> op_digest op = rq_digest rq"

text \<open>The goal's record is replaced, created or deleted.\<close>

definition put_goal ::
  "string \<Rightarrow> string \<Rightarrow> goal option \<Rightarrow> (nat \<times> json) option \<Rightarrow> 'a tx \<Rightarrow> 'a tx" where
  "put_goal s k changed current rest = (case changed of
     None \<Rightarrow> (case current of
         None \<Rightarrow> rest
       | Some (n, _) \<Rightarrow> TxDelete k (int n) (tx_ok (\<lambda>_. rest)))
   | Some g \<Rightarrow>
       if goal_session g \<noteq> s then Raise ValueError
       else tx_res (encode_goal g) (\<lambda>v.
         TxSave k v (map_option (\<lambda>(n, _). int n) current) (tx_ok (\<lambda>_. rest))))"

definition decode_current :: "string \<Rightarrow> (nat \<times> json) option \<Rightarrow> goal option res" where
  "decode_current s current = (case current of
     None \<Rightarrow> Inr None
   | Some (_, v) \<Rightarrow> attempt (decode_goal s v) (\<lambda>g. Inr (Some g)))"

text \<open>The snapshot that the request was prepared against.\<close>

definition check_snapshot ::
  "(string \<times> int) option \<Rightarrow> (nat \<times> json) option \<Rightarrow> goal option \<Rightarrow> unit res" where
  "check_snapshot expected current cur = (case expected of
     None \<Rightarrow> Inr ()
   | Some e \<Rightarrow> (case (current, cur) of
       (Some (n, _), Some g) \<Rightarrow> if (goal_id g, int n) \<noteq> e then Inl GoalStale else Inr ()
     | _ \<Rightarrow> Inl GoalStale))"

definition apply_change ::
  "request \<Rightarrow> string \<Rightarrow> moment \<Rightarrow> (string \<times> nat) list \<Rightarrow> (goal option \<times> string) tx" where
  "apply_change rq k now stale =
     tx_res (goal_key (rq_session rq)) (\<lambda>gk.
     TxRead gk (tx_ok (\<lambda>current.
     tx_res (decode_current (rq_session rq) current) (\<lambda>cur.
     tx_res (check_snapshot (rq_goal rq) current cur) (\<lambda>_.
     tx_res (rq_action rq cur) (\<lambda>(changed, response).
     put_goal (rq_session rq) gk changed current (
     tx_res (encode_operation \<lparr>op_kind = rq_kind rq, op_digest = rq_digest rq, op_response = response,
         op_goal = changed, op_created = now\<rparr>) (\<lambda>v.
     TxSave k v None (tx_ok (\<lambda>_.
     tx_deletes stale (Return (changed, response)))))))))))) "

definition apply_tx ::
  "request \<Rightarrow> string \<Rightarrow> moment \<Rightarrow> (string \<times> nat) list \<Rightarrow> (goal option \<times> string) tx" where
  "apply_tx rq k now stale =
     TxRead k (tx_ok (\<lambda>previous. case previous of
       Some (_, v) \<Rightarrow> tx_res (decode_operation v) (\<lambda>op.
         if \<not> receipt_matches rq op then Raise MessageConflict
         else Return (op_goal op, op_response op))
     | None \<Rightarrow> (case rq_head rq of
         None \<Rightarrow> apply_change rq k now stale
       | Some h \<Rightarrow> TxSourceChanged (rq_session rq) ''conversation'' h (tx_ok (\<lambda>changed.
           if changed then Raise MessageConflict else apply_change rq k now stale)))))"

text \<open>Three attempts: a conflict is retried unless the key now holds another request's receipt.\<close>

fun apply_attempts ::
  "tx_env \<Rightarrow> request \<Rightarrow> string \<Rightarrow> (nat \<Rightarrow> moment) \<Rightarrow> (nat \<Rightarrow> ledger \<Rightarrow> ledger) \<Rightarrow> nat \<Rightarrow> nat \<Rightarrow> ledger \<Rightarrow>
   (goal option \<times> string) res \<times> ledger" where
  "apply_attempts env rq k clock world i 0 l = (Inl MessageConflict, l)"
| "apply_attempts env rq k clock world i (Suc n) l =
     (case stale_operations (env_owner env) 1 l of
        Inl e \<Rightarrow> (Inl e, l)
      | Inr stale \<Rightarrow>
     (case transact env (apply_tx rq k (clock i) stale) (world (3 * i) l) of
        (Inr x, l2) \<Rightarrow> (Inr x, l2)
      | (Inl e, l2) \<Rightarrow>
          if \<not> is_conflict e then (Inl e, l2)
          else let l3 = world (3 * i + 1) l2 in
            (case owner_read (env_owner env) k l3 of
               Inl e' \<Rightarrow> (Inl e', l3)
             | Inr None \<Rightarrow> apply_attempts env rq k clock world (Suc i) n (world (3 * i + 2) l3)
             | Inr (Some (_, v)) \<Rightarrow> (case decode_operation v of
                  Inl e' \<Rightarrow> (Inl e', l3)
                | Inr op \<Rightarrow>
                    if \<not> receipt_matches rq op then (Inl e, l3)
                    else apply_attempts env rq k clock world (Suc i) n (world (3 * i + 2) l3)))))"

definition apply_operation ::
  "tx_env \<Rightarrow> request \<Rightarrow> string \<Rightarrow> (nat \<Rightarrow> moment) \<Rightarrow> (nat \<Rightarrow> ledger \<Rightarrow> ledger) \<Rightarrow> ledger \<Rightarrow>
   (goal option \<times> string) res \<times> ledger" where
  "apply_operation env rq oid clock world l = (case operation_key (rq_kind rq) (rq_session rq) oid of
     Inl e \<Rightarrow> (Inl e, l)
   | Inr k \<Rightarrow> apply_attempts env rq k clock world 0 3 l)"

section \<open>Settling and starting rounds\<close>

record settlement = round +
  st_append :: bool
  st_pause_after :: bool

definition save_goal :: "string \<Rightarrow> goal \<Rightarrow> nat \<Rightarrow> goal tx" where
  "save_goal k g n = tx_res (encode_goal g) (\<lambda>v. TxSave k v (Some (int n)) (tx_ok (\<lambda>_. Return g)))"

text \<open>The checks \<open>settle\<close> and \<open>start\<close> share: the version, the identity, the state and the
  conversation that the runtime has read.\<close>

definition with_expected ::
  "string \<Rightarrow> string \<Rightarrow> int \<Rightarrow> int \<Rightarrow> bool \<Rightarrow> (string \<Rightarrow> nat \<Rightarrow> goal \<Rightarrow> goal tx) \<Rightarrow> goal tx" where
  "with_expected s gid version head allow_inactive go =
     tx_res (goal_key s) (\<lambda>k.
     TxRead k (tx_ok (\<lambda>current. case current of
       None \<Rightarrow> Raise MessageConflict
     | Some (n, v) \<Rightarrow>
         if int n \<noteq> version then Raise MessageConflict
         else tx_res (decode_goal s v) (\<lambda>g.
           if goal_id g \<noteq> gid then Raise MessageConflict
           else if \<not> goal_active g \<and> \<not> allow_inactive then Raise MessageConflict
           else TxSourceChanged s ''conversation'' head (tx_ok (\<lambda>changed.
             if changed then Raise MessageConflict else go k n g))))))"

definition continuation_body :: "string \<Rightarrow> body" where
  "continuation_body t = Input [ContentPart ''text'' (JStr t)]"

definition stop_reason :: "string option \<Rightarrow> string" where
  "stop_reason reason = (case reason of
     None \<Rightarrow> ''stopped by the user'' | Some t \<Rightarrow> if t = [] then ''stopped by the user'' else t)"

text \<open>A continuation is marked, its input posted and the goal saved.\<close>

definition continue_tx ::
  "writer \<Rightarrow> string \<Rightarrow> nat \<Rightarrow> goal \<Rightarrow> string \<Rightarrow> string \<Rightarrow> int \<Rightarrow> moment \<Rightarrow> goal tx" where
  "continue_tx w k n g mid t head now =
     tx_res (mark_continuation g mid now) (\<lambda>marked.
     TxAppend w mid (continuation_body t) (Some head) None (tx_ok (\<lambda>_. save_goal k marked n)))"

definition settle_tx ::
  "writer \<Rightarrow> string \<Rightarrow> string \<Rightarrow> int \<Rightarrow> int \<Rightarrow> settlement \<Rightarrow> (goal \<Rightarrow> string) option \<Rightarrow>
   (goal \<Rightarrow> string) option \<Rightarrow> bool \<Rightarrow> (nat \<Rightarrow> moment) \<Rightarrow> goal tx" where
  "settle_tx w s gid version head st next_id next_text allow_inactive clock =
     with_expected s gid version head allow_inactive (\<lambda>k n g.
     tx_res (settle_round g (round.truncate st) allow_inactive (clock 0)) (\<lambda>settled.
     tx_res (if st_pause_after st \<and> goal_active settled
         then pause_goal settled (stop_reason (rd_reason st)) (clock 1) else Inr settled) (\<lambda>updated.
     if st_append st \<and> goal_active updated
     then (case (next_id, next_text) of
         (Some mk_id, Some mk_text) \<Rightarrow>
           continue_tx w k n updated (mk_id updated) (mk_text updated) head (clock 2)
       | _ \<Rightarrow> Raise ValueError)
     else save_goal k updated n)))"

definition start_tx ::
  "writer \<Rightarrow> string \<Rightarrow> string \<Rightarrow> int \<Rightarrow> int \<Rightarrow> string \<Rightarrow> string \<Rightarrow> moment \<Rightarrow> goal tx" where
  "start_tx w s gid version head mid t now =
     with_expected s gid version head False (\<lambda>k n g. continue_tx w k n g mid t head now)"

definition settle ::
  "tx_env \<Rightarrow> string \<Rightarrow> string \<Rightarrow> int \<Rightarrow> int \<Rightarrow> settlement \<Rightarrow> (goal \<Rightarrow> string) option \<Rightarrow>
   (goal \<Rightarrow> string) option \<Rightarrow> bool \<Rightarrow> (nat \<Rightarrow> moment) \<Rightarrow> ledger \<Rightarrow> goal res \<times> ledger" where
  "settle env s gid version head st next_id next_text allow_inactive clock =
     transact env (settle_tx (goal_writer s) s gid version head st next_id next_text allow_inactive clock)"

definition start ::
  "tx_env \<Rightarrow> string \<Rightarrow> string \<Rightarrow> int \<Rightarrow> int \<Rightarrow> string \<Rightarrow> string \<Rightarrow> moment \<Rightarrow> ledger \<Rightarrow>
   goal res \<times> ledger" where
  "start env s gid version head mid t now =
     transact env (start_tx (goal_writer s) s gid version head mid t now)"

end
