(* ===== verification/Goal_Properties.thy ===== *)
theory Goal_Properties
  imports Goal_Store
begin

text \<open>
  Properties of the goal owner's transactions. The abstract view of the store is one
  versioned goal per Session (\<open>goal_view\<close>) beside the message log: settling, starting and
  applying a request are shown to be single steps of that view.
\<close>

section \<open>The abstract view\<close>

definition goal_view :: "string \<Rightarrow> ledger \<Rightarrow> string \<Rightarrow> (nat \<times> goal) option" where
  "goal_view own l s = (case owner_look own l (goal_prefix @ s) of
     None \<Rightarrow> None
   | Some (n, v) \<Rightarrow> (case decode_goal s v of Inl _ \<Rightarrow> None | Inr g \<Rightarrow> Some (n, g)))"

definition posted :: "writer \<Rightarrow> string \<Rightarrow> body \<Rightarrow> ledger \<Rightarrow> bool" where
  "posted w mid b l \<longleftrightarrow> (\<exists>r. find_message mid l = Some r \<and> row_session r = wr_session w \<and>
     row_author r = wr_author w \<and> row_source r = wr_source w \<and> encode_body True b = Inr (row_body r))"

lemma writer_append_posted:
  assumes "writer_append checks now w mid b (Some h) md l = Inr (m, l')"
  shows "posted w mid b l' \<and>
    (find_message mid l = None \<longrightarrow> reader_head l (wr_session w) (Some (wr_source w)) = h)"
  using assms
proof (cases rule: writer_append_cases)
  case (replayed md)
  then show ?thesis
    by (auto simp: replay_def posted_def attempt_eq_Inr split: option.splits if_split_asm)
next
  case (inserted md pre)
  have fresh: "find_message mid l = None" using replay_fresh [OF inserted(2)] by simp
  have b: "pre_body pre = b" using prepare_Inr [OF inserted(4)] by simp
  from inserted(5) show ?thesis
  proof (rule insert_prepared_Inr)
    fix payload
    assume "encode_body True (pre_body pre) = Inr payload"
      "\<forall>h'. Some h = Some h' \<longrightarrow> reader_head l (wr_session w) (Some (wr_source w)) = h'"
      "led_messages l' = led_messages l @
       [\<lparr>row_id = mid, row_session = wr_session w, row_seq = next_seq l (wr_session w), row_ts = now,
         row_author = wr_author w, row_source = wr_source w, row_body = payload,
         row_metadata = json_norm (pre_metadata pre)\<rparr>]"
    then show ?thesis
      using find_message_append [OF _ fresh] b by (auto simp: posted_def)
  qed
qed

lemma posted_cong: "led_messages l' = led_messages l \<Longrightarrow> posted w mid b l' = posted w mid b l"
  by (simp add: posted_def find_message_def)

lemma decode_goal_Inr:
  assumes "decode_goal s v = Inr g"
  shows "goal_session g = s" "stamp_ok (goal_created g)" "stamp_ok (goal_updated g)"
proof -
  have moment: "stamp_ok t" if "read_moment u = Inr t" for u t
    using that by (auto simp: read_moment_def stamp_ok_def parse_iso_ok split: json.splits option.splits if_split_asm)
  show "goal_session g = s" "stamp_ok (goal_created g)" "stamp_ok (goal_updated g)"
    using assms moment by (auto simp: decode_goal_def attempt_eq_Inr split: json.splits if_split_asm)
qed

lemma goal_prefix_inj [simp]: "goal_prefix @ s = goal_prefix @ t \<longleftrightarrow> s = t"
  by simp

lemma prefixes_differ [simp]: "goal_prefix @ s \<noteq> operation_prefix @ t" "operation_prefix @ t \<noteq> goal_prefix @ s"
  by (simp_all add: goal_prefix_def operation_prefix_def)

lemma operation_key_Inr: "operation_key kind s oid = Inr k \<Longrightarrow> s \<noteq> [] \<and> starts_with k operation_prefix"
  by (auto simp: operation_key_def split: if_split_asm)

text \<open>One goal is written, all else in the view stays.\<close>

definition stores_goal :: "string \<Rightarrow> string \<Rightarrow> (nat \<times> goal) option \<Rightarrow> ledger \<Rightarrow> ledger \<Rightarrow> bool" where
  "stores_goal own s new l l' \<longleftrightarrow> goal_view own l' = (goal_view own l)(s := new)"

lemma goal_view_put:
  assumes "owner_look own l' = (owner_look own l)(goal_prefix @ s := new)"
  shows "goal_view own l' = (goal_view own l)(s := (case new of None \<Rightarrow> None
     | Some (n, v) \<Rightarrow> (case decode_goal s v of Inl _ \<Rightarrow> None | Inr g \<Rightarrow> Some (n, g))))"
  by (auto simp: goal_view_def assms fun_eq_iff split: option.split)

lemma goal_view_other:
  assumes "\<And>s. owner_look own l' (goal_prefix @ s) = owner_look own l (goal_prefix @ s)"
  shows "goal_view own l' = goal_view own l"
  by (simp add: goal_view_def assms fun_eq_iff)

lemma save_goal_gives:
  assumes "owners_ok l" "tx_gives env (save_goal (goal_prefix @ s) g n) l x l'"
    and "goal_session g = s" "stamp_ok (goal_created g)" "stamp_ok (goal_updated g)"
  shows "x = g \<and> stores_goal (env_owner env) s (Some (Suc n, g)) l l' \<and> owners_ok l' \<and>
    owner_look (env_owner env) l' (goal_prefix @ s) \<noteq> None \<and>
    map_option fst (owner_look (env_owner env) l' (goal_prefix @ s)) = Some (Suc n) \<and>
    led_messages l' = led_messages l"
proof -
  from assms(2) obtain v m l1 where v: "encode_goal g = Inr v"
    and save: "owner_save (env_owner env) (goal_prefix @ s) v (Some (int n)) l = Inr (m, l1)"
    and x: "x = g" "l' = l1"
    by (auto simp: save_goal_def tx_simps)
  note eff = owner_save_update [OF assms(1) save]
  have "decode_goal s (json_norm v) = Inr g"
    using goal_roundtrip(2) [OF assms(4,5) v] assms(3) by simp
  then have "stores_goal (env_owner env) s (Some (Suc n, g)) l l1"
    using goal_view_put [of "env_owner env" l1 l s "Some (m, json_norm v)"] eff by (simp add: stores_goal_def)
  then show ?thesis using x eff owner_save_frame(2) [OF save] by simp
qed

lemma with_expected_gives:
  assumes "owners_ok l" "tx_gives env (with_expected s gid version head allow go) l x l'"
  shows "\<exists>n g. goal_view (env_owner env) l s = Some (n, g) \<and> int n = version \<and> s \<noteq> [] \<and>
    goal_id g = gid \<and> (goal_active g \<or> allow) \<and> goal_session g = s \<and>
    stamp_ok (goal_created g) \<and> stamp_ok (goal_updated g) \<and>
    \<not> reader_source_changed l s ''conversation'' head \<and> tx_gives env (go (goal_prefix @ s) n g) l x l'"
proof -
  from assms(2) obtain rw where s: "s \<noteq> []"
    and look: "owner_look (env_owner env) l (goal_prefix @ s) = rw"
    and rest: "tx_gives env (case rw of None \<Rightarrow> Raise MessageConflict
      | Some (n, v) \<Rightarrow>
         if int n \<noteq> version then Raise MessageConflict
         else tx_res (decode_goal s v) (\<lambda>g.
           if goal_id g \<noteq> gid then Raise MessageConflict
           else if \<not> goal_active g \<and> \<not> allow then Raise MessageConflict
           else TxSourceChanged s ''conversation'' head (tx_ok (\<lambda>changed.
             if changed then Raise MessageConflict else go (goal_prefix @ s) n g)))) l x l'"
    by (auto simp: with_expected_def goal_key_def tx_simps owner_read_look [OF assms(1)] split: if_split_asm)
  from rest obtain n v where rec: "rw = Some (n, v)"
    by (cases rw) (auto simp: tx_simps)
  from rest obtain g where d: "int n = version" "decode_goal s v = Inr g" "goal_id g = gid"
      "goal_active g \<or> allow" "\<not> reader_source_changed l s ''conversation'' head"
      "tx_gives env (go (goal_prefix @ s) n g) l x l'"
    by (auto simp: rec tx_simps split: if_split_asm)
  then show ?thesis using s look rec decode_goal_Inr [OF d(2)] by (auto simp: goal_view_def)
qed

text \<open>A goal whose version has moved on refuses what was prepared for the old one.\<close>

lemma with_expected_stale:
  assumes "owners_ok l" "s \<noteq> []"
    and "map_option (\<lambda>r. int (fst r)) (owner_look (env_owner env) l (goal_prefix @ s)) \<noteq> Some version"
  shows "transact env (with_expected s gid version head allow go) l = (Inl MessageConflict, l)"
  using assms(3)
  by (cases "owner_look (env_owner env) l (goal_prefix @ s)")
    (auto simp: with_expected_def transact_def goal_key_def owner_read_look [OF assms(1)] assms(2) split: prod.split)

section \<open>Settling and starting\<close>

text \<open>What a settlement makes of the goal, as a function.\<close>

definition settled_goal ::
  "settlement \<Rightarrow> bool \<Rightarrow> (goal \<Rightarrow> string) option \<Rightarrow> (nat \<Rightarrow> moment) \<Rightarrow> goal \<Rightarrow> goal res" where
  "settled_goal st allow next_id clock g =
     attempt (settle_round g (round.truncate st) allow (clock 0)) (\<lambda>settled.
     attempt (if st_pause_after st \<and> goal_active settled
         then pause_goal settled (stop_reason (rd_reason st)) (clock 1) else Inr settled) (\<lambda>updated.
     if st_append st \<and> goal_active updated
     then (case next_id of None \<Rightarrow> Inl ValueError
       | Some mk_id \<Rightarrow> mark_continuation updated (mk_id updated) (clock 2))
     else Inr updated))"

definition touched :: "(nat \<Rightarrow> moment) \<Rightarrow> goal \<Rightarrow> goal \<Rightarrow> bool" where
  "touched clock g g' \<longleftrightarrow> goal_session g' = goal_session g \<and> goal_created g' = goal_created g \<and>
     (goal_updated g' = goal_updated g \<or> goal_updated g' \<in> range clock)"

lemma touched_stamps:
  assumes "touched clock g g'" "\<And>i. stamp_ok (clock i)" "stamp_ok (goal_created g)" "stamp_ok (goal_updated g)"
  shows "stamp_ok (goal_created g') \<and> stamp_ok (goal_updated g')"
  using assms by (auto simp: touched_def)

lemma pause_goal_Inr: "pause_goal g reason now = Inr g' \<Longrightarrow> g' = stop_goal now PausedGoal reason g"
  by (simp add: pause_goal_def split: if_split_asm)

lemma mark_continuation_Inr:
  "mark_continuation g mid now = Inr g' \<Longrightarrow> mid \<noteq> [] \<and> goal_active g \<and>
   g' = g\<lparr>goal_updated := now, goal_continuations := goal_continuations g + 1, goal_continuation := Some mid\<rparr>"
  by (simp add: mark_continuation_def split: if_split_asm)

text \<open>The goal after the settlement, before any continuation is marked.\<close>

definition settled_before ::
  "settlement \<Rightarrow> bool \<Rightarrow> (nat \<Rightarrow> moment) \<Rightarrow> goal \<Rightarrow> goal res" where
  "settled_before st allow clock g =
     attempt (settle_round g (round.truncate st) allow (clock 0)) (\<lambda>settled.
       if st_pause_after st \<and> goal_active settled
       then pause_goal settled (stop_reason (rd_reason st)) (clock 1) else Inr settled)"

lemma settled_goal_eq:
  "settled_goal st allow next_id clock g = attempt (settled_before st allow clock g) (\<lambda>updated.
     if st_append st \<and> goal_active updated
     then (case next_id of None \<Rightarrow> Inl ValueError
       | Some mk_id \<Rightarrow> mark_continuation updated (mk_id updated) (clock 2))
     else Inr updated)"
  by (cases "settle_round g (round.truncate st) allow (clock 0)")
    (simp_all add: settled_goal_def settled_before_def)

lemma settled_before_ok:
  assumes "goal_ok g" "settled_before st allow clock g = Inr u"
  shows "goal_ok u"
proof -
  from assms(2) obtain v where v: "settle_round g (round.truncate st) allow (clock 0) = Inr v"
    and u: "u = v \<or> u = stop_goal (clock 1) PausedGoal (stop_reason (rd_reason st)) v"
    by (auto simp: settled_before_def attempt_eq_Inr dest: pause_goal_Inr split: if_split_asm)
  have "goal_ok v" using settle_round_ok [OF assms(1) v] by simp
  then show ?thesis using u stop_goal_ok by auto
qed

lemma settled_before_Inr:
  assumes "settled_before st allow clock g = Inr u"
  shows "goal_continuation u = None" "touched clock g u"
proof -
  from assms obtain v where v: "settle_round g (round.truncate st) allow (clock 0) = Inr v"
    and u: "u = v \<or> u = stop_goal (clock 1) PausedGoal (stop_reason (rd_reason st)) v"
    by (auto simp: settled_before_def attempt_eq_Inr dest: pause_goal_Inr split: if_split_asm)
  note eff = settle_round_Inr [OF v]
  have "goal_continuation v = None" "goal_session v = goal_session g"
    "goal_created v = goal_created g" "goal_updated v = clock 0"
    using eff by simp_all
  then show "goal_continuation u = None" "touched clock g u"
    using u by (auto simp: touched_def stop_goal_def)
qed

lemma settled_goal_touched:
  assumes "settled_goal st allow next_id clock g = Inr g'"
  shows "touched clock g g'"
proof -
  from assms obtain u where u: "settled_before st allow clock g = Inr u"
    and g': "g' = u \<or> (\<exists>mid. mark_continuation u mid (clock 2) = Inr g')"
    by (auto simp: settled_goal_eq attempt_eq_Inr split: if_split_asm option.splits)
  have "touched clock g u" by (rule settled_before_Inr(2) [OF u])
  then show ?thesis using g' by (auto simp: touched_def dest!: mark_continuation_Inr)
qed

lemma continue_tx_gives:
  assumes "owners_ok l" "tx_gives env (continue_tx w (goal_prefix @ s) n g mid t head now) l x l'"
    and "goal_session g = s" "stamp_ok (goal_created g)" "stamp_ok now"
  shows "mark_continuation g mid now = Inr x \<and> stores_goal (env_owner env) s (Some (Suc n, x)) l l' \<and>
    owners_ok l' \<and> posted w mid (continuation_body t) l' \<and>
    (find_message mid l = None \<longrightarrow> reader_head l (wr_session w) (Some (wr_source w)) = head)"
proof -
  from assms(2) obtain marked m l1 where mark: "mark_continuation g mid now = Inr marked"
    and app: "writer_append (env_checks env) (env_now env) w mid (continuation_body t) (Some head) None l = Inr (m, l1)"
    and save: "tx_gives env (save_goal (goal_prefix @ s) marked n) l1 x l'"
    by (auto simp: continue_tx_def tx_simps)
  have owners: "led_owners l1 = led_owners l" by (rule writer_append_owners [OF app])
  have ok1: "owners_ok l1" using owners_ok_cong [OF owners] assms(1) by simp
  have marked: "goal_session marked = s" "stamp_ok (goal_created marked)" "stamp_ok (goal_updated marked)"
    using mark_continuation_Inr [OF mark] assms(3-5) by simp_all
  note saved = save_goal_gives [OF ok1 save marked]
  have "goal_view (env_owner env) l1 = goal_view (env_owner env) l"
    by (rule goal_view_other) (simp add: owner_look_frame [OF owners])
  then show ?thesis
    using saved mark writer_append_posted [OF app] posted_cong [of l' l1] by (simp add: stores_goal_def)
qed

lemma settle_tx_gives:
  assumes "owners_ok l" "\<And>i. stamp_ok (clock i)"
    and "tx_gives env (settle_tx w s gid version head st next_id next_text allow clock) l x l'"
  obtains n g where
    "goal_view (env_owner env) l s = Some (n, g)" "int n = version" "goal_id g = gid"
    "goal_active g \<or> allow" "\<not> reader_source_changed l s ''conversation'' head"
    "settled_goal st allow next_id clock g = Inr x"
    "stores_goal (env_owner env) s (Some (Suc n, x)) l l'" "owners_ok l'"
    "case goal_continuation x of
       None \<Rightarrow> led_messages l' = led_messages l
     | Some mid \<Rightarrow> (\<exists>t. posted w mid (continuation_body t) l')"
proof -
  from with_expected_gives [OF assms(1) assms(3) [unfolded settle_tx_def]] obtain n g where
    g: "goal_view (env_owner env) l s = Some (n, g)" "int n = version" "goal_id g = gid"
      "goal_active g \<or> allow" "\<not> reader_source_changed l s ''conversation'' head"
      "goal_session g = s" "stamp_ok (goal_created g)" "stamp_ok (goal_updated g)"
    and run: "tx_gives env (tx_res (settle_round g (round.truncate st) allow (clock 0)) (\<lambda>settled.
       tx_res (if st_pause_after st \<and> goal_active settled
           then pause_goal settled (stop_reason (rd_reason st)) (clock 1) else Inr settled) (\<lambda>updated.
       if st_append st \<and> goal_active updated
       then (case (next_id, next_text) of
           (Some mk_id, Some mk_text) \<Rightarrow>
             continue_tx w (goal_prefix @ s) n updated (mk_id updated) (mk_text updated) head (clock 2)
         | _ \<Rightarrow> Raise ValueError)
       else save_goal (goal_prefix @ s) updated n))) l x l'"
    by blast
  from run obtain u where u: "settled_before st allow clock g = Inr u"
    and run: "tx_gives env (if st_append st \<and> goal_active u
       then (case (next_id, next_text) of
           (Some mk_id, Some mk_text) \<Rightarrow>
             continue_tx w (goal_prefix @ s) n u (mk_id u) (mk_text u) head (clock 2)
         | _ \<Rightarrow> Raise ValueError)
       else save_goal (goal_prefix @ s) u n) l x l'"
    unfolding tx_gives_res settled_before_def attempt_eq_Inr by blast
  have touched: "touched clock g u" and none: "goal_continuation u = None"
    using settled_before_Inr [OF u] by auto
  have stamps: "goal_session u = s" "stamp_ok (goal_created u)" "stamp_ok (goal_updated u)"
    using touched_stamps [OF touched assms(2) g(7,8)] touched g(6) by (simp_all add: touched_def)
  show thesis
  proof (cases "st_append st \<and> goal_active u")
    case True
    then obtain mk_id mk_text where mk: "next_id = Some mk_id" "next_text = Some mk_text"
      using run by (auto simp: tx_simps split: option.splits)
    have "tx_gives env (continue_tx w (goal_prefix @ s) n u (mk_id u) (mk_text u) head (clock 2)) l x l'"
      using run True mk by simp
    note eff = continue_tx_gives [OF assms(1) this stamps(1,2) assms(2)]
    have "settled_goal st allow next_id clock g = Inr x"
      using u True mk eff by (simp add: settled_goal_eq)
    moreover have "goal_continuation x = Some (mk_id u)"
      using eff by (auto dest: mark_continuation_Inr)
    ultimately show thesis using that [OF g(1-5)] eff by auto
  next
    case False
    then have save: "tx_gives env (save_goal (goal_prefix @ s) u n) l x l'" using run by auto
    note eff = save_goal_gives [OF assms(1) save stamps]
    have "settled_goal st allow next_id clock g = Inr x"
      using u False eff by (auto simp: settled_goal_eq)
    then show thesis using that [OF g(1-5)] eff none by auto
  qed
qed

lemma start_tx_gives:
  assumes "owners_ok l" "stamp_ok now" "tx_gives env (start_tx w s gid version head mid t now) l x l'"
  obtains n g where
    "goal_view (env_owner env) l s = Some (n, g)" "int n = version" "goal_id g = gid" "goal_active g"
    "\<not> reader_source_changed l s ''conversation'' head" "mark_continuation g mid now = Inr x"
    "stores_goal (env_owner env) s (Some (Suc n, x)) l l'" "owners_ok l'"
    "posted w mid (continuation_body t) l'"
proof -
  from with_expected_gives [OF assms(1) assms(3) [unfolded start_tx_def]] obtain n g where
    g: "goal_view (env_owner env) l s = Some (n, g)" "int n = version" "goal_id g = gid"
      "goal_active g" "\<not> reader_source_changed l s ''conversation'' head"
      "goal_session g = s" "stamp_ok (goal_created g)"
    and run: "tx_gives env (continue_tx w (goal_prefix @ s) n g mid t head now) l x l'"
    by blast
  note eff = continue_tx_gives [OF assms(1) run g(6,7) assms(2)]
  show thesis using that [OF g(1-5)] eff by blast
qed

section \<open>Applying requests\<close>

definition receipt_at :: "string \<Rightarrow> string \<Rightarrow> ledger \<Rightarrow> operation \<Rightarrow> bool" where
  "receipt_at own k l op \<longleftrightarrow> (\<exists>n v. owner_look own l k = Some (n, v) \<and> decode_operation v = Inr op)"

text \<open>The goals that a request makes carry times of the clock or of the goal they change.\<close>

definition request_stamped :: "request \<Rightarrow> bool" where
  "request_stamped rq \<longleftrightarrow> (\<forall>cur g response. rq_action rq cur = Inr (Some g, response) \<longrightarrow>
     (\<forall>g0. cur = Some g0 \<longrightarrow> stamp_ok (goal_created g0) \<and> stamp_ok (goal_updated g0)) \<longrightarrow>
     stamp_ok (goal_created g) \<and> stamp_ok (goal_updated g))"

lemma put_goal_gives:
  assumes "owners_ok l" "owner_look (env_owner env) l (goal_prefix @ s) = current"
    and "tx_gives env (put_goal s (goal_prefix @ s) changed current rest) l x l'"
    and "\<And>g. changed = Some g \<Longrightarrow> stamp_ok (goal_created g) \<and> stamp_ok (goal_updated g)"
  obtains l1 where "owners_ok l1" "tx_gives env rest l1 x l'"
    "stores_goal (env_owner env) s (map_option (\<lambda>g. (case current of None \<Rightarrow> 0 | Some (n, _) \<Rightarrow> Suc n, g)) changed) l l1"
    "\<And>k. k \<noteq> goal_prefix @ s \<Longrightarrow> owner_look (env_owner env) l1 k = owner_look (env_owner env) l k"
    "led_messages l1 = led_messages l"
proof (cases changed)
  case None
  show thesis
  proof (cases current)
    case None
    then have "goal_view (env_owner env) l s = None" using assms(2) by (simp add: goal_view_def)
    then have "stores_goal (env_owner env) s None l l" by (auto simp: stores_goal_def)
    moreover have "tx_gives env rest l x l'" using assms(3) \<open>changed = None\<close> None by (simp add: put_goal_def)
    ultimately show thesis using that [of l] assms(1) \<open>changed = None\<close> by simp
  next
    case (Some r)
    then obtain n v where r: "current = Some (n, v)" by (cases r) auto
    from assms(3) obtain l1 where d: "owner_delete (env_owner env) (goal_prefix @ s) (int n) l = Inr l1"
      and run: "tx_gives env rest l1 x l'"
      by (auto simp: put_goal_def r \<open>changed = None\<close> tx_simps)
    note eff = owner_delete_Inr [OF assms(1) d]
    have "stores_goal (env_owner env) s None l l1"
      using goal_view_put [of "env_owner env" l1 l s None] eff by (simp add: stores_goal_def)
    then show thesis
      using that [of l1] eff run owner_delete_frame(2) [OF d] \<open>changed = None\<close> by simp
  qed
next
  case (Some g)
  from assms(3) obtain v m l1 where s: "goal_session g = s" and v: "encode_goal g = Inr v"
    and save: "owner_save (env_owner env) (goal_prefix @ s) v (map_option (\<lambda>(n, _). int n) current) l = Inr (m, l1)"
    and run: "tx_gives env rest l1 x l'"
    by (auto simp: put_goal_def Some tx_simps split: if_split_asm)
  have stamps: "stamp_ok (goal_created g)" "stamp_ok (goal_updated g)" using assms(4) [OF Some] by auto
  have dec: "decode_goal s (json_norm v) = Inr g" using goal_roundtrip(2) [OF stamps v] s by simp
  have eff: "owners_ok l1 \<and> m = (case current of None \<Rightarrow> 0 | Some (n, _) \<Rightarrow> Suc n) \<and>
      owner_look (env_owner env) l1 = (owner_look (env_owner env) l)(goal_prefix @ s \<mapsto> (m, json_norm v))"
  proof (cases current)
    case None
    then show ?thesis using owner_save_insert [OF assms(1)] save by auto
  next
    case (Some r)
    then obtain n v' where r: "current = Some (n, v')" by (cases r) auto
    then have "owner_save (env_owner env) (goal_prefix @ s) v (Some (int n)) l = Inr (m, l1)"
      using save by simp
    from owner_save_update [OF assms(1) this] show ?thesis by (simp add: r)
  qed
  have "stores_goal (env_owner env) s (Some (m, g)) l l1"
    using goal_view_put [of "env_owner env" l1 l s "Some (m, json_norm v)"] eff dec by (simp add: stores_goal_def)
  then show thesis using that [of l1] eff run owner_save_frame(2) [OF save] Some by simp
qed

lemma decode_current_view:
  assumes "decode_current s (owner_look own l (goal_prefix @ s)) = Inr cur"
  shows "cur = map_option snd (goal_view own l s)"
    "\<And>g0. cur = Some g0 \<Longrightarrow> stamp_ok (goal_created g0) \<and> stamp_ok (goal_updated g0)"
    "map_option fst (goal_view own l s) = map_option fst (owner_look own l (goal_prefix @ s))"
  using assms by (auto simp: decode_current_def goal_view_def attempt_eq_Inr dest: decode_goal_Inr split: option.splits)

lemma check_snapshot_Inr:
  "check_snapshot (Some e) current cur = Inr u \<Longrightarrow>
   (\<exists>n v g. current = Some (n, v) \<and> cur = Some g \<and> e = (goal_id g, int n))"
  by (auto simp: check_snapshot_def split: option.splits if_split_asm prod.splits)

lemma apply_change_gives:
  assumes "owners_ok l" "request_stamped rq" "stamp_ok now"
    and "starts_with k operation_prefix" "\<forall>(j, n) \<in> set stale. starts_with j operation_prefix"
    and "tx_gives env (apply_change rq k now stale) l (changed, response) l'"
  obtains
    "rq_action rq (map_option snd (goal_view (env_owner env) l (rq_session rq))) = Inr (changed, response)"
    "\<forall>e. rq_goal rq = Some e \<longrightarrow> (\<exists>n g. goal_view (env_owner env) l (rq_session rq) = Some (n, g) \<and> e = (goal_id g, int n))"
    "stores_goal (env_owner env) (rq_session rq) (map_option
       (\<lambda>g. (case goal_view (env_owner env) l (rq_session rq) of None \<Rightarrow> 0 | Some (n, _) \<Rightarrow> Suc n, g)) changed) l l'"
    "\<forall>j. starts_with j operation_prefix \<and> j \<noteq> k \<longrightarrow>
      owner_look (env_owner env) l' j = (if j \<in> fst ` set stale then None else owner_look (env_owner env) l j)"
    "k \<notin> fst ` set stale \<longrightarrow> receipt_at (env_owner env) k l'
      \<lparr>op_kind = rq_kind rq, op_digest = rq_digest rq, op_response = response, op_goal = changed, op_created = now\<rparr>"
    "owner_look (env_owner env) l k = None" "led_messages l' = led_messages l" "owners_ok l'"
    "distinct (map fst stale)"
proof -
  let ?own = "env_owner env" and ?s = "rq_session rq"
  let ?op = "\<lparr>op_kind = rq_kind rq, op_digest = rq_digest rq, op_response = response,
    op_goal = changed, op_created = now\<rparr>"
  obtain t where k: "k = operation_prefix @ t" using assms(4) by (auto simp: starts_with_iff)
  define current where "current = owner_look ?own l (goal_prefix @ ?s)"
  from assms(6) obtain cur u changed' response' where
    cur: "decode_current ?s current = Inr cur" and snap: "check_snapshot (rq_goal rq) current cur = Inr u"
    and act: "rq_action rq cur = Inr (changed', response')"
    and put: "tx_gives env (put_goal ?s (goal_prefix @ ?s) changed' current (
     tx_res (encode_operation \<lparr>op_kind = rq_kind rq, op_digest = rq_digest rq, op_response = response',
         op_goal = changed', op_created = now\<rparr>) (\<lambda>v.
     TxSave k v None (tx_ok (\<lambda>_. tx_deletes stale (Return (changed', response'))))))) l (changed, response) l'"
    unfolding current_def
    by (auto simp: apply_change_def goal_key_def tx_simps owner_read_look [OF assms(1)] split: if_split_asm prod.splits)
  note view = decode_current_view [OF cur [unfolded current_def]]
  have stamps: "stamp_ok (goal_created g) \<and> stamp_ok (goal_updated g)" if "changed' = Some g" for g
    using assms(2) act view(2) that by (auto simp: request_stamped_def)
  from put_goal_gives [OF assms(1) current_def [symmetric] put stamps] obtain l1 where
    l1: "owners_ok l1" "stores_goal ?own ?s (map_option (\<lambda>g. (case current of None \<Rightarrow> 0 | Some (n, _) \<Rightarrow> Suc n, g)) changed') l l1"
      "\<And>j. j \<noteq> goal_prefix @ ?s \<Longrightarrow> owner_look ?own l1 j = owner_look ?own l j"
      "led_messages l1 = led_messages l"
    and run: "tx_gives env (tx_res (encode_operation \<lparr>op_kind = rq_kind rq, op_digest = rq_digest rq, op_response = response',
         op_goal = changed', op_created = now\<rparr>) (\<lambda>v.
     TxSave k v None (tx_ok (\<lambda>_. tx_deletes stale (Return (changed', response')))))) l1 (changed, response) l'"
    by blast
  from run obtain v m l2 where v: "encode_operation \<lparr>op_kind = rq_kind rq, op_digest = rq_digest rq, op_response = response',
         op_goal = changed', op_created = now\<rparr> = Inr v"
    and save: "owner_save ?own k v None l1 = Inr (m, l2)"
    and del: "tx_gives env (tx_deletes stale (Return (changed', response'))) l2 (changed, response) l'"
    by (auto simp: tx_simps)
  note eff = owner_save_insert [OF l1(1) save]
  from tx_gives_deletes [OF _ del] eff obtain l3 where
    d: "deleted_from ?own (fst ` set stale) l2 l3" "distinct (map fst stale)"
    and ret: "tx_gives env (Return (changed', response')) l3 (changed, response) l'" by blast
  from ret have eqs: "changed' = changed" "response' = response" "l3 = l'" by (auto simp: tx_simps)
  have look: "owner_look ?own l' j = (if j \<in> fst ` set stale then None else
      if j = k then Some (0, json_norm v) else owner_look ?own l1 j)" for j
    using d(1) eff by (auto simp: deleted_from_def eqs(3))
  have "receipt_ok \<lparr>op_kind = rq_kind rq, op_digest = rq_digest rq, op_response = response',
         op_goal = changed', op_created = now\<rparr>"
    using stamps assms(3) by (auto simp: receipt_ok_def)
  from operation_roundtrip(2) [OF this v] have rec: "decode_operation (json_norm v) = Inr ?op"
    by (simp add: eqs)
  have goal_keys: "goal_prefix @ t' \<notin> fst ` set stale" for t'
  proof
    assume "goal_prefix @ t' \<in> fst ` set stale"
    then obtain n where "(goal_prefix @ t', n) \<in> set stale" by auto
    then have "starts_with (goal_prefix @ t') operation_prefix" using assms(5) by auto
    then show False by (auto simp: starts_with_iff)
  qed
  have "goal_view ?own l' = goal_view ?own l1"
    by (rule goal_view_other) (simp add: look goal_keys k)
  moreover have "(case current of None \<Rightarrow> 0 | Some (n, _) \<Rightarrow> Suc n) =
      (case goal_view ?own l ?s of None \<Rightarrow> 0 | Some (n, _) \<Rightarrow> Suc n)"
    using view(3) unfolding current_def by (auto split: option.splits)
  ultimately have 1: "stores_goal ?own ?s (map_option
       (\<lambda>g. (case goal_view ?own l ?s of None \<Rightarrow> 0 | Some (n, _) \<Rightarrow> Suc n, g)) changed) l l'"
    using l1(2) by (simp add: stores_goal_def eqs)
  have 2: "rq_action rq (map_option snd (goal_view ?own l ?s)) = Inr (changed, response)"
    using act view(1) by (simp add: eqs)
  have 3: "\<forall>e. rq_goal rq = Some e \<longrightarrow> (\<exists>n g. goal_view ?own l ?s = Some (n, g) \<and> e = (goal_id g, int n))"
    using snap view(1,3) unfolding current_def by (auto dest!: check_snapshot_Inr)
  have 4: "\<forall>j. starts_with j operation_prefix \<and> j \<noteq> k \<longrightarrow>
      owner_look ?own l' j = (if j \<in> fst ` set stale then None else owner_look ?own l j)"
    using l1(3) by (auto simp: look starts_with_iff)
  have 5: "k \<notin> fst ` set stale \<longrightarrow> receipt_at ?own k l' ?op"
    using rec by (simp add: receipt_at_def look)
  have 6: "owner_look ?own l k = None" using eff l1(3) [of k] by (simp add: k)
  have 7: "led_messages l' = led_messages l"
    using d(1) owner_save_frame(2) [OF save] l1(4) by (simp add: deleted_from_def eqs)
  have 8: "owners_ok l'" using d(1) by (simp add: deleted_from_def eqs)
  show thesis by (rule that [OF 2 3 1 4 5 6 7 8 d(2)])
qed

section \<open>Receipts\<close>

definition receipt_keys :: "string \<Rightarrow> ledger \<Rightarrow> string set" where
  "receipt_keys own l = {k. starts_with k operation_prefix \<and> owner_look own l k \<noteq> None}"

definition receipts_decode :: "string \<Rightarrow> ledger \<Rightarrow> bool" where
  "receipts_decode own l \<longleftrightarrow> (\<forall>k \<in> receipt_keys own l. \<exists>op. receipt_at own k l op)"

lemma owner_rows_distinct:
  assumes "owners_ok l"
  shows "distinct (map own_key (filter (\<lambda>r. own_owner r = own) (led_owners l)))"
  using assms by (auto simp: owners_ok_def distinct_map inj_on_def)

lemma owner_list_look:
  assumes "owners_ok l"
  obtains rs where "owner_list own l = Inr rs" "distinct (map fst rs)"
    "\<And>k n v. (k, n, v) \<in> set rs \<longleftrightarrow> owner_look own l k = Some (n, v)"
proof -
  let ?rows = "sort_key own_key (filter (\<lambda>r. own_owner r = own) (led_owners l))"
  let ?rs = "map (\<lambda>r. (own_key r, own_version r, own_value r)) ?rows"
  have "decode_owner_row r = Inr (own_version r, own_value r)" if "r \<in> set ?rows" for r
    using that assms by (auto simp: owners_ok_def decode_owner_row_def)
  then have "owner_list own l = Inr ?rs"
    unfolding owner_list_def by (intro traverse_Inr_map) simp
  moreover have "distinct (map own_key ?rows)"
    using owner_rows_distinct [OF assms] by (simp add: distinct_map)
  then have "distinct (map fst ?rs)" by (simp add: comp_def)
  moreover have "(k, n, v) \<in> set ?rs \<longleftrightarrow> owner_look own l k = Some (n, v)" for k n v
    using owner_row_unique [OF assms] by (force simp: owner_look_def dest: owner_row_of_Some)
  ultimately show thesis by (rule that)
qed

lemma receipt_keys_card:
  assumes "distinct (map fst rs)" "\<And>k n v. (k, n, v) \<in> set rs \<longleftrightarrow> owner_look own l k = Some (n, v)"
  shows "receipt_keys own l = fst ` set (filter (\<lambda>(k, _, _). starts_with k operation_prefix) rs)"
    "card (receipt_keys own l) = length (filter (\<lambda>(k, _, _). starts_with k operation_prefix) rs)"
proof -
  let ?fs = "filter (\<lambda>(k, _, _). starts_with k operation_prefix) rs"
  show 1: "receipt_keys own l = fst ` set ?fs"
    by (force simp: receipt_keys_def assms(2) image_iff)
  have "distinct (map fst ?fs)" using assms(1) by (simp add: distinct_map_filter)
  then show "card (receipt_keys own l) = length ?fs"
    using distinct_card [of "map fst ?fs"] 1 by simp
qed

lemma receipt_keys_finite: "owners_ok l \<Longrightarrow> finite (receipt_keys own l)"
  by (rule owner_list_look [of l own]) (use receipt_keys_card(1) in \<open>fastforce\<close>)+

lemma decode_receipts_Inr:
  "decode_receipts rs = Inr ds \<Longrightarrow>
   ds = map (\<lambda>(k, n, v). (op_created (projr (decode_operation v)), k, n))
     (filter (\<lambda>(_, _, v). \<not> isl (decode_operation v)) rs)"
proof (induction rs arbitrary: ds rule: decode_receipts.induct)
  case (2 k n v rs)
  then show ?case
    by (cases "decode_operation v") (auto simp: attempt_eq_Inr split: if_split_asm)
qed simp

lemma stale_operations_Inr:
  assumes "owners_ok l" "stale_operations own reserve l = Inr stale"
  shows "\<forall>(k, n) \<in> set stale. starts_with k operation_prefix \<and> map_option fst (owner_look own l k) = Some n"
    "distinct (map fst stale)"
    "receipts_decode own l \<Longrightarrow> length stale = card (receipt_keys own l) - (max_operations - reserve)"
proof -
  obtain rs where rs: "owner_list own l = Inr rs" "distinct (map fst rs)"
    "\<And>k n v. (k, n, v) \<in> set rs \<longleftrightarrow> owner_look own l k = Some (n, v)"
    by (rule owner_list_look [OF assms(1), of own]) blast
  let ?fs = "filter (\<lambda>(k, _, _). starts_with k operation_prefix) rs"
  let ?keep = "max_operations - reserve"
  note card = receipt_keys_card [OF rs(2,3)]
  have dist: "distinct (map fst ?fs)" using rs(2) by (simp add: distinct_map_filter)
  have "(\<forall>(k, n) \<in> set stale. starts_with k operation_prefix \<and> map_option fst (owner_look own l k) = Some n) \<and>
    distinct (map fst stale) \<and>
    (receipts_decode own l \<longrightarrow> length stale = card (receipt_keys own l) - ?keep)"
  proof (cases "length ?fs \<le> ?keep")
    case True
    then have "stale = []" using assms(2) rs(1) by (simp add: stale_operations_def Let_def)
    then show ?thesis using True card(2) by simp
  next
    case False
    then obtain ds where ds: "decode_receipts ?fs = Inr ds"
      and stale: "stale = map (\<lambda>(_, k, n). (k, n)) (take (length ds - ?keep)
        (sort_key (\<lambda>(created, _, _). instant created) ds))"
      using assms(2) rs(1) by (auto simp: stale_operations_def Let_def attempt_eq_Inr)
    let ?gs = "filter (\<lambda>(_, _, v). \<not> isl (decode_operation v)) ?fs"
    have ds': "ds = map (\<lambda>(k, n, v). (op_created (projr (decode_operation v)), k, n)) ?gs"
      by (rule decode_receipts_Inr [OF ds])
    have in_ds: "starts_with k operation_prefix \<and> map_option fst (owner_look own l k) = Some n"
      if mem: "(c, k, n) \<in> set ds" for c k n
    proof -
      obtain v where "(k, n, v) \<in> set ?gs" using mem unfolding ds' by auto
      then have "(k, n, v) \<in> set rs" "starts_with k operation_prefix" by auto
      then show ?thesis using rs(3) [of k n v] by simp
    qed
    have "map (fst \<circ> snd) ds = map fst ?gs" unfolding ds' by (auto simp: split_def)
    then have "distinct (map (fst \<circ> snd) ds)"
      by (simp only: distinct_map_filter [OF dist])
    then have d: "distinct ds" "inj_on (fst \<circ> snd) (set ds)" by (simp_all only: distinct_map)
    let ?old = "take (length ds - ?keep) (sort_key (\<lambda>(created, _, _). instant created) ds)"
    have sub: "set ?old \<subseteq> set ds" using set_take_subset by fastforce
    have "inj_on (fst \<circ> snd) (set ?old)" using sub d(2) inj_on_subset by blast
    moreover have "distinct ?old" using d(1) by simp
    ultimately have "distinct (map (fst \<circ> snd) ?old)" by (simp only: distinct_map)
    moreover have "map fst stale = map (fst \<circ> snd) ?old" unfolding stale by (simp add: split_def)
    ultimately have "distinct (map fst stale)" by simp
    moreover have "\<forall>(k, n) \<in> set stale. starts_with k operation_prefix \<and> map_option fst (owner_look own l k) = Some n"
      unfolding stale using in_ds sub by auto
    moreover have "length stale = card (receipt_keys own l) - ?keep" if "receipts_decode own l"
    proof -
      have "\<not> isl (decode_operation v)" if "(k, n, v) \<in> set ?fs" for k n v
      proof -
        have look: "owner_look own l k = Some (n, v)" "starts_with k operation_prefix"
          using that rs(3) [of k n v] by auto
        then have "k \<in> receipt_keys own l" by (simp add: receipt_keys_def)
        then show ?thesis
          using \<open>receipts_decode own l\<close> look(1) by (auto simp: receipts_decode_def receipt_at_def)
      qed
      then have "?gs = ?fs" by (intro filter_True) blast
      then have "length ds = length ?fs" unfolding ds' by (metis length_map)
      then show ?thesis unfolding stale using card(2) by simp
    qed
    ultimately show ?thesis by blast
  qed
  note all = this
  show "\<forall>(k, n) \<in> set stale. starts_with k operation_prefix \<and> map_option fst (owner_look own l k) = Some n"
    by (rule conjunct1 [OF all])
  show "distinct (map fst stale)" by (rule conjunct1 [OF conjunct2 [OF all]])
  show "receipts_decode own l \<Longrightarrow> length stale = card (receipt_keys own l) - ?keep"
    using conjunct2 [OF conjunct2 [OF all]] by simp
qed

section \<open>The attempts of a request\<close>

lemma apply_attempts_Inr:
  assumes "apply_attempts env rq k clock world i n l = (Inr x, l')" "P l" "\<And>j m. P m \<Longrightarrow> P (world j m)"
  shows "\<exists>j m stale. P m \<and> stale_operations (env_owner env) 1 m = Inr stale \<and>
    transact env (apply_tx rq k (clock j) stale) (world (3 * j) m) = (Inr x, l')"
  using assms(1,2)
proof (induction n arbitrary: i l)
  case (Suc n)
  from Suc.prems(1) obtain stale where stale: "stale_operations (env_owner env) 1 l = Inr stale"
    by (auto split: sum.splits)
  obtain r l2 where t: "transact env (apply_tx rq k (clock i) stale) (world (3 * i) l) = (r, l2)" by force
  show ?case
  proof (cases r)
    case (Inr y)
    then have "y = x" "l2 = l'" using Suc.prems(1) stale t by auto
    then show ?thesis using Suc.prems(2) stale t Inr by blast
  next
    case (Inl e)
    have l2: "l2 = world (3 * i) l" using transact_Inl t Inl by metis
    have "apply_attempts env rq k clock world (Suc i) n (world (3 * i + 2) (world (3 * i + 1) l2)) = (Inr x, l')"
      using Suc.prems(1) stale t Inl
      by (auto simp: Let_def split: sum.splits option.splits prod.splits if_split_asm)
    then show ?thesis using Suc.IH Suc.prems(2) assms(3) l2 by blast
  qed
qed simp

lemma apply_tx_replay:
  assumes "owners_ok l" "receipt_at (env_owner env) k l op"
  shows "transact env (apply_tx rq k now stale) l =
    (if receipt_matches rq op then (Inr (op_goal op, op_response op), l) else (Inl MessageConflict, l))"
  using assms by (auto simp: apply_tx_def transact_def receipt_at_def owner_read_look)

lemma apply_operation_replay:
  assumes "owners_ok l" "receipt_at (env_owner env) k l op" "stale_operations (env_owner env) 1 l = Inr stale"
    and "operation_key (rq_kind rq) (rq_session rq) oid = Inr k"
  shows "apply_operation env rq oid clock (\<lambda>_ m. m) l =
    (if receipt_matches rq op then (Inr (op_goal op, op_response op), l) else (Inl MessageConflict, l))"
  using assms(2) apply_tx_replay [OF assms(1,2)] assms(3,4)
  by (auto simp: apply_operation_def numeral_3_eq_3 is_conflict_def owner_read_look [OF assms(1)] receipt_at_def)

text \<open>A request that was carried out: it was found done, or it is done now.\<close>

lemma apply_tx_gives:
  assumes "owners_ok l" "tx_gives env (apply_tx rq k now stale) l (changed, response) l'"
  obtains (replayed) op where "receipt_at (env_owner env) k l op" "receipt_matches rq op"
      "changed = op_goal op" "response = op_response op" "l' = l"
  | (applied) "owner_look (env_owner env) l k = None"
      "\<forall>h. rq_head rq = Some h \<longrightarrow> \<not> reader_source_changed l (rq_session rq) ''conversation'' h"
      "tx_gives env (apply_change rq k now stale) l (changed, response) l'"
proof (cases "owner_look (env_owner env) l k")
  case None
  then show thesis using assms applied
    by (auto simp: apply_tx_def tx_simps owner_read_look split: option.splits if_split_asm)
next
  case (Some r)
  then show thesis using assms replayed
    by (cases r) (auto simp: apply_tx_def tx_simps owner_read_look receipt_at_def split: if_split_asm)
qed

section \<open>When a request is carried out\<close>

definition storable :: "goal \<Rightarrow> bool" where
  "storable g \<longleftrightarrow> goal_ok g \<and> stamp_ok (goal_created g) \<and> stamp_ok (goal_updated g) \<and>
     goal_settled_id g \<noteq> Some [] \<and> goal_continuation g \<noteq> Some [] \<and> goal_reason g \<noteq> Some []"

lemma storable_encodes: "storable g \<Longrightarrow> encode_goal g = Inr (JObj (goal_value g))"
  by (simp add: storable_def encode_goal_ok)

lemma encode_operation_ok:
  assumes "op_kind op \<in> set operation_kinds" "digest_ok (op_digest op)" "op_response op \<noteq> []"
    and "stamp_ok (op_created op)" "\<And>g. op_goal op = Some g \<Longrightarrow> storable g"
  shows "\<exists>kvs. encode_operation op = Inr (JObj kvs)"
proof -
  obtain v where v: "(case op_goal op of None \<Rightarrow> Inr JNull | Some g \<Rightarrow> encode_goal g) = Inr v"
    and rg: "read_goal v = Inr (op_goal op)"
  proof (cases "op_goal op")
    case None
    then show thesis using that [of JNull] by (simp add: read_goal_def)
  next
    case (Some g)
    then have g: "storable g" using assms(5) by simp
    note enc = storable_encodes [OF g]
    have "read_goal (JObj (goal_value g)) = Inr (Some g)"
      using g by (intro read_goal_encoded [OF _ _ enc]) (auto simp: storable_def)
    then show thesis using that [of "JObj (goal_value g)"] enc Some by simp
  qed
  have entries: "entry (operation_value op v) ''version'' = JInt 1"
    "entry (operation_value op v) ''kind'' = JStr (op_kind op)"
    "entry (operation_value op v) ''digest'' = JStr (op_digest op)"
    "entry (operation_value op v) ''response'' = JStr (op_response op)"
    "entry (operation_value op v) ''goal'' = v"
    "entry (operation_value op v) ''created_at'' = JStr (iso_text (op_created op))"
    by (simp_all add: entry_def operation_value_def)
  have keys: "keys_of (operation_value op v) = operation_fields"
    by (simp add: operation_value_def operation_fields_def)
  have "decode_operation (JObj (operation_value op v)) = Inr op"
    using assms(1-4)
    by (simp add: decode_operation_def entries keys rg py_is_one_def read_kind_def read_digest_def read_text_def)
  then show ?thesis using v by (simp add: encode_operation_def Let_def)
qed

lemma tx_deletes_gives:
  assumes "owners_ok l" "distinct (map fst kvs)"
    and "\<forall>(k, n) \<in> set kvs. map_option fst (owner_look (env_owner env) l k) = Some n"
  shows "\<exists>l'. tx_gives env (tx_deletes kvs (Return y)) l y l'"
  using assms
proof (induction kvs arbitrary: l)
  case (Cons kv kvs)
  obtain k n where kv: "kv = (k, n)" by (cases kv)
  then obtain l1 where "owner_drop (env_owner env) k n l = Some l1"
    using cas.delete_succeeds [OF Cons.prems(1)] Cons.prems(3) by fastforce
  then have d: "owner_delete (env_owner env) k (int n) l = Inr l1"
    by (auto simp: owner_drop_def split: sum.splits)
  note eff = owner_delete_Inr [OF Cons.prems(1) d]
  have "\<forall>(j, m) \<in> set kvs. map_option fst (owner_look (env_owner env) l1 j) = Some m"
    using Cons.prems(2,3) eff kv by (auto simp: rev_image_eqI)
  then show ?case using Cons.IH [of l1] Cons.prems(2) eff kv d by (auto simp: tx_simps)
next
  case Nil
  have "tx_gives env (tx_deletes [] (Return y)) l y l" by (simp add: tx_simps)
  then show ?case by blast
qed

lemma owner_save_succeeds:
  assumes "owners_ok l" "k \<noteq> []" "map_option fst (owner_look own l k) = n"
  shows "\<exists>m l'. owner_save own k (JObj kvs) (map_option int n) l = Inr (m, l') \<and> owners_ok l' \<and>
    owner_look own l' = (owner_look own l)(k \<mapsto> (case n of None \<Rightarrow> 0 | Some i \<Rightarrow> Suc i, json_norm (JObj kvs))) \<and>
    led_messages l' = led_messages l"
proof -
  have "owner_value_ok k (JObj kvs)" using assms(2) by (simp add: owner_value_ok_def)
  then obtain l' where put: "owner_put own k (JObj kvs) n l = Some l'"
    using cas.save_succeeds [OF assms(1), of k "JObj kvs"] assms(3) by blast
  then obtain m where "owner_save own k (JObj kvs) (map_option int n) l = Inr (m, l')"
    by (auto simp: owner_put_def split: sum.splits)
  then show ?thesis using cas.save_effect [OF assms(1) put] owner_save_frame(2) by fastforce
qed

lemma goal_key_nonempty: "goal_prefix @ s \<noteq> []"
  by (simp add: goal_prefix_def)

lemma put_goal_succeeds:
  assumes "owners_ok l" "\<And>g. changed = Some g \<Longrightarrow> goal_session g = s \<and> storable g"
    and "\<And>l1. owners_ok l1 \<Longrightarrow>
      (\<And>k. k \<noteq> goal_prefix @ s \<Longrightarrow> owner_look (env_owner env) l1 k = owner_look (env_owner env) l k) \<Longrightarrow>
      \<exists>l'. tx_gives env rest l1 x l'"
  shows "\<exists>l'. tx_gives env (put_goal s (goal_prefix @ s) changed (owner_look (env_owner env) l (goal_prefix @ s)) rest) l x l'"
proof -
  let ?k = "goal_prefix @ s" and ?own = "env_owner env"
  let ?current = "owner_look ?own l ?k"
  show ?thesis
  proof (cases changed)
    case None
    show ?thesis
    proof (cases ?current)
      case None
      then show ?thesis using assms(3) [OF assms(1)] \<open>changed = None\<close> by (simp add: put_goal_def)
    next
      case (Some r)
      then obtain n v where r: "?current = Some (n, v)" by (cases r) auto
      then obtain l1 where "owner_drop ?own ?k n l = Some l1"
        using cas.delete_succeeds [OF assms(1), of ?own ?k n] by auto
      then have d: "owner_delete ?own ?k (int n) l = Inr l1"
        by (auto simp: owner_drop_def split: sum.splits)
      have "\<exists>l'. tx_gives env rest l1 x l'"
        using owner_delete_Inr [OF assms(1) d] by (intro assms(3)) auto
      then show ?thesis using d r \<open>changed = None\<close> by (auto simp: put_goal_def tx_simps)
    qed
  next
    case (Some g)
    then have g: "goal_session g = s" "encode_goal g = Inr (JObj (goal_value g))"
      using assms(2) storable_encodes by auto
    obtain m l1 where sv: "owner_save ?own ?k (JObj (goal_value g)) (map_option int (map_option fst ?current)) l = Inr (m, l1)"
      "owners_ok l1" "owner_look ?own l1 = (owner_look ?own l)(?k \<mapsto>
        (case map_option fst ?current of None \<Rightarrow> 0 | Some i \<Rightarrow> Suc i, json_norm (JObj (goal_value g))))"
      using owner_save_succeeds [OF assms(1) goal_key_nonempty refl] by blast
    have "\<exists>l'. tx_gives env rest l1 x l'" using sv by (intro assms(3)) auto
    moreover have "map_option int (map_option fst ?current) = map_option (\<lambda>(n, _). int n) ?current"
      by (cases ?current) auto
    ultimately show ?thesis using g sv(1) Some by (auto simp: put_goal_def tx_simps)
  qed
qed

lemma apply_change_succeeds:
  assumes "owners_ok l" "operation_key (rq_kind rq) (rq_session rq) oid = Inr k"
    and "owner_look (env_owner env) l k = None"
    and "decode_current (rq_session rq) (owner_look (env_owner env) l (goal_prefix @ rq_session rq)) = Inr cur"
    and "check_snapshot (rq_goal rq) (owner_look (env_owner env) l (goal_prefix @ rq_session rq)) cur = Inr ()"
    and "rq_action rq cur = Inr (changed, response)" "response \<noteq> []" "digest_ok (rq_digest rq)" "stamp_ok now"
    and "\<And>g. changed = Some g \<Longrightarrow> goal_session g = rq_session rq \<and> storable g"
    and "stale_operations (env_owner env) 1 l = Inr stale"
  shows "\<exists>l'. tx_gives env (apply_change rq k now stale) l (changed, response) l'"
proof -
  let ?s = "rq_session rq" and ?own = "env_owner env"
  let ?op = "\<lparr>op_kind = rq_kind rq, op_digest = rq_digest rq, op_response = response,
    op_goal = changed, op_created = now\<rparr>"
  have k: "?s \<noteq> []" "starts_with k operation_prefix" using operation_key_Inr [OF assms(2)] by auto
  have kind: "rq_kind rq \<in> set operation_kinds" using assms(2) by (auto simp: operation_key_def split: if_split_asm)
  have "\<exists>kvs. encode_operation ?op = Inr (JObj kvs)"
    using kind assms(7-10) by (intro encode_operation_ok) auto
  then obtain kvs where v: "encode_operation ?op = Inr (JObj kvs)" by blast
  note stale = stale_operations_Inr [OF assms(1,11)]
  have "\<exists>l'. tx_gives env (put_goal ?s (goal_prefix @ ?s) changed (owner_look ?own l (goal_prefix @ ?s))
     (tx_res (encode_operation ?op) (\<lambda>v. TxSave k v None (tx_ok (\<lambda>_.
        tx_deletes stale (Return (changed, response))))))) l (changed, response) l'"
  proof (rule put_goal_succeeds [OF assms(1,10)])
    fix l1 assume l1: "owners_ok l1"
      "\<And>j. j \<noteq> goal_prefix @ ?s \<Longrightarrow> owner_look ?own l1 j = owner_look ?own l j"
    have kg: "k \<noteq> goal_prefix @ ?s" using k(2) by (auto simp: starts_with_iff)
    then have "map_option fst (owner_look ?own l1 k) = None" using l1(2) assms(3) by simp
    moreover have "k \<noteq> []" using k(2) by (auto simp: starts_with_iff operation_prefix_def)
    ultimately obtain m l2 where l2: "owner_save ?own k (JObj kvs) None l1 = Inr (m, l2)" "owners_ok l2"
      "owner_look ?own l2 = (owner_look ?own l1)(k \<mapsto> (0, json_norm (JObj kvs)))"
      using owner_save_succeeds [OF l1(1), of k ?own None kvs] by (auto simp del: json_norm.simps)
    have "map_option fst (owner_look ?own l2 j) = Some n" if "(j, n) \<in> set stale" for j n
    proof -
      have j: "starts_with j operation_prefix" "map_option fst (owner_look ?own l j) = Some n"
        using stale(1) that by auto
      then have "j \<noteq> k" "j \<noteq> goal_prefix @ ?s" using assms(3) by (auto simp: starts_with_iff)
      then show ?thesis using j(2) l1(2) l2(3) by simp
    qed
    then have "\<forall>(j, n) \<in> set stale. map_option fst (owner_look ?own l2 j) = Some n" by blast
    from tx_deletes_gives [OF l2(2) stale(2) this] obtain l3 where
      "tx_gives env (tx_deletes stale (Return (changed, response))) l2 (changed, response) l3" by metis
    then show "\<exists>l'. tx_gives env (tx_res (encode_operation ?op) (\<lambda>v. TxSave k v None (tx_ok (\<lambda>_.
        tx_deletes stale (Return (changed, response)))))) l1 (changed, response) l'"
      using l2(1) v by (auto simp: tx_simps)
  qed auto
  then show ?thesis
    using k(1) assms(4-6) by (auto simp: apply_change_def goal_key_def tx_simps owner_read_look [OF assms(1)])
qed

section \<open>Properties\<close>

definition alone :: "nat \<Rightarrow> ledger \<Rightarrow> ledger" where
  "alone i l = l"

lemma apply_operation_alone:
  assumes "apply_operation env rq oid clock alone l = (Inr x, l')"
  obtains j stale k where "operation_key (rq_kind rq) (rq_session rq) oid = Inr k"
    "stale_operations (env_owner env) 1 l = Inr stale" "tx_gives env (apply_tx rq k (clock j) stale) l x l'"
proof -
  from assms obtain k where k: "operation_key (rq_kind rq) (rq_session rq) oid = Inr k"
    and a: "apply_attempts env rq k clock alone 0 3 l = (Inr x, l')"
    by (auto simp: apply_operation_def split: sum.splits)
  from apply_attempts_Inr [OF a, of "\<lambda>m. m = l"] show thesis
    using that k by (auto simp: alone_def transact_Inr)
qed

lemma apply_tx_fresh:
  assumes "owners_ok l" "owner_look (env_owner env) l k = None"
    and "\<forall>h. rq_head rq = Some h \<longrightarrow> \<not> reader_source_changed l (rq_session rq) ''conversation'' h"
    and "tx_gives env (apply_change rq k now stale) l x l'"
  shows "tx_gives env (apply_tx rq k now stale) l x l'"
  using assms by (auto simp: apply_tx_def tx_simps owner_read_look split: option.split)

lemma apply_operation_first:
  assumes "operation_key (rq_kind rq) (rq_session rq) oid = Inr k"
    and "stale_operations (env_owner env) 1 l = Inr stale"
    and "tx_gives env (apply_tx rq k (clock 0) stale) l x l'"
  shows "apply_operation env rq oid clock alone l = (Inr x, l')"
proof -
  have "transact env (apply_tx rq k (clock 0) stale) l = (Inr x, l')"
    using assms(3) by (simp add: transact_Inr)
  then show ?thesis
    using assms(1,2) by (simp add: apply_operation_def numeral_3_eq_3 alone_def)
qed

section \<open>A first request\<close>

definition create_request :: request where
  "create_request = \<lparr>rq_session = ''s'', rq_kind = ''create'', rq_digest = replicate 64 (CHR ''0''),
     rq_action = (\<lambda>cur. case cur of None \<Rightarrow> Inr (Some fresh_goal, ''created'') | Some _ \<Rightarrow> Inl ValueError),
     rq_head = Some (-1), rq_goal = None\<rparr>"

definition create_key :: string where "create_key = ''goalop:create:s:1''"

definition created_ledger :: ledger where
  "created_ledger = snd (transact sample_env (apply_tx create_request create_key epoch []) empty_ledger)"

lemma storable_fresh: "storable fresh_goal"
  using new_goal_times [OF fresh_goal] new_goal_ok [OF fresh_goal] stamp_epoch by (simp add: storable_def)

lemma fresh_session: "goal_session fresh_goal = ''s''"
  using new_goal_times(6) [OF fresh_goal] .

lemma create_digest: "digest_ok (rq_digest create_request)"
  by (simp add: digest_ok_def create_request_def list_all_iff)

lemma empty_owner [simp]: "owner_look own empty_ledger k = None"
  by (simp add: owner_look_def owner_row_of_def empty_ledger_def)

lemma stale_empty: "stale_operations own 1 empty_ledger = Inr []"
  by (simp add: stale_operations_def owner_list_def empty_ledger_def)

lemma create_operation_key: "operation_key (rq_kind create_request) (rq_session create_request) ''1'' = Inr create_key"
  by (simp add: operation_key_def create_request_def operation_kinds_def create_key_def operation_prefix_def)

lemma source_empty: "\<not> reader_source_changed empty_ledger s src h"
  by (simp add: reader_source_changed_def empty_ledger_def)

lemma create_current:
  "decode_current (rq_session create_request)
     (owner_look (env_owner sample_env) empty_ledger (goal_prefix @ rq_session create_request)) = Inr None"
  "check_snapshot (rq_goal create_request)
     (owner_look (env_owner sample_env) empty_ledger (goal_prefix @ rq_session create_request)) None = Inr ()"
  "rq_action create_request None = Inr (Some fresh_goal, ''created'')"
  "\<forall>g. Some fresh_goal = Some g \<longrightarrow> goal_session g = rq_session create_request \<and> storable g"
  "\<forall>h. rq_head create_request = Some h \<longrightarrow>
     \<not> reader_source_changed empty_ledger (rq_session create_request) ''conversation'' h"
  using storable_fresh fresh_session
  by (simp_all add: decode_current_def create_request_def check_snapshot_def source_empty)

lemma created_step:
  "tx_gives sample_env (apply_tx create_request create_key epoch []) empty_ledger
     (Some fresh_goal, ''created'') created_ledger"
proof -
  have ok: "owners_ok empty_ledger" using database_ok_empty by (simp add: database_ok_def)
  obtain l' where "tx_gives sample_env (apply_change create_request create_key epoch []) empty_ledger
      (Some fresh_goal, ''created'') l'"
    using apply_change_succeeds [OF ok create_operation_key empty_owner create_current(1,2,3) _ create_digest
      stamp_epoch _ stale_empty] create_current(4) by auto
  from apply_tx_fresh [OF ok empty_owner create_current(5) this] show ?thesis
    by (simp add: created_ledger_def transact_Inr [symmetric])
qed

lemma request_stamped_create: "request_stamped create_request"
  using storable_fresh by (auto simp: request_stamped_def create_request_def storable_def split: option.splits)

lemma tx_wf_if [simp]: "tx_wf (if b then p else q) \<longleftrightarrow> (if b then tx_wf p else tx_wf q)"
  by simp

lemma put_goal_wf: "tx_wf rest \<Longrightarrow> tx_wf (put_goal s k changed current rest)"
  by (auto simp: put_goal_def split: option.split sum.split)

lemma apply_change_wf: "tx_wf (apply_change rq k now stale)"
  by (auto simp: apply_change_def intro!: put_goal_wf split: sum.split prod.split)

lemma apply_tx_wf: "tx_wf (apply_tx rq k now stale)"
  using apply_change_wf by (auto simp: apply_tx_def split: sum.split option.split)

context tx_invariant begin

lemma apply_attempts_keeps:
  assumes "\<And>i m. Q m \<Longrightarrow> Q (world i m)"
  shows "Q l \<Longrightarrow> Q (snd (apply_attempts env rq k clock world i n l))"
proof (induction n arbitrary: i l)
  case (Suc n)
  let ?t = "\<lambda>stale. transact env (apply_tx rq k (clock i) stale) (world (3 * i) l)"
  have t: "Q (snd (?t stale))" for stale
    by (intro transact_keeps apply_tx_wf assms Suc.prems)
  show ?case
  proof (cases "stale_operations (env_owner env) 1 l")
    case (Inr stale)
    obtain r l2 where tr: "?t stale = (r, l2)" by force
    then have "Q l2" using t [of stale] by simp
    then show ?thesis
      using Inr tr Suc.IH assms by (auto simp: Let_def split: sum.split option.split)
  qed (simp add: Suc.prems)
qed simp

lemma apply_operation_keeps:
  assumes "\<And>i m. Q m \<Longrightarrow> Q (world i m)" "Q l"
  shows "Q (snd (apply_operation env rq oid clock world l))"
  using apply_attempts_keeps [of world l] assms by (auto simp: apply_operation_def split: sum.split)

end

lemma few_receipts:
  assumes "owners_ok l" "card (receipt_keys own l) \<le> 1023"
  shows "stale_operations own 1 l = Inr []"
proof -
  obtain rs where rs: "owner_list own l = Inr rs" "distinct (map fst rs)"
    "\<And>k n v. (k, n, v) \<in> set rs \<longleftrightarrow> owner_look own l k = Some (n, v)"
    by (rule owner_list_look [OF assms(1), of own]) blast
  then show ?thesis
    using receipt_keys_card(2) [OF rs(2,3)] assms(2) by (simp add: stale_operations_def Let_def max_operations_def)
qed

lemma created_receipts: "receipt_keys (env_owner sample_env) created_ledger \<subseteq> {create_key}"
proof -
  have ok: "owners_ok empty_ledger" using database_ok_empty by (simp add: database_ok_def)
  show ?thesis
  proof (rule apply_tx_gives [OF ok created_step])
    assume "tx_gives sample_env (apply_change create_request create_key epoch []) empty_ledger
      (Some fresh_goal, ''created'') created_ledger"
    moreover have "starts_with create_key operation_prefix" using operation_key_Inr [OF create_operation_key] by simp
    ultimately show ?thesis
      using apply_change_gives [OF ok request_stamped_create stamp_epoch, of create_key "[]" sample_env]
      by (fastforce simp: receipt_keys_def)
  qed (auto simp: receipt_at_def)
qed

lemma apply_created:
  "apply_operation sample_env create_request ''1'' (\<lambda>_. epoch) alone empty_ledger =
     (Inr (Some fresh_goal, ''created''), created_ledger)"
  by (rule apply_operation_first [OF create_operation_key stale_empty]) (rule created_step)

text \<open>
  A request on its own is carried out: when its key is unused, the
  conversation and the goal are as it was prepared for, and its action returns a well-formed
  goal of the Session or none, applying it returns what the action returned.
\<close>

theorem apply_succeeds:
  assumes "database_ok l" "operation_key (rq_kind rq) (rq_session rq) oid = Inr k"
    and "owner_look (env_owner env) l k = None"
    and "\<forall>h. rq_head rq = Some h \<longrightarrow> \<not> reader_source_changed l (rq_session rq) ''conversation'' h"
    and "decode_current (rq_session rq) (owner_look (env_owner env) l (goal_prefix @ rq_session rq)) = Inr cur"
    and "check_snapshot (rq_goal rq) (owner_look (env_owner env) l (goal_prefix @ rq_session rq)) cur = Inr ()"
    and "rq_action rq cur = Inr (changed, response)" "response \<noteq> []" "digest_ok (rq_digest rq)" "stamp_ok (clock 0)"
    and "\<forall>g. changed = Some g \<longrightarrow> goal_session g = rq_session rq \<and> storable g"
    and "stale_operations (env_owner env) 1 l = Inr stale"
  shows "\<exists>l'. apply_operation env rq oid clock alone l = (Inr (changed, response), l')"
proof -
  have ok: "owners_ok l" using assms(1) by (simp add: database_ok_def)
  obtain l' where "tx_gives env (apply_change rq k (clock 0) stale) l (changed, response) l'"
    using apply_change_succeeds [OF ok assms(2,3,5-10) _ assms(12)] assms(11) by blast
  from apply_operation_first [where clock = clock, OF assms(2,12) apply_tx_fresh [OF ok assms(3,4) this]]
  show ?thesis by blast
qed

theorem apply_succeeds_witness:
  "\<exists>l'. apply_operation sample_env create_request ''1'' (\<lambda>_. epoch) alone empty_ledger =
     (Inr (Some fresh_goal, ''created''), l')"
  by (rule apply_succeeds [OF database_ok_empty create_operation_key empty_owner create_current(5,1,2,3) _
      create_digest _ create_current(4) stale_empty]) (simp_all add: stamp_epoch)

lemma database_owners: "database_ok l \<Longrightarrow> owners_ok l"
  by (simp add: database_ok_def)

lemma apply_operation_receipt:
  assumes "database_ok l" "request_stamped rq" "\<And>i. stamp_ok (clock i)"
    and "apply_operation env rq oid clock world l = (Inr (changed, response), l')"
    and "operation_key (rq_kind rq) (rq_session rq) oid = Inr k"
    and "\<And>i m. database_ok m \<Longrightarrow> database_ok (world i m)"
    and "\<And>i m. owner_look (env_owner env) m k \<noteq> None \<Longrightarrow> owner_look (env_owner env) (world i m) k \<noteq> None"
  shows "\<exists>op. receipt_at (env_owner env) k l' op \<and> receipt_matches rq op \<and>
    op_goal op = changed \<and> op_response op = response"
proof -
  have a: "apply_attempts env rq k clock world 0 3 l = (Inr (changed, response), l')"
    using assms(4,5) by (simp add: apply_operation_def)
  from apply_attempts_Inr [OF a, of database_ok] assms(1,6) obtain j m stale where
    m: "database_ok m" "stale_operations (env_owner env) 1 m = Inr stale"
    and t: "tx_gives env (apply_tx rq k (clock j) stale) (world (3 * j) m) (changed, response) l'"
    by (auto simp: transact_Inr)
  have ok: "owners_ok m" "owners_ok (world (3 * j) m)"
    using m(1) assms(6) database_owners by blast+
  note stale = stale_operations_Inr [OF ok(1) m(2)]
  show ?thesis
  proof (rule apply_tx_gives [OF ok(2) t])
    assume fresh: "owner_look (env_owner env) (world (3 * j) m) k = None"
      and run: "tx_gives env (apply_change rq k (clock j) stale) (world (3 * j) m) (changed, response) l'"
    have "owner_look (env_owner env) m k = None" using assms(7) fresh by blast
    then have "k \<notin> fst ` set stale" using stale(1) by fastforce
    moreover have "starts_with k operation_prefix" using operation_key_Inr [OF assms(5)] by simp
    moreover have "\<forall>(j, n) \<in> set stale. starts_with j operation_prefix" using stale(1) by auto
    ultimately show ?thesis
      using apply_change_gives [OF ok(2) assms(2,3) _ _ run]
      by (metis operation.select_convs(1,2,3,4) receipt_matches_def)
  qed auto
qed



lemma apply_fresh_gives:
  assumes "database_ok l" "apply_operation env rq oid clock alone l = (Inr x, l')"
    and "operation_key (rq_kind rq) (rq_session rq) oid = Inr k" "owner_look (env_owner env) l k = None"
  shows "\<exists>stale j. stale_operations (env_owner env) 1 l = Inr stale \<and> starts_with k operation_prefix \<and>
    (\<forall>(j, n) \<in> set stale. starts_with j operation_prefix) \<and>
    (\<forall>h. rq_head rq = Some h \<longrightarrow> \<not> reader_source_changed l (rq_session rq) ''conversation'' h) \<and>
    tx_gives env (apply_change rq k (clock j) stale) l x l'"
proof -
  have ok: "owners_ok l" by (rule database_owners [OF assms(1)])
  obtain changed response where x: "x = (changed, response)" by (cases x)
  from apply_operation_alone [OF assms(2)] assms(3) obtain j stale where
    stale: "stale_operations (env_owner env) 1 l = Inr stale"
    and t: "tx_gives env (apply_tx rq k (clock j) stale) l (changed, response) l'"
    by (metis sum.inject(2) x)
  have "starts_with k operation_prefix" using operation_key_Inr [OF assms(3)] by simp
  moreover have "\<forall>(j, n) \<in> set stale. starts_with j operation_prefix"
    using stale_operations_Inr(1) [OF ok stale] by auto
  moreover have "(\<forall>h. rq_head rq = Some h \<longrightarrow> \<not> reader_source_changed l (rq_session rq) ''conversation'' h) \<and>
      tx_gives env (apply_change rq k (clock j) stale) l x l'"
    by (rule apply_tx_gives [OF ok t]) (use assms(4) x in \<open>auto simp: receipt_at_def\<close>)
  ultimately show ?thesis using stale by blast
qed

text \<open>
  C29. Applying a new request is one step of the Session's goal: the action runs
  on the stored goal, under the version and identity and the conversation the request was
  prepared for, what it returns replaces the goal under the next version (or removes it), and
  neither another Session's goal nor any message changes.
\<close>

theorem apply_is_one_step:
  assumes "database_ok l" "request_stamped rq" "\<forall>i. stamp_ok (clock i)"
    and "apply_operation env rq oid clock alone l = (Inr (changed, response), l')"
    and "operation_key (rq_kind rq) (rq_session rq) oid = Inr k" "owner_look (env_owner env) l k = None"
  shows "rq_action rq (map_option snd (goal_view (env_owner env) l (rq_session rq))) = Inr (changed, response) \<and>
    (\<forall>e. rq_goal rq = Some e \<longrightarrow>
      (\<exists>n g. goal_view (env_owner env) l (rq_session rq) = Some (n, g) \<and> e = (goal_id g, int n))) \<and>
    (\<forall>h. rq_head rq = Some h \<longrightarrow> \<not> reader_source_changed l (rq_session rq) ''conversation'' h) \<and>
    goal_view (env_owner env) l' = (goal_view (env_owner env) l)(rq_session rq := map_option
      (\<lambda>g. (case goal_view (env_owner env) l (rq_session rq) of None \<Rightarrow> 0 | Some (n, _) \<Rightarrow> Suc n, g)) changed) \<and>
    led_messages l' = led_messages l"
proof -
  from apply_fresh_gives [OF assms(1,4,5,6)] obtain stale j where
    k: "starts_with k operation_prefix" "\<forall>(j, n) \<in> set stale. starts_with j operation_prefix"
    and head: "\<forall>h. rq_head rq = Some h \<longrightarrow> \<not> reader_source_changed l (rq_session rq) ''conversation'' h"
    and run: "tx_gives env (apply_change rq k (clock j) stale) l (changed, response) l'" by metis
  have "stamp_ok (clock j)" using assms(3) by simp
  show ?thesis
    by (rule apply_change_gives [OF database_owners [OF assms(1)] assms(2) \<open>stamp_ok (clock j)\<close> k run])
      (intro conjI head, simp_all add: stores_goal_def)
qed

theorem apply_is_one_step_witness:
  "goal_view ''goal'' created_ledger ''s'' = Some (0, fresh_goal) \<and> led_messages created_ledger = led_messages empty_ledger"
  using apply_is_one_step [OF database_ok_empty request_stamped_create _ apply_created create_operation_key empty_owner]
  by (simp add: stamp_epoch goal_view_def create_request_def sample_env_def)

text \<open>
  The owner keeps at most 1024 receipts: after a request was applied, by
  the same transaction, however many there were before.
\<close>

theorem receipts_bounded:
  assumes "database_ok l" "request_stamped rq" "\<forall>i. stamp_ok (clock i)"
    and "apply_operation env rq oid clock alone l = (Inr (changed, response), l')"
    and "operation_key (rq_kind rq) (rq_session rq) oid = Inr k" "owner_look (env_owner env) l k = None"
    and "receipts_decode (env_owner env) l"
  shows "card (receipt_keys (env_owner env) l') \<le> max_operations"
proof -
  let ?own = "env_owner env"
  have ok: "owners_ok l" by (rule database_owners [OF assms(1)])
  from apply_fresh_gives [OF assms(1,4,5,6)] obtain stale j where
    stale: "stale_operations ?own 1 l = Inr stale"
    and k: "starts_with k operation_prefix" "\<forall>(j, n) \<in> set stale. starts_with j operation_prefix"
    and run: "tx_gives env (apply_change rq k (clock j) stale) l (changed, response) l'" by metis
  note st = stale_operations_Inr [OF ok stale]
  have stamp: "stamp_ok (clock j)" using assms(3) by simp
  have looks: "\<forall>j. starts_with j operation_prefix \<and> j \<noteq> k \<longrightarrow>
      owner_look ?own l' j = (if j \<in> fst ` set stale then None else owner_look ?own l j)"
    using apply_change_gives [OF ok assms(2) stamp k run] by metis
  let ?D = "fst ` set stale" and ?R = "receipt_keys ?own l"
  have sub: "?D \<subseteq> ?R" using st(1) by (fastforce simp: receipt_keys_def)
  have "finite ?R" using receipt_keys_finite [OF ok] .
  moreover have "receipt_keys ?own l' \<subseteq> insert k (?R - ?D)"
    using looks by (auto simp: receipt_keys_def split: if_split_asm)
  ultimately have "card (receipt_keys ?own l') \<le> Suc (card (?R - ?D))"
    using card_mono [of "insert k (?R - ?D)" "receipt_keys ?own l'"] card_insert_le_m1
    by (fastforce simp: card_insert_if split: if_split_asm)
  also have "card (?R - ?D) = card ?R - card ?D"
    using \<open>finite ?R\<close> sub by (simp add: card_Diff_subset finite_subset)
  also have "card ?D = length stale" using st(2) distinct_card [of "map fst stale"] by simp
  finally show ?thesis using st(3) [OF assms(7)] by (simp add: max_operations_def)
qed

theorem receipts_bounded_witness:
  "card (receipt_keys ''goal'' created_ledger) \<le> 1024"
  using receipts_bounded [OF database_ok_empty request_stamped_create _ apply_created create_operation_key empty_owner]
  by (simp add: stamp_epoch receipts_decode_def receipt_keys_def sample_env_def max_operations_def)

section \<open>Rounds\<close>

text \<open>
  C24. A settlement is one step of the Session's goal: it applies to the goal
  with the identity and under the version that the runtime has read, in a conversation without
  newer input; the goal it stores is the settled one under the next version, and every
  continuation that the stored goal names is posted as an input of the conversation by the same
  transaction; a settlement that continues nothing posts nothing.
\<close>

theorem settle_is_one_step:
  assumes "database_ok l" "\<forall>i. stamp_ok (clock i)"
    and "settle env s gid version head st next_id next_text allow clock l = (Inr g', l')"
  shows "\<exists>n g. goal_view (env_owner env) l s = Some (n, g) \<and> int n = version \<and> goal_id g = gid \<and>
    (goal_active g \<or> allow) \<and> \<not> reader_source_changed l s ''conversation'' head \<and>
    settled_goal st allow next_id clock g = Inr g' \<and>
    goal_view (env_owner env) l' = (goal_view (env_owner env) l)(s \<mapsto> (Suc n, g')) \<and>
    (case goal_continuation g' of
       None \<Rightarrow> led_messages l' = led_messages l
     | Some mid \<Rightarrow> (\<exists>t. posted (goal_writer s) mid (continuation_body t) l'))"
proof -
  have stamp: "\<And>i. stamp_ok (clock i)" using assms(2) by simp
  have run: "tx_gives env (settle_tx (goal_writer s) s gid version head st next_id next_text allow clock) l g' l'"
    using assms(3) by (simp add: settle_def transact_Inr)
  show ?thesis
    by (rule settle_tx_gives [OF database_owners [OF assms(1)] stamp run]) (auto simp: stores_goal_def)
qed

text \<open>
  Starting a continuation marks it on the goal, whose version the runtime has
  read, and posts its input in the same transaction.
\<close>

theorem start_is_one_step:
  assumes "database_ok l" "stamp_ok now" "start env s gid version head mid t now l = (Inr g', l')"
  shows "\<exists>n g. goal_view (env_owner env) l s = Some (n, g) \<and> int n = version \<and> goal_id g = gid \<and>
    goal_active g \<and> \<not> reader_source_changed l s ''conversation'' head \<and>
    mark_continuation g mid now = Inr g' \<and>
    goal_view (env_owner env) l' = (goal_view (env_owner env) l)(s \<mapsto> (Suc n, g')) \<and>
    posted (goal_writer s) mid (continuation_body t) l'"
proof -
  have run: "tx_gives env (start_tx (goal_writer s) s gid version head mid t now) l g' l'"
    using assms(3) by (simp add: start_def transact_Inr)
  show ?thesis
    by (rule start_tx_gives [OF database_owners [OF assms(1)] assms(2) run]) (auto simp: stores_goal_def)
qed

text \<open>A database with one goal.\<close>

definition goal_ledger :: ledger where
  "goal_ledger = empty_ledger\<lparr>led_owners := [\<lparr>own_owner = ''goal'', own_key = goal_prefix @ ''s'',
     own_version = 0, own_value = json_norm (JObj (goal_value fresh_goal))\<rparr>]\<rparr>"

lemma goal_ledger_look:
  "owner_look ''goal'' goal_ledger (goal_prefix @ ''s'') = Some (0, json_norm (JObj (goal_value fresh_goal)))"
  by (simp add: owner_look_def owner_row_of_def goal_ledger_def)

lemma goal_ledger_ok: "database_ok goal_ledger"
  using database_ok_empty ledger_ok_cong [of goal_ledger empty_ledger]
  by (simp add: database_ok_def owners_ok_def goal_ledger_def)

lemma goal_ledger_decode: "decode_goal ''s'' (json_norm (JObj (goal_value fresh_goal))) = Inr fresh_goal"
  using goal_roundtrip(2) [OF _ _ storable_encodes [OF storable_fresh]] storable_fresh fresh_session
  by (simp add: storable_def)

lemma goal_ledger_source: "\<not> reader_source_changed goal_ledger s src h"
  by (simp add: reader_source_changed_def goal_ledger_def empty_ledger_def)

lemma sample_env_simps: "env_owner sample_env = ''goal''" "env_checks sample_env = []" "env_now sample_env = 7"
  by (simp_all add: sample_env_def)

lemma fresh_goal_facts: "goal_id fresh_goal = ''g1''" "goal_active fresh_goal" "goal_continuations fresh_goal = 0"
  by (code_simp, code_simp, code_simp)

lemma started:
  obtains g' l' where "start sample_env ''s'' ''g1'' 0 (-1) ''m1'' ''go on'' epoch goal_ledger = (Inr g', l')"
proof -
  have ok: "owners_ok goal_ledger" by (rule database_owners [OF goal_ledger_ok])
  obtain g' where g': "mark_continuation fresh_goal ''m1'' epoch = Inr g'"
    by (simp add: mark_continuation_def fresh_goal_facts max_continuations_def)
  have "case writer_append [] 7 (goal_writer ''s'') ''m1'' (continuation_body ''go on'') (Some (-1)) None
      (empty_ledger\<lparr>led_owners := xs\<rparr>) of Inl _ \<Rightarrow> False | Inr _ \<Rightarrow> True" for xs
    by code_simp
  then have "\<exists>r. writer_append [] 7 (goal_writer ''s'') ''m1'' (continuation_body ''go on'') (Some (-1)) None
      (empty_ledger\<lparr>led_owners := xs\<rparr>) = Inr r" for xs
    by (metis (no_types, lifting) sumE sum.simps(5))
  then obtain m l1 where app: "writer_append [] 7 (goal_writer ''s'') ''m1'' (continuation_body ''go on'') (Some (-1)) None
      goal_ledger = Inr (m, l1)"
    unfolding goal_ledger_def by (metis prod.exhaust)
  have owners: "led_owners l1 = led_owners goal_ledger" by (rule writer_append_owners [OF app])
  have ok1: "owners_ok l1" using owners_ok_cong [OF owners] ok by simp
  have "goal_ok g'" using mark_continuation_ok [OF _ g'] storable_fresh by (simp add: storable_def)
  then have "storable g'"
    using mark_continuation_Inr [OF g'] storable_fresh stamp_epoch by (auto simp: storable_def)
  then have enc: "encode_goal g' = Inr (JObj (goal_value g'))" by (rule storable_encodes)
  have look1: "owner_look ''goal'' l1 (goal_prefix @ ''s'') = Some (0, json_norm (JObj (goal_value fresh_goal)))"
    using goal_ledger_look owner_look_frame [OF owners] by simp
  obtain i l2 where "owner_save ''goal'' (goal_prefix @ ''s'') (JObj (goal_value g')) (Some 0) l1 = Inr (i, l2)"
    using owner_save_succeeds [where own = "''goal''" and n = "Some 0" and k = "goal_prefix @ ''s''" and
      kvs = "goal_value g'", OF ok1 goal_key_nonempty] look1 by auto
  then have "tx_gives sample_env (start_tx (goal_writer ''s'') ''s'' ''g1'' 0 (-1) ''m1'' ''go on'' epoch) goal_ledger g' l2"
    using g' app enc goal_ledger_look goal_ledger_decode fresh_goal_facts goal_ledger_source
    by (simp add: start_tx_def with_expected_def continue_tx_def save_goal_def tx_simps goal_key_def
      owner_read_look [OF ok] sample_env_simps del: json_norm.simps)
  then show thesis using that by (auto simp: start_def transact_Inr [symmetric])
qed

theorem start_is_one_step_witness:
  "\<exists>g' l'. start sample_env ''s'' ''g1'' 0 (-1) ''m1'' ''go on'' epoch goal_ledger = (Inr g', l') \<and>
     goal_view ''goal'' l' ''s'' = Some (1, g') \<and>
     posted (goal_writer ''s'') ''m1'' (continuation_body ''go on'') l'"
proof (rule started)
  fix g' l' assume run: "start sample_env ''s'' ''g1'' 0 (-1) ''m1'' ''go on'' epoch goal_ledger = (Inr g', l')"
  then show ?thesis
    using start_is_one_step [OF goal_ledger_ok stamp_epoch run] by (auto simp: sample_env_simps)
qed

definition quiet_settlement :: settlement where
  "quiet_settlement = round.extend (quiet_round 4 7) \<lparr>st_append = False, st_pause_after = False\<rparr>"

lemma settled:
  obtains g' l' where "settle sample_env ''s'' ''g1'' 0 (-1) quiet_settlement None None False (\<lambda>_. epoch) goal_ledger = (Inr g', l')"
proof -
  have ok: "owners_ok goal_ledger" by (rule database_owners [OF goal_ledger_ok])
  have trunc: "round.truncate quiet_settlement = quiet_round 4 7" "\<not> st_append quiet_settlement"
    "\<not> st_pause_after quiet_settlement"
    by (simp_all add: quiet_settlement_def round.defs)
  have "case settle_round fresh_goal (quiet_round 4 7) False epoch of Inl _ \<Rightarrow> False
      | Inr g \<Rightarrow> goal_settled_id g \<noteq> Some [] \<and> goal_reason g \<noteq> Some []"
    by code_simp
  then obtain g' where g': "settle_round fresh_goal (quiet_round 4 7) False epoch = Inr g'"
    "goal_settled_id g' \<noteq> Some []" "goal_reason g' \<noteq> Some []"
    by (cases "settle_round fresh_goal (quiet_round 4 7) False epoch") auto
  have "goal_ok g'" using settle_round_ok [OF _ g'(1)] storable_fresh by (simp add: storable_def)
  then have "storable g'"
    using settle_round_Inr [OF g'(1)] g'(2,3) storable_fresh stamp_epoch by (simp add: storable_def)
  then have enc: "encode_goal g' = Inr (JObj (goal_value g'))" by (rule storable_encodes)
  obtain i l2 where "owner_save ''goal'' (goal_prefix @ ''s'') (JObj (goal_value g')) (Some 0) goal_ledger = Inr (i, l2)"
    using owner_save_succeeds [where own = "''goal''" and n = "Some 0" and k = "goal_prefix @ ''s''" and
      kvs = "goal_value g'", OF ok goal_key_nonempty] goal_ledger_look by auto
  then have "tx_gives sample_env (settle_tx (goal_writer ''s'') ''s'' ''g1'' 0 (-1) quiet_settlement None None False
      (\<lambda>_. epoch)) goal_ledger g' l2"
    using g'(1) enc goal_ledger_look goal_ledger_decode fresh_goal_facts goal_ledger_source
    by (simp add: settle_tx_def with_expected_def save_goal_def tx_simps goal_key_def trunc
      owner_read_look [OF ok] sample_env_simps del: json_norm.simps)
  then show thesis using that by (auto simp: settle_def transact_Inr [symmetric])
qed

theorem settle_is_one_step_witness:
  "\<exists>g' l'. settle sample_env ''s'' ''g1'' 0 (-1) quiet_settlement None None False (\<lambda>_. epoch) goal_ledger = (Inr g', l') \<and>
     goal_view ''goal'' l' ''s'' = Some (1, g')"
proof (rule settled)
  fix g' l' assume run: "settle sample_env ''s'' ''g1'' 0 (-1) quiet_settlement None None False (\<lambda>_. epoch) goal_ledger = (Inr g', l')"
  then show ?thesis
    using settle_is_one_step [OF goal_ledger_ok _ run] stamp_epoch by (auto simp: sample_env_simps)
qed



end
