(* ===== verification/Ledger_Scan.thy ===== *)
theory Ledger_Scan
  imports Ledger_Sessions
begin

text \<open>
  The loops of \<open>MessageReader\<close> (\<open>plugins/ledger/log.py\<close>): scanning a range page by page,
  the incremental reader that keeps the prefix it has read, one pass of a follower, and the
  attachments of many messages. The loops are shown to compute what one query would.
\<close>

section \<open>Scanning by pages\<close>

definition scan_rows :: "ledger \<Rightarrow> string \<Rightarrow> string option \<Rightarrow> int \<Rightarrow> int \<Rightarrow> message_row list" where
  "scan_rows l s source after_seq through =
     filter (\<lambda>r. after_seq < int (row_seq r) \<and> int (row_seq r) \<le> through \<and>
                 (case source of None \<Rightarrow> True | Some src \<Rightarrow> row_source r = src)) (session_rows s l)"

lemma reader_read_scan:
  "reader_read l s after_seq (Some through) source limit =
     (if limit < 1 \<or> after_seq < -1 then Inl ValueError
      else traverse decode_row (take (nat limit) (scan_rows l s source after_seq through)))"
  by (simp add: reader_read_def scan_rows_def)

lemma traverse_last:
  "traverse f xs = Inr ys \<Longrightarrow> ys \<noteq> [] \<Longrightarrow> xs \<noteq> [] \<and> f (last xs) = Inr (last ys)"
  proof (induction xs arbitrary: ys)
  case (Cons x xs)
  then obtain y zs where ys: "f x = Inr y" "traverse f xs = Inr zs" "ys = y # zs"
    by (auto simp: attempt_eq_Inr)
  then show ?case
    using Cons.IH [of zs] traverse_Inr_length [OF ys(2)] by (cases "zs = []") auto
qed simp

lemma scan_rows_set: "r \<in> set (scan_rows l s source after_seq through) \<Longrightarrow>
    row_session r = s \<and> after_seq < int (row_seq r) \<and> int (row_seq r) \<le> through"
  by (auto simp: scan_rows_def session_rows_def)

lemma page_advances:
  assumes "reader_read l s cursor (Some head) source limit = Inr page" "page \<noteq> []"
  shows "cursor < int (msg_seq (last page)) \<and> int (msg_seq (last page)) \<le> head"
proof -
  let ?rows = "take (nat limit) (scan_rows l s source cursor head)"
  have "traverse decode_row ?rows = Inr page"
    using assms(1) by (simp add: reader_read_scan split: if_split_asm)
  then have l: "?rows \<noteq> []" "decode_row (last ?rows) = Inr (last page)"
    using traverse_last assms(2) by blast+
  then have "last ?rows \<in> set (scan_rows l s source cursor head)" by (meson in_set_takeD last_in_set)
  then show ?thesis using scan_rows_set decode_row_fields [OF l(2)] by auto
qed

definition page_size :: int where "page_size = 1024"

function scan_from ::
  "ledger \<Rightarrow> string \<Rightarrow> string option \<Rightarrow> int \<Rightarrow> int \<Rightarrow> message list res" where
  "scan_from l s source head cursor =
     (if cursor < head then
        (case reader_read l s cursor (Some head) source page_size of
           Inl e \<Rightarrow> Inl e
         | Inr page \<Rightarrow>
             if page = [] then Inr []
             else attempt (scan_from l s source head (int (msg_seq (last page)))) (\<lambda>rest. Inr (page @ rest)))
      else Inr [])"
  by auto
termination
  by (relation "measure (\<lambda>(l, s, source, head, cursor). nat (head - cursor))")
    (use page_advances in fastforce)+

declare scan_from.simps [simp del]

definition reader_scan ::
  "ledger \<Rightarrow> string \<Rightarrow> int \<Rightarrow> int option \<Rightarrow> string option \<Rightarrow> message list res" where
  "reader_scan l s after_seq through source =
     scan_from l s source (case through of None \<Rightarrow> reader_head l s None | Some t \<Rightarrow> t) after_seq"

definition reader_snapshot :: "ledger \<Rightarrow> string \<Rightarrow> int \<Rightarrow> int option \<Rightarrow> message list res" where
  "reader_snapshot l s after_seq through = reader_scan l s after_seq through None"

section \<open>The incremental reader\<close>

text \<open>\<open>_IncrementalMessageReader.scan\<close> on a database with the prefix revision: the cache is the
  revision and the messages of the prefix it has read.\<close>

type_synonym prefix_cache = "(nat \<times> message list) option"

definition cached_prefix :: "nat \<Rightarrow> prefix_cache \<Rightarrow> message list" where
  "cached_prefix revision cache = (case cache of
     None \<Rightarrow> [] | Some (r, ms) \<Rightarrow> if revision \<noteq> r then [] else ms)"

definition source_is :: "string option \<Rightarrow> string \<Rightarrow> bool" where
  "source_is source src = (case source of None \<Rightarrow> True | Some t \<Rightarrow> src = t)"

definition incremental_scan ::
  "nat \<Rightarrow> prefix_cache \<Rightarrow> ledger \<Rightarrow> string \<Rightarrow> int \<Rightarrow> int option \<Rightarrow> string option \<Rightarrow>
   (message list \<times> prefix_cache) res" where
  "incremental_scan revision cache l s after_seq through source =
     (if after_seq < -1 then Inl ValueError
      else
        let cached = cached_prefix revision cache;
            head = (case through of None \<Rightarrow> reader_head l s None | Some t \<Rightarrow> min (reader_head l s None) t);
            previous = (if cached = [] then -1 else int (msg_seq (last cached)));
            kept = filter (\<lambda>m. after_seq < int (msg_seq m) \<and> int (msg_seq m) \<le> head \<and>
                               source_is source (msg_source m)) cached
        in attempt (if max previous after_seq < head
             then reader_scan l s (max previous after_seq) (Some head) source else Inr []) (\<lambda>tail.
           Inr (kept @ tail,
             if source = None \<and> after_seq = -1 then Some (revision, kept @ tail) else cache)))"

section \<open>Following\<close>

text \<open>One pass of \<open>follow\<close>: what it yields before it waits again, and its new cursor.\<close>

definition follow_pass :: "ledger \<Rightarrow> string \<Rightarrow> int \<Rightarrow> (message list \<times> int) res" where
  "follow_pass l s after_seq =
     attempt (reader_read l s after_seq None None 1000) (\<lambda>ms.
       Inr (ms, if ms = [] then after_seq else int (msg_seq (last ms))))"

section \<open>Attachments of many messages\<close>

type_synonym attachment_memo = "((string \<times> string) \<times> string list) list"

definition owned_message :: "ledger \<Rightarrow> string \<Rightarrow> string \<Rightarrow> bool" where
  "owned_message l s mid \<longleftrightarrow> list_ex (\<lambda>r. row_id r = mid \<and> row_session r = s) (led_messages l)"

text \<open>The result is read before the memo is filled and trimmed, oldest entries first.\<close>

definition attachment_memo_size :: nat where "attachment_memo_size = 32768"

definition attachments_for ::
  "attachment_memo \<Rightarrow> ledger \<Rightarrow> string \<Rightarrow> string list \<Rightarrow> (string list \<times> attachment_memo) res" where
  "attachments_for memo l s ids =
     (if ids = [] then Inr ([], memo)
      else
        let identities = rev (remdups (rev ids));
            missing = filter (\<lambda>i. map_of memo (s, i) = None) identities
        in attempt (traverse (\<lambda>i. attempt (message_artifacts l i) (\<lambda>as. Inr (i, as)))
             (filter (owned_message l s) missing)) (\<lambda>found.
           if \<not> list_all (owned_message l s) missing then Inl LookupError
           else
             let resolved = (\<lambda>i. case map_of memo (s, i) of
                     Some as \<Rightarrow> as
                   | None \<Rightarrow> (case map_of found i of Some as \<Rightarrow> as | None \<Rightarrow> []));
                 memo' = memo @ map (\<lambda>i. ((s, i), resolved i)) missing
             in Inr (concat (map resolved ids), drop (length memo' - attachment_memo_size) memo')))"

section \<open>The loops read what one query would\<close>

lemma scan_rows_ok:
  assumes "ledger_ok l"
  shows "sorted_wrt (\<lambda>a b. row_seq a < row_seq b) (scan_rows l s source after_seq through)"
    "set (scan_rows l s source after_seq through) \<subseteq> set (led_messages l)"
proof -
  show "sorted_wrt (\<lambda>a b. row_seq a < row_seq b) (scan_rows l s source after_seq through)"
    unfolding scan_rows_def by (intro sorted_wrt_filter session_rows_ok(2) [OF assms])
  show "set (scan_rows l s source after_seq through) \<subseteq> set (led_messages l)"
    by (auto simp: scan_rows_def session_rows_def)
qed

lemma filter_after_nth:
  fixes f :: "'a \<Rightarrow> 'b::linorder"
  assumes "sorted_wrt (\<lambda>a b. f a < f b) xs" "n < length xs"
  shows "filter (\<lambda>x. f (xs ! n) < f x) xs = drop (Suc n) xs"
  using assms
proof (induction xs arbitrary: n)
  case (Cons x xs)
  show ?case
  proof (cases n)
    case 0
    then show ?thesis using Cons.prems(1) by simp
  next
    case (Suc m)
    then show ?thesis using Cons by (auto simp: not_less_iff_gr_or_eq)
  qed
qed simp

lemma scan_rows_from:
  assumes "ledger_ok l" "n < length (scan_rows l s source after_seq through)"
  shows "scan_rows l s source (int (row_seq (scan_rows l s source after_seq through ! n))) through =
    drop (Suc n) (scan_rows l s source after_seq through)"
proof -
  let ?rows = "scan_rows l s source after_seq through"
  let ?r = "?rows ! n"
  have "?r \<in> set ?rows" using assms(2) by simp
  then have "after_seq < int (row_seq ?r)" using scan_rows_set by blast
  then have "scan_rows l s source (int (row_seq ?r)) through = filter (\<lambda>x. row_seq ?r < row_seq x) ?rows"
    by (auto simp: scan_rows_def intro!: filter_cong)
  then show ?thesis using filter_after_nth [OF scan_rows_ok(1) [OF assms(1)] assms(2)] by simp
qed

lemma scan_from_reads:
  assumes "ledger_ok l" "-1 \<le> cursor"
  shows "scan_from l s source head cursor = traverse decode_row (scan_rows l s source cursor head)"
  using assms
proof (induction l s source head cursor rule: scan_from.induct)
  case (1 l s source head cursor)
  note ok = \<open>ledger_ok l\<close>
  let ?rows = "scan_rows l s source cursor head"
  show ?case
  proof (cases "cursor < head")
    case False
    then have "?rows = []" by (auto simp: scan_rows_def filter_empty_conv)
    then show ?thesis using 1 False by (simp add: scan_from.simps)
  next
    case True
    obtain ms where ms: "traverse decode_row ?rows = Inr ms"
      using ledger_rows_decode [OF ok scan_rows_ok(2) [OF ok]] by blast
    let ?n = "nat page_size"
    have "traverse decode_row (take ?n ?rows @ drop ?n ?rows) = Inr ms"
      using ms by (simp only: append_take_drop_id)
    then obtain page rest where split: "traverse decode_row (take ?n ?rows) = Inr page"
      "traverse decode_row (drop ?n ?rows) = Inr rest" "ms = page @ rest"
      unfolding traverse_append attempt_eq_Inr by auto
    have page: "reader_read l s cursor (Some head) source page_size = Inr page"
      using split(1) 1(3) by (simp add: reader_read_scan page_size_def)
    show ?thesis
    proof (cases "page = []")
      case True
      then have "min (length ?rows) 1024 = 0" using traverse_Inr_length [OF split(1)] by (simp add: page_size_def)
      then have "?rows = []" by (simp add: min_def split: if_split_asm)
      then show ?thesis using True \<open>cursor < head\<close> page by (simp add: scan_from.simps)
    next
      case False
      have ne: "take ?n ?rows \<noteq> []" and lst: "decode_row (last (take ?n ?rows)) = Inr (last page)"
        using traverse_last [OF split(1) False] by blast+
      define k where "k = length (take ?n ?rows) - 1"
      have "0 < length (take ?n ?rows)" "length (take ?n ?rows) \<le> length ?rows" using ne by auto
      then have k: "k < length ?rows" "Suc k = length (take ?n ?rows)" unfolding k_def by linarith+
      have "last (take ?n ?rows) = take ?n ?rows ! k" unfolding k_def by (rule last_conv_nth [OF ne])
      then have "last (take ?n ?rows) = ?rows ! k" using k(2) by simp
      then have seq: "msg_seq (last page) = row_seq (?rows ! k)" using decode_row_fields [OF lst] by simp
      have "drop (Suc k) ?rows = drop ?n ?rows" using k(2) by (simp add: min_def split: if_split_asm)
      then have rest: "scan_rows l s source (int (msg_seq (last page))) head = drop ?n ?rows"
        using scan_rows_from [OF ok k(1)] seq by simp
      have "scan_from l s source head (int (msg_seq (last page))) = Inr rest"
        using 1(1) [of page] ok True page False rest split(2) by simp
      then show ?thesis using True page False ms split(3) by (simp add: scan_from.simps [of l])
    qed
  qed
qed

definition scan_head :: "ledger \<Rightarrow> string \<Rightarrow> int option \<Rightarrow> int" where
  "scan_head l s through = (case through of None \<Rightarrow> reader_head l s None | Some t \<Rightarrow> t)"

text \<open>
  C37. Scanning by pages ends and hands out exactly the messages of the range, in
  order, as one query would.
\<close>

theorem scan_reads_range:
  assumes "ledger_ok l" "-1 \<le> after_seq"
  shows "\<exists>ms. reader_scan l s after_seq through source = Inr ms \<and>
    traverse decode_row (scan_rows l s source after_seq (scan_head l s through)) = Inr ms"
proof -
  have "reader_scan l s after_seq through source =
      traverse decode_row (scan_rows l s source after_seq (scan_head l s through))"
    using scan_from_reads [OF assms] by (simp add: reader_scan_def scan_head_def)
  then show ?thesis
    using ledger_rows_decode [OF assms(1) scan_rows_ok(2) [OF assms(1)]] by force
qed

theorem scan_reads_range_witness:
  "\<exists>ms. reader_scan empty_ledger ''s'' (-1) None None = Inr ms"
  using scan_reads_range [OF ledger_ok_empty, of "-1" "''s''" None None] by auto

lemma traverse_filter:
  assumes "traverse f xs = Inr ys" "\<And>x y. f x = Inr y \<Longrightarrow> Q y = P x"
  shows "traverse f (filter P xs) = Inr (filter Q ys)"
  using assms(1) by (induction xs arbitrary: ys) (auto simp: attempt_eq_Inr assms(2))

lemma filter_split_at:
  fixes f :: "'a \<Rightarrow> 'b::linorder"
  assumes "sorted_wrt (\<lambda>a b. f a < f b) xs" "\<And>x. x \<in> set xs \<Longrightarrow> P x \<Longrightarrow> Q x \<or> R x"
    and "\<And>x. Q x \<Longrightarrow> P x \<and> f x \<le> m" "\<And>x. R x \<Longrightarrow> P x \<and> m < f x"
  shows "filter P xs = filter Q xs @ filter R xs"
  using assms(1,2)
proof (induction xs)
  case (Cons x xs)
  show ?case
  proof (cases "m < f x")
    case True
    then have "\<not> Q y" if "y \<in> set (x # xs)" for y
      using Cons.prems(1) assms(3) that by fastforce
    moreover from this have "P y \<longleftrightarrow> R y" if "y \<in> set (x # xs)" for y
      using Cons.prems(2) assms(4) that by blast
    ultimately show ?thesis by (simp cong: filter_cong)
  next
    case False
    then have "P x \<longleftrightarrow> Q x" "\<not> R x"
      using Cons.prems(2) [of x] assms(3,4) by auto
    then show ?thesis using Cons by auto
  qed
qed simp

text \<open>A cache of the current revision holds a prefix of the log.\<close>

definition prefix_valid :: "nat \<Rightarrow> prefix_cache \<Rightarrow> ledger \<Rightarrow> string \<Rightarrow> bool" where
  "prefix_valid revision cache l s \<longleftrightarrow> (\<forall>ms. cache = Some (revision, ms) \<longrightarrow>
     (\<exists>h. h \<le> reader_head l s None \<and> traverse decode_row (scan_rows l s None (-1) h) = Inr ms))"

lemma rows_upto_last:
  assumes "ledger_ok l" "scan_rows l s source after_seq h \<noteq> []"
  shows "scan_rows l s source after_seq (int (row_seq (last (scan_rows l s source after_seq h)))) =
    scan_rows l s source after_seq h"
proof -
  let ?rows = "scan_rows l s source after_seq h"
  have "last ?rows \<in> set ?rows" using assms(2) by simp
  then have le: "int (row_seq (last ?rows)) \<le> h" using scan_rows_set by blast
  have "row_seq r \<le> row_seq (last ?rows)" if "r \<in> set ?rows" for r
  proof -
    have "?rows = butlast ?rows @ [last ?rows]" using assms(2) by simp
    then have "sorted_wrt (\<lambda>a b. row_seq a < row_seq b) (butlast ?rows @ [last ?rows])"
      and "r \<in> set (butlast ?rows @ [last ?rows])"
      using scan_rows_ok(1) [OF assms(1)] that by metis+
    then show ?thesis by (auto simp: sorted_wrt_append)
  qed
  then show ?thesis
    using le unfolding scan_rows_def by (intro filter_cong refl) fastforce
qed

lemma cached_prefix_rows:
  assumes "prefix_valid revision cache l s" and ok: "ledger_ok l"
  defines "cached \<equiv> cached_prefix revision cache"
  defines "previous \<equiv> if cached = [] then -1 else int (msg_seq (last cached))"
  shows "traverse decode_row (scan_rows l s None (-1) previous) = Inr cached"
proof (cases "\<exists>ms. cache = Some (revision, ms)")
  case True
  then obtain ms h where ms: "cached = ms" "traverse decode_row (scan_rows l s None (-1) h) = Inr ms"
    using assms(1) by (auto simp: prefix_valid_def cached_def cached_prefix_def)
  show ?thesis
  proof (cases "ms = []")
    case True
    have "scan_rows l s None (-1) (-1) = []" by (auto simp: scan_rows_def filter_empty_conv)
    then show ?thesis using True ms(1) by (simp add: previous_def)
  next
    case False
    have ne: "scan_rows l s None (-1) h \<noteq> []"
      and lst: "decode_row (last (scan_rows l s None (-1) h)) = Inr (last ms)"
      using traverse_last [OF ms(2) False] by blast+
    have prev: "previous = int (row_seq (last (scan_rows l s None (-1) h)))"
      using decode_row_fields [OF lst] False ms(1) by (simp add: previous_def)
    show ?thesis using ms rows_upto_last [OF ok ne] by (simp add: prev)
  qed
next
  case False
  then have "cached = []" by (auto simp: cached_def cached_prefix_def split: option.split)
  moreover have "scan_rows l s None (-1) (-1) = []" by (auto simp: scan_rows_def filter_empty_conv)
  ultimately show ?thesis by (simp add: previous_def)
qed

lemma scan_rows_split:
  assumes "ledger_ok l" "after_seq \<le> m" "m \<le> head"
  shows "scan_rows l s source after_seq head = scan_rows l s source after_seq m @ scan_rows l s source m head"
  unfolding scan_rows_def
proof (rule filter_split_at [where f = "\<lambda>r. int (row_seq r)" and m = m])
  show "sorted_wrt (\<lambda>a b. int (row_seq a) < int (row_seq b)) (session_rows s l)"
    using session_rows_ok(2) [OF assms(1)] by simp
qed (use assms(2,3) in auto)

lemma max_seq_ge: "r \<in> set rs \<Longrightarrow> int (row_seq r) \<le> max_seq rs"
  by (induction rs) auto

lemma max_seq_under: "(\<And>r. r \<in> set rs \<Longrightarrow> int (row_seq r) < n) \<Longrightarrow> 0 \<le> n \<Longrightarrow> max_seq rs < n"
  by (induction rs) auto

lemma max_seq_mono: "set rs \<subseteq> set rs' \<Longrightarrow> max_seq rs \<le> max_seq rs'"
proof (induction rs)
  case Nil
  then show ?case by (induction rs') auto
qed (auto dest: max_seq_ge)

lemma prefix_valid_extends:
  assumes "ledger_ok l" "ledger_ok l'" "extends l l'" "prefix_valid revision cache l s"
  shows "prefix_valid revision cache l' s"
  unfolding prefix_valid_def
proof (intro allI impI)
  fix ms assume "cache = Some (revision, ms)"
  then obtain h where h: "h \<le> reader_head l s None" "traverse decode_row (scan_rows l s None (-1) h) = Inr ms"
    using assms(4) by (auto simp: prefix_valid_def)
  obtain new where new: "led_messages l' = led_messages l @ new" using assms(3) by (auto simp: extends_def)
  let ?in = "\<lambda>r. row_session r = s"
  have rows: "scan_rows l s None (-1) h = filter (\<lambda>r. int (row_seq r) \<le> h) (filter ?in (led_messages l))"
    "scan_rows l' s None (-1) h = filter (\<lambda>r. int (row_seq r) \<le> h) (filter ?in (led_messages l'))"
    unfolding scan_rows_def session_rows_ok(1) [OF assms(1)] session_rows_ok(1) [OF assms(2)]
    by (auto intro!: filter_cong)
  have "filter (\<lambda>r. int (row_seq r) \<le> h) (filter ?in new) = []"
  proof (cases "\<exists>r \<in> set (led_messages l). ?in r")
    case True
    have "h < int (row_seq r)" if r: "r \<in> set new" "?in r" for r
    proof -
      have "row_seq q < row_seq r" if "q \<in> set (led_messages l)" "?in q" for q
        using assms(2) that r by (auto simp: ledger_ok_def new sorted_wrt_append seq_order_def)
      then have "max_seq (filter ?in (led_messages l)) < int (row_seq r)"
        using True by (intro max_seq_under) auto
      then show ?thesis using h(1) by (simp add: reader_head_def)
    qed
    then show ?thesis by (fastforce simp: filter_empty_conv)
  next
    case False
    then have "filter ?in (led_messages l) = []" by (auto simp: filter_empty_conv)
    then have "h \<le> -1" using h(1) by (simp add: reader_head_def)
    then show ?thesis by (auto simp: filter_empty_conv)
  qed
  then have "scan_rows l' s None (-1) h = scan_rows l s None (-1) h"
    unfolding rows new by simp
  moreover have "h \<le> reader_head l' s None"
    using h(1) max_seq_mono [of "filter ?in (led_messages l)" "filter ?in (led_messages l')"]
    by (auto simp: reader_head_def new)
  ultimately show "\<exists>h. h \<le> reader_head l' s None \<and> traverse decode_row (scan_rows l' s None (-1) h) = Inr ms"
    using h(2) by auto
qed

text \<open>What is kept of the cached prefix, and what is read after it.\<close>

lemma kept_prefix:
  assumes "traverse decode_row (scan_rows l s None (-1) previous) = Inr cached" "-1 \<le> after_seq"
  shows "traverse decode_row (scan_rows l s source after_seq (min head previous)) =
    Inr (filter (\<lambda>m. after_seq < int (msg_seq m) \<and> int (msg_seq m) \<le> head \<and>
      source_is source (msg_source m)) cached)"
proof -
  have "traverse decode_row (filter (\<lambda>r. after_seq < int (row_seq r) \<and> int (row_seq r) \<le> head \<and>
      source_is source (row_source r)) (scan_rows l s None (-1) previous)) =
      Inr (filter (\<lambda>m. after_seq < int (msg_seq m) \<and> int (msg_seq m) \<le> head \<and>
        source_is source (msg_source m)) cached)"
    by (rule traverse_filter [OF assms(1)]) (auto dest: decode_row_fields)
  moreover have "filter (\<lambda>r. after_seq < int (row_seq r) \<and> int (row_seq r) \<le> head \<and>
      source_is source (row_source r)) (scan_rows l s None (-1) previous) =
      scan_rows l s source after_seq (min head previous)"
    by (auto simp: scan_rows_def source_is_def intro!: filter_cong split: option.splits)
  ultimately show ?thesis by simp
qed

lemma scan_rows_empty: "head \<le> after_seq \<Longrightarrow> scan_rows l s source after_seq head = []"
  by (auto simp: scan_rows_def filter_empty_conv)

lemma read_tail:
  assumes "ledger_ok l" "-1 \<le> m"
  shows "(if m < head then reader_scan l s m (Some head) source else Inr []) =
    traverse decode_row (scan_rows l s source m head)"
  using scan_from_reads [OF assms] by (simp add: reader_scan_def scan_rows_empty)

lemma kept_and_tail:
  assumes "ledger_ok l"
  shows "scan_rows l s source after_seq head =
    scan_rows l s source after_seq (min head previous) @ scan_rows l s source (max previous after_seq) head"
proof (cases "max previous after_seq < head")
  case True
  then have "scan_rows l s source after_seq head =
      scan_rows l s source after_seq (max previous after_seq) @ scan_rows l s source (max previous after_seq) head"
    by (intro scan_rows_split [OF assms]) auto
  moreover have "scan_rows l s source after_seq (max previous after_seq) =
      scan_rows l s source after_seq (min head previous)"
    using True by (auto simp: scan_rows_def intro!: filter_cong)
  ultimately show ?thesis by simp
next
  case False
  then have "scan_rows l s source (max previous after_seq) head = []" by (intro scan_rows_empty) linarith
  moreover have "scan_rows l s source after_seq head = scan_rows l s source after_seq (min head previous)"
    using False by (auto simp: scan_rows_def intro!: filter_cong)
  ultimately show ?thesis by simp
qed

text \<open>
  C36. The incremental reader is transparent: with a cache that holds a prefix of
  the log under the current revision it returns exactly the messages that a direct scan of the
  range returns, and the cache it leaves is again a prefix of the log and of every log that
  extends it.
\<close>

theorem incremental_scan_exact:
  assumes "ledger_ok l" "prefix_valid revision cache l s" "-1 \<le> after_seq"
    and "\<forall>t. through = Some t \<longrightarrow> t \<le> reader_head l s None"
  shows "\<exists>ms cache'. incremental_scan revision cache l s after_seq through source = Inr (ms, cache') \<and>
    reader_scan l s after_seq through source = Inr ms \<and> prefix_valid revision cache' l s \<and>
    (\<forall>l'. ledger_ok l' \<and> extends l l' \<longrightarrow> prefix_valid revision cache' l' s)"
proof -
  define H where "H = (case through of None \<Rightarrow> reader_head l s None | Some t \<Rightarrow> min (reader_head l s None) t)"
  have head: "H = scan_head l s through" "H \<le> reader_head l s None"
    using assms(4) by (auto simp: H_def scan_head_def split: option.split)
  define cached where "cached = cached_prefix revision cache"
  define previous where "previous = (if cached = [] then -1 else int (msg_seq (last cached)))"
  define kept where "kept = filter (\<lambda>m. after_seq < int (msg_seq m) \<and> int (msg_seq m) \<le> H \<and>
      source_is source (msg_source m)) cached"
  have cached: "traverse decode_row (scan_rows l s None (-1) previous) = Inr cached"
    using cached_prefix_rows [OF assms(2,1)] unfolding cached_def previous_def by simp
  have kept: "traverse decode_row (scan_rows l s source after_seq (min H previous)) = Inr kept"
    unfolding kept_def by (rule kept_prefix [OF cached assms(3)])
  obtain rest where rest: "traverse decode_row (scan_rows l s source (max previous after_seq) H) = Inr rest"
    using ledger_rows_decode [OF assms(1) scan_rows_ok(2) [OF assms(1)]] by blast
  have "-1 \<le> max previous after_seq" using assms(3) by simp
  note tail = read_tail [OF assms(1) this, of H s source]
  have all: "traverse decode_row (scan_rows l s source after_seq H) = Inr (kept @ rest)"
    unfolding kept_and_tail [OF assms(1), of s source after_seq H previous]
    using kept rest by (simp add: traverse_append)
  let ?cache' = "if source = None \<and> after_seq = -1 then Some (revision, kept @ rest) else cache"
  have run: "incremental_scan revision cache l s after_seq through source = Inr (kept @ rest, ?cache')"
    using assms(3) tail rest
    unfolding incremental_scan_def Let_def H_def [symmetric] cached_def [symmetric] previous_def [symmetric]
      kept_def [symmetric] by simp
  have scan: "reader_scan l s after_seq through source = Inr (kept @ rest)"
    using scan_from_reads [OF assms(1,3)] all head(1) by (simp add: reader_scan_def scan_head_def)
  have valid: "prefix_valid revision ?cache' l s"
    using assms(2) all head(2) by (auto simp: prefix_valid_def)
  moreover have "prefix_valid revision ?cache' l' s" if "ledger_ok l'" "extends l l'" for l'
    using prefix_valid_extends [OF assms(1) that valid] .
  ultimately show ?thesis using run scan by blast
qed

theorem incremental_scan_exact_witness:
  "\<exists>ms cache'. incremental_scan 3 None empty_ledger ''s'' (-1) None None = Inr (ms, cache') \<and>
     reader_scan empty_ledger ''s'' (-1) None None = Inr ms"
  using incremental_scan_exact [OF ledger_ok_empty, of 3 None "''s''" "-1" None None]
  by (auto simp: prefix_valid_def)

text \<open>A pass of a follower takes at most a thousand messages: with a longer backlog it stops
  before the head and waits for the next commit.\<close>

theorem follow_pass_limited:
  assumes "follow_pass l s after_seq = Inr (ms, cursor)"
  shows "length ms \<le> 1000"
  using assms by (auto simp: follow_pass_def reader_read_def attempt_eq_Inr dest!: traverse_Inr_length split: if_split_asm)

text \<open>The memo of attachments only saves queries.\<close>

definition memo_valid :: "attachment_memo \<Rightarrow> ledger \<Rightarrow> bool" where
  "memo_valid memo l \<longleftrightarrow> (\<forall>s i as. map_of memo (s, i) = Some as \<longrightarrow>
     owned_message l s i \<and> message_artifacts l i = Inr as)"

lemma traverse_tagged:
  "traverse (\<lambda>i. attempt (f i) (\<lambda>y. Inr (i, y))) xs = Inr ys \<Longrightarrow> i \<in> set xs \<Longrightarrow>
   \<exists>y. f i = Inr y \<and> map_of ys i = Some y"
  by (induction xs arbitrary: ys) (auto simp: attempt_eq_Inr)

lemma attachments_for_exact:
  assumes "memo_valid memo l" "attachments_for memo l s ids = Inr (as, memo')"
  shows "\<exists>bs. traverse (message_artifacts l) ids = Inr bs \<and> concat bs = as \<and> list_all (owned_message l s) ids"
proof (cases "ids = []")
  case True
  then show ?thesis using assms(2) by (simp add: attachments_for_def)
next
  case False
  let ?missing = "filter (\<lambda>i. map_of memo (s, i) = None) (rev (remdups (rev ids)))"
  from assms(2) False obtain found where
    found: "traverse (\<lambda>i. attempt (message_artifacts l i) (\<lambda>as. Inr (i, as))) (filter (owned_message l s) ?missing) = Inr found"
    and owned: "list_all (owned_message l s) ?missing"
    and as: "as = concat (map (\<lambda>i. case map_of memo (s, i) of
        Some as \<Rightarrow> as | None \<Rightarrow> (case map_of found i of Some as \<Rightarrow> as | None \<Rightarrow> [])) ids)"
    by (auto simp: attachments_for_def Let_def attempt_eq_Inr split: if_split_asm)
  let ?resolved = "\<lambda>i. case map_of memo (s, i) of
        Some as \<Rightarrow> as | None \<Rightarrow> (case map_of found i of Some as \<Rightarrow> as | None \<Rightarrow> [])"
  have each: "message_artifacts l i = Inr (?resolved i) \<and> owned_message l s i" if "i \<in> set ids" for i
  proof (cases "map_of memo (s, i)")
    case None
    then have i: "i \<in> set ?missing" using that by simp
    then have "owned_message l s i" using owned by (simp add: list_all_iff)
    then show ?thesis using traverse_tagged [OF found, of i] i None by auto
  next
    case (Some as)
    then show ?thesis using assms(1) by (simp add: memo_valid_def)
  qed
  then have "traverse (message_artifacts l) ids = Inr (map ?resolved ids)"
    by (intro traverse_Inr_map) simp
  then show ?thesis using as each by (simp add: list_all_iff)
qed

end
