(* ===== verification/Goal_Runtime.thy ===== *)
theory Goal_Runtime
  imports Goal_Properties Ledger_Scan
begin

text \<open>
  The runtime that continues goals (\<open>plugins/goal/runtime.py\<close>): folding a round from the
  messages after the settled cursor, the usage of its model calls, the decision what to do next,
  and the attempts of \<open>advance\<close> on the store. Parameters: the statistics of model calls (a
  service of the models plugin), the wording of a continuation, and SHA-256 of a JSON value.
\<close>

section \<open>Folding a round\<close>

definition continuation_prefix :: string where
  "continuation_prefix = ''goal-continuation:''"

definition round_prefix :: "goal \<Rightarrow> string" where
  "round_prefix g = continuation_prefix @ goal_id g @ '':''"

fun is_input :: "body \<Rightarrow> bool" where
  "is_input (Input _) = True" | "is_input _ = False"

definition text_parts :: "message \<Rightarrow> string list" where
  "text_parts m = (case msg_body m of
     Input ps \<Rightarrow> List.map_filter (\<lambda>p. case p of
       ContentPart k (JStr t) \<Rightarrow> if k = ''text'' then Some t else None | _ \<Rightarrow> None) ps
   | Output ps _ \<Rightarrow> List.map_filter (\<lambda>p. case p of
       ContentPart k (JStr t) \<Rightarrow> if k = ''text'' then Some t else None | _ \<Rightarrow> None) ps
   | _ \<Rightarrow> [])"

definition fact_call :: "part \<Rightarrow> string option" where
  "fact_call p = (case p of
     ContentPart k (JObj kvs) \<Rightarrow>
       if k \<noteq> ''model.facts'' then None
       else (case map_of kvs ''call_record_id'' of
           Some (JStr c) \<Rightarrow> if c = [] then None else Some c
         | _ \<Rightarrow> None)
   | _ \<Rightarrow> None)"

definition call_ids :: "message \<Rightarrow> string list" where
  "call_ids m = (case msg_body m of Output ps _ \<Rightarrow> List.map_filter fact_call ps | _ \<Rightarrow> [])"

record fold =
  fo_continuation :: message
  fo_terminal :: "message option"
  fo_preempted :: "message option"
  fo_trailing :: "message option"
  fo_activity :: bool
  fo_calls :: "string list"
  fo_reason :: "string option"
  fo_pause :: bool

text \<open>One message of the loop, and whether the loop breaks there.\<close>

definition fold_step :: "fold \<Rightarrow> message \<Rightarrow> fold \<times> bool" where
  "fold_step f m =
     (if msg_seq m \<le> msg_seq (fo_continuation f) \<or> msg_source m \<noteq> ''conversation'' then (f, False)
      else if fo_terminal f \<noteq> None then (case msg_body m of
          ToolResult _ _ _ _ \<Rightarrow> (f, False)
        | _ \<Rightarrow> (f\<lparr>fo_trailing := Some m\<rparr>, True))
      else (case msg_body m of
          Input _ \<Rightarrow>
            if msg_author m \<noteq> ''goal'' then (f\<lparr>fo_preempted := Some m\<rparr>, True) else (f, False)
        | ToolResult _ _ oc _ \<Rightarrow> (if oc = Success then f\<lparr>fo_activity := True\<rparr> else f, False)
        | Output _ fin \<Rightarrow>
            (f\<lparr>fo_calls := fo_calls f @ call_ids m,
               fo_activity := fo_activity f \<or> list_ex (\<lambda>t. py_strip t \<noteq> []) (text_parts m),
               fo_terminal := if fin \<noteq> Continue then Some m else None\<rparr>, False)
        | Control act _ reason \<Rightarrow>
            if act = ResumeAction then (f, False)
            else (f\<lparr>fo_terminal := Some m, fo_reason := reason,
                    fo_activity := fo_activity f \<and> act \<noteq> FailureAction,
                    fo_pause := (act = PauseAction \<or> act = AbandonAction)\<rparr>, False)))"

fun fold_messages :: "fold \<Rightarrow> message list \<Rightarrow> fold" where
  "fold_messages f [] = f"
| "fold_messages f (m # ms) = (case fold_step f m of
     (f', True) \<Rightarrow> f' | (f', False) \<Rightarrow> fold_messages f' ms)"

definition is_continuation :: "goal \<Rightarrow> message \<Rightarrow> bool" where
  "is_continuation g m \<longleftrightarrow> msg_source m = ''conversation'' \<and> is_input (msg_body m) \<and>
     starts_with (msg_id m) (round_prefix g)"

definition open_fold :: "message \<Rightarrow> fold" where
  "open_fold c = \<lparr>fo_continuation = c, fo_terminal = None, fo_preempted = None, fo_trailing = None,
     fo_activity = False, fo_calls = [], fo_reason = None, fo_pause = False\<rparr>"

definition fold_round :: "goal \<Rightarrow> message list \<Rightarrow> fold option" where
  "fold_round g ms = (case find (is_continuation g) ms of
     None \<Rightarrow> None
   | Some c \<Rightarrow>
       let f = fold_messages (open_fold c) ms
       in Some (f\<lparr>fo_calls := rev (remdups (rev (fo_calls f)))\<rparr>))"

section \<open>Usage\<close>

record model_usage =
  us_coverage :: coverage
  us_input :: "int option"
  us_output :: "int option"
  us_cached :: "int option"

definition amount :: "int option \<Rightarrow> int" where
  "amount n = (case n of None \<Rightarrow> 0 | Some i \<Rightarrow> i)"

text \<open>The statistics of a call: unknown (the service raises \<open>KeyError\<close>), without usage, or with it.\<close>

type_synonym call_stats = "string \<Rightarrow> model_usage option option"

definition usage_step :: "call_stats \<Rightarrow> int \<times> coverage \<Rightarrow> string \<Rightarrow> int \<times> coverage" where
  "usage_step stats tc c = (case tc of (tokens, cov) \<Rightarrow> (case stats c of
     Some (Some u) \<Rightarrow>
       let cov1 = (if us_coverage u \<noteq> ExactUsage then worst_coverage cov (us_coverage u) else cov);
           cov2 = (if us_input u = None \<or> us_output u = None then worst_coverage cov1 PartialUsage else cov1)
       in (tokens + (max 0 (amount (us_input u) - amount (us_cached u)) + amount (us_output u)), cov2)
   | _ \<Rightarrow> (tokens, worst_coverage cov UnavailableUsage)))"

definition round_usage :: "call_stats \<Rightarrow> string list \<Rightarrow> int \<times> coverage" where
  "round_usage stats cs =
     (if cs = [] then (0, UnavailableUsage) else foldl (usage_step stats) (0, ExactUsage) cs)"

section \<open>The next step\<close>

datatype decision =
    Wait
  | PauseBy message
  | StartRound
  | SettleRound settlement

definition unknown_usage_reason :: string where
  "unknown_usage_reason = ''usage of the goal is unknown''"

text \<open>\<open>make_settlement\<close> is the settlement of a folded round that has ended.\<close>

definition preempted_settlement :: "message \<Rightarrow> int \<times> coverage \<Rightarrow> settlement" where
  "preempted_settlement m tc =
     \<lparr>rd_activity = False, rd_tokens = fst tc, rd_coverage = snd tc, rd_through = int (msg_seq m),
      rd_settled_id = Some (msg_id m), rd_reason = Some ''preempted by user input'', rd_preempted = True,
      st_append = False, st_pause_after = False\<rparr>"

definition ended_settlement :: "fold \<Rightarrow> message \<Rightarrow> int \<times> coverage \<Rightarrow> settlement" where
  "ended_settlement f t tc =
     (let base = (\<lambda>append pause reason.
        \<lparr>rd_activity = fo_activity f, rd_tokens = fst tc, rd_coverage = snd tc, rd_through = int (msg_seq t),
         rd_settled_id = Some (msg_id t), rd_reason = reason, rd_preempted = False,
         st_append = append, st_pause_after = pause\<rparr>)
      in case fo_trailing f of
        None \<Rightarrow> base (\<not> fo_pause f) (fo_pause f) (fo_reason f)
      | Some tr \<Rightarrow> (case msg_body tr of
          Control act _ reason \<Rightarrow>
            if act = PauseAction \<or> act = AbandonAction
            then base False True (case reason of
                None \<Rightarrow> fo_reason f | Some r \<Rightarrow> if r = [] then fo_reason f else Some r)
            else base False (fo_pause f) (fo_reason f)
        | _ \<Rightarrow> base False (fo_pause f) (fo_reason f)))"

text \<open>With a budget, a round of unknown usage stops the goal; the settlement that replaces the
  first one does not carry its \<open>preempted\<close>.\<close>

definition guard_budget :: "goal \<Rightarrow> settlement \<Rightarrow> settlement" where
  "guard_budget g st =
     (if goal_budget g \<noteq> None \<and> rd_coverage st \<noteq> ExactUsage \<and> remaining_tokens g \<noteq> None
      then st\<lparr>rd_reason := Some unknown_usage_reason, rd_preempted := False,
              st_append := False, st_pause_after := True\<rparr>
      else st)"

text \<open>Without a round of the goal: what the last message of the conversation allows.\<close>

definition idle_decision :: "message option \<Rightarrow> decision" where
  "idle_decision last_msg = (case last_msg of
     None \<Rightarrow> StartRound
   | Some m \<Rightarrow> (case msg_body m of
       Input _ \<Rightarrow> Wait
     | Output _ fin \<Rightarrow> if fin = Continue then Wait else StartRound
     | ToolResult _ _ _ _ \<Rightarrow> Wait
     | Control act _ _ \<Rightarrow>
         if act = PauseAction \<or> act = AbandonAction then PauseBy m
         else if act = FailureAction then Wait
         else StartRound))"

definition next_step ::
  "call_stats \<Rightarrow> goal \<Rightarrow> message list \<Rightarrow> message option res \<Rightarrow> decision res" where
  "next_step stats g ms earlier = (case fold_round g ms of
     None \<Rightarrow>
       if \<not> goal_active g then Inr Wait
       else attempt (if ms \<noteq> [] then Inr (Some (last ms)) else earlier) (\<lambda>m. Inr (idle_decision m))
   | Some f \<Rightarrow>
       let tc = round_usage stats (fo_calls f) in
       (case (fo_preempted f, fo_terminal f) of
          (Some m, _) \<Rightarrow> Inr (SettleRound (guard_budget g (preempted_settlement m tc)))
        | (None, Some t) \<Rightarrow> Inr (SettleRound (guard_budget g (ended_settlement f t tc)))
        | (None, None) \<Rightarrow> Inr Wait))"

text \<open>\<open>_last_message\<close>.\<close>

definition last_message :: "ledger \<Rightarrow> string \<Rightarrow> int \<Rightarrow> int \<Rightarrow> message option res" where
  "last_message l s cursor head =
     attempt (reader_read l s (cursor - 1) (Some head) (Some ''conversation'') 1) (\<lambda>ms.
       Inr (case ms of [] \<Rightarrow> None | m # _ \<Rightarrow> Some m))"

section \<open>Advancing a goal\<close>

record runtime_params =
  rt_stats :: call_stats
  rt_text :: "goal \<Rightarrow> int \<Rightarrow> string"
  rt_digest :: "json \<Rightarrow> string"

definition continuation_id :: "goal \<Rightarrow> string" where
  "continuation_id g = round_prefix g @ int_text (goal_continuations g + 1)"

definition action_text :: "action \<Rightarrow> string" where
  "action_text a = (case a of PauseAction \<Rightarrow> ''pause'' | ResumeAction \<Rightarrow> ''resume''
     | AbandonAction \<Rightarrow> ''abandon'' | FailureAction \<Rightarrow> ''failure'')"

text \<open>\<open>_pause_after_user_control\<close>: the request that stops an active goal.\<close>

definition control_request :: "runtime_params \<Rightarrow> string \<Rightarrow> message \<Rightarrow> moment \<Rightarrow> request" where
  "control_request rt s m now =
     (let act = (case msg_body m of Control a _ _ \<Rightarrow> a | _ \<Rightarrow> PauseAction);
          reason = (case msg_body m of Control _ _ r \<Rightarrow> r | _ \<Rightarrow> None)
      in \<lparr>rq_session = s, rq_kind = ''pause'',
          rq_digest = rt_digest rt (JObj [(''action'', JStr (action_text act)), (''message'', JStr (msg_id m))]),
          rq_action = (\<lambda>cur. case cur of
              None \<Rightarrow> Inr (None, ''noop'')
            | Some g \<Rightarrow> if \<not> goal_active g then Inr (Some g, ''noop'')
                else attempt (pause_goal g (stop_reason reason) now) (\<lambda>g'. Inr (Some g', ''paused''))),
          rq_head = None, rq_goal = None\<rparr>)"

definition control_key :: "message \<Rightarrow> string" where
  "control_key m = ''goal-control:'' @ msg_id m"

text \<open>What \<open>advance\<close> reads in one snapshot: the head of the conversation and its messages
  after the cursor.\<close>

definition conversation_after :: "ledger \<Rightarrow> string \<Rightarrow> int \<Rightarrow> message list res" where
  "conversation_after l s cursor =
     attempt (reader_snapshot l s cursor (Some (conversation_head s l))) (\<lambda>ms.
       Inr (filter (\<lambda>m. msg_source m = ''conversation'') ms))"

definition plan ::
  "tx_env \<Rightarrow> runtime_params \<Rightarrow> string \<Rightarrow> goal \<Rightarrow> ledger \<Rightarrow> decision res" where
  "plan env rt s g l =
     attempt (conversation_after l s (goal_settled g)) (\<lambda>ms.
       next_step (rt_stats rt) g ms (last_message l s (goal_settled g) (conversation_head s l)))"

text \<open>The attempts: the goal, the snapshot, the version and the transaction are read one after
  the other, and others may write in between. The result tells whether the Session is queued
  again.\<close>

definition run_decision ::
  "tx_env \<Rightarrow> runtime_params \<Rightarrow> string \<Rightarrow> (nat \<Rightarrow> moment) \<Rightarrow> (nat \<Rightarrow> ledger \<Rightarrow> ledger) \<Rightarrow> goal \<Rightarrow> int \<Rightarrow>
   decision \<Rightarrow> ledger \<Rightarrow> bool res \<times> ledger" where
  "run_decision env rt s clock world g head d l = (case d of
     Wait \<Rightarrow> (Inr False, l)
   | PauseBy m \<Rightarrow>
       (case apply_operation env (control_request rt s m (clock 0)) (control_key m) clock
           (\<lambda>i. world (i + 2)) l of
          (Inr _, l') \<Rightarrow> (Inr False, l')
        | (Inl e, l') \<Rightarrow> if is_conflict e then (Inr False, l') else (Inl e, l'))
   | StartRound \<Rightarrow>
       (case goal_version (env_owner env) s (world 1 l) of
          Inl e \<Rightarrow> (Inl e, world 1 l)
        | Inr n \<Rightarrow>
            (case start env s (goal_id g) (int n) head (continuation_id g)
                (rt_text rt g (goal_continuations g + 1)) (clock 0) (world 2 (world 1 l)) of
               (Inl e, l') \<Rightarrow> (Inl e, l')
             | (Inr _, l') \<Rightarrow> (Inr False, l')))
   | SettleRound st \<Rightarrow>
       (case goal_version (env_owner env) s (world 1 l) of
          Inl e \<Rightarrow> (Inl e, world 1 l)
        | Inr n \<Rightarrow>
            (case settle env s (goal_id g) (int n) head st (Some continuation_id)
                (Some (\<lambda>u. rt_text rt u (goal_continuations u + 1))) (\<not> goal_active g) clock
                (world 2 (world 1 l)) of
               (Inl e, l') \<Rightarrow> (Inl e, l')
             | (Inr u, l') \<Rightarrow> (Inr (goal_active u \<and> rd_through st < head), l'))))"

fun advance_attempts ::
  "tx_env \<Rightarrow> runtime_params \<Rightarrow> string \<Rightarrow> (nat \<Rightarrow> moment) \<Rightarrow> (nat \<Rightarrow> nat \<Rightarrow> ledger \<Rightarrow> ledger) \<Rightarrow> nat \<Rightarrow>
   ledger \<Rightarrow> bool res \<times> ledger" where
  "advance_attempts env rt s clock world 0 l = (Inr True, l)"
| "advance_attempts env rt s clock world (Suc n) l =
     (case get_goal (env_owner env) s l of
        Inl e \<Rightarrow> (Inl e, l)
      | Inr None \<Rightarrow> (Inr False, l)
      | Inr (Some g) \<Rightarrow>
          let l1 = world n 0 l in
          (case plan env rt s g l1 of
             Inl e \<Rightarrow> (Inl e, l1)
           | Inr d \<Rightarrow>
               (case run_decision env rt s clock (world n) g (conversation_head s l1) d l1 of
                  (Inr again, l2) \<Rightarrow> (Inr again, l2)
                | (Inl e, l2) \<Rightarrow>
                    if is_conflict e
                    then advance_attempts env rt s clock world n l2
                    else (Inl e, l2))))"

definition advance ::
  "tx_env \<Rightarrow> runtime_params \<Rightarrow> string \<Rightarrow> (nat \<Rightarrow> moment) \<Rightarrow> (nat \<Rightarrow> nat \<Rightarrow> ledger \<Rightarrow> ledger) \<Rightarrow>
   ledger \<Rightarrow> bool res \<times> ledger" where
  "advance env rt s clock world = advance_attempts env rt s clock world 3"

section \<open>The queue of Sessions\<close>

text \<open>\<open>_queue\<close>, \<open>_queued\<close> and \<open>_dirty\<close>, and the Session that \<open>run\<close> is advancing.\<close>

record worker =
  wk_queue :: "string list"
  wk_queued :: "string list"
  wk_dirty :: "string list"
  wk_running :: "string option"

definition idle_worker :: worker where
  "idle_worker = \<lparr>wk_queue = [], wk_queued = [], wk_dirty = [], wk_running = None\<rparr>"

definition enqueue :: "string \<Rightarrow> worker \<Rightarrow> worker" where
  "enqueue s w =
     (if s \<in> set (wk_queued w) then w\<lparr>wk_dirty := List.insert s (wk_dirty w)\<rparr>
      else w\<lparr>wk_queued := s # wk_queued w, wk_queue := wk_queue w @ [s]\<rparr>)"

text \<open>One turn of \<open>run\<close>: it takes a Session, advances it (during which other calls of
  \<open>_enqueue\<close> happen), and releases it whatever the outcome.\<close>

definition take_session :: "worker \<Rightarrow> worker option" where
  "take_session w = (case (wk_running w, wk_queue w) of
     (None, s # q) \<Rightarrow> Some (w\<lparr>wk_queue := q, wk_running := Some s\<rparr>)
   | _ \<Rightarrow> None)"

definition finish_session :: "worker \<Rightarrow> worker option" where
  "finish_session w = (case wk_running w of
     None \<Rightarrow> None
   | Some s \<Rightarrow>
       let w1 = w\<lparr>wk_running := None, wk_queued := removeAll s (wk_queued w)\<rparr>
       in Some (if s \<in> set (wk_dirty w1)
          then enqueue s (w1\<lparr>wk_dirty := removeAll s (wk_dirty w1)\<rparr>) else w1))"

inductive worker_step :: "worker \<Rightarrow> worker \<Rightarrow> bool" where
  step_enqueue: "worker_step w (enqueue s w)"
| step_take: "take_session w = Some w' \<Longrightarrow> worker_step w w'"
| step_finish: "finish_session w = Some w' \<Longrightarrow> worker_step w w'"

inductive_cases worker_stepE: "worker_step w w'"

code_pred worker_step .

end
