(* ===== verification/Runtime_Properties.thy ===== *)
theory Runtime_Properties
  imports Goal_Runtime
begin

text \<open>
  Properties of the goal runtime: what a folded round says about the messages, which
  settlements continue a goal, progress of the cursor, and what a whole \<open>advance\<close> keeps.
\<close>

section \<open>Folds\<close>

definition in_round :: "message \<Rightarrow> message \<Rightarrow> bool" where
  "in_round c m \<longleftrightarrow> msg_seq c < msg_seq m \<and> msg_source m = ''conversation''"

fun is_result :: "body \<Rightarrow> bool" where
  "is_result (ToolResult _ _ _ _) = True" | "is_result _ = False"

text \<open>An output that finishes, and a control other than a resumption, end a round.\<close>

definition ends_round :: "message \<Rightarrow> bool" where
  "ends_round m \<longleftrightarrow> (case msg_body m of
     Output _ fin \<Rightarrow> fin \<noteq> Continue | Control act _ _ \<Rightarrow> act \<noteq> ResumeAction | _ \<Rightarrow> False)"

definition user_input :: "message \<Rightarrow> bool" where
  "user_input m \<longleftrightarrow> is_input (msg_body m) \<and> msg_author m \<noteq> ''goal''"

lemma fold_step_skip: "\<not> in_round (fo_continuation f) m \<Longrightarrow> fold_step f m = (f, False)"
  by (auto simp: fold_step_def in_round_def)

lemma fold_step_ended:
  assumes "fo_terminal f = Some t" "in_round (fo_continuation f) m"
  shows "fold_step f m = (if is_result (msg_body m) then (f, False) else (f\<lparr>fo_trailing := Some m\<rparr>, True))"
  using assms by (cases "msg_body m") (auto simp: fold_step_def in_round_def)

lemma fold_ended:
  assumes "fo_terminal f = Some t" "fo_trailing f = None"
  shows "\<exists>x. fold_messages f ms = f\<lparr>fo_trailing := x\<rparr> \<and>
    (x = None \<longrightarrow> (\<forall>m \<in> set ms. in_round (fo_continuation f) m \<longrightarrow> is_result (msg_body m))) \<and>
    (\<forall>m. x = Some m \<longrightarrow> m \<in> set ms \<and> in_round (fo_continuation f) m)"
proof (induction ms)
  case Nil
  have "f = f\<lparr>fo_trailing := None\<rparr>" using assms(2) by simp
  then show ?case by (intro exI [of _ None]) simp
next
  case (Cons m ms)
  show ?case
  proof (cases "in_round (fo_continuation f) m \<and> \<not> is_result (msg_body m)")
    case True
    then have "fold_messages f (m # ms) = f\<lparr>fo_trailing := Some m\<rparr>"
      using fold_step_ended [OF assms(1)] by simp
    then show ?thesis using True by (intro exI [of _ "Some m"]) simp
  next
    case False
    then have "fold_step f m = (f, False)"
      using fold_step_ended [OF assms(1)] fold_step_skip by (cases "in_round (fo_continuation f) m") auto
    then have "fold_messages f (m # ms) = fold_messages f ms" by simp
    then show ?thesis using Cons.IH False by (metis (no_types, lifting) list.set_intros(2) set_ConsD)
  qed
qed

text \<open>A step of an open round.\<close>

definition open_round :: "fold \<Rightarrow> bool" where
  "open_round f \<longleftrightarrow> fo_terminal f = None \<and> fo_preempted f = None \<and> fo_trailing f = None"

lemma fold_step_open:
  assumes "open_round f" "in_round (fo_continuation f) m" "fold_step f m = (f', stop)"
  shows "fo_continuation f' = fo_continuation f \<and> fo_trailing f' = None \<and>
    (if user_input m then stop \<and> fo_preempted f' = Some m \<and> fo_terminal f' = None
     else \<not> stop \<and> fo_preempted f' = None \<and> fo_terminal f' = (if ends_round m then Some m else None))"
  using assms
  by (cases "msg_body m")
    (auto simp: fold_step_def open_round_def in_round_def user_input_def ends_round_def split: if_split_asm)

text \<open>What the loop leaves of the messages it was given: nothing ended the round, the user
  preempted it, or it ended.\<close>

definition quiet :: "message \<Rightarrow> message list \<Rightarrow> bool" where
  "quiet c ms \<longleftrightarrow> (\<forall>m \<in> set ms. in_round c m \<longrightarrow> \<not> user_input m \<and> \<not> ends_round m)"

definition only_results :: "message \<Rightarrow> message list \<Rightarrow> bool" where
  "only_results c ms \<longleftrightarrow> (\<forall>m \<in> set ms. in_round c m \<longrightarrow> is_result (msg_body m))"

inductive folded :: "message \<Rightarrow> fold \<Rightarrow> message list \<Rightarrow> bool" for c f where
  folded_open: "open_round f \<Longrightarrow> quiet c ms \<Longrightarrow> folded c f ms"
| folded_preempted: "fo_preempted f = Some m \<Longrightarrow> fo_terminal f = None \<Longrightarrow> ms = pre @ m # post \<Longrightarrow>
    in_round c m \<Longrightarrow> user_input m \<Longrightarrow> quiet c pre \<Longrightarrow> folded c f ms"
| folded_ended: "fo_preempted f = None \<Longrightarrow> fo_terminal f = Some t \<Longrightarrow> ms = pre @ t # post \<Longrightarrow>
    in_round c t \<Longrightarrow> ends_round t \<Longrightarrow> quiet c pre \<Longrightarrow>
    (fo_trailing f = None \<longrightarrow> only_results c post) \<Longrightarrow> folded c f ms"

lemma quiet_Cons [simp]:
  "quiet c (m # ms) \<longleftrightarrow> (in_round c m \<longrightarrow> \<not> user_input m \<and> \<not> ends_round m) \<and> quiet c ms"
  by (simp add: quiet_def)

lemma quiet_Nil [simp]: "quiet c []"
  by (simp add: quiet_def)

lemma folded_Cons:
  assumes "folded c f ms" "in_round c m \<longrightarrow> \<not> user_input m \<and> \<not> ends_round m"
  shows "folded c f (m # ms)"
  using assms(1)
proof cases
  case folded_open
  then show ?thesis using assms(2) by (intro folded.folded_open) auto
next
  case (folded_preempted m' pre post)
  then show ?thesis using assms(2) by (intro folded.folded_preempted [of f m' _ "m # pre" post]) auto
next
  case (folded_ended t pre post)
  then show ?thesis using assms(2) by (intro folded.folded_ended [of f t _ "m # pre" post]) auto
qed

lemma fold_open:
  assumes "open_round f" "fo_continuation f = c"
  shows "fo_continuation (fold_messages f ms) = c \<and> folded c (fold_messages f ms) ms"
  using assms
proof (induction ms arbitrary: f)
  case Nil
  then show ?case by (simp add: folded_open)
next
  case (Cons m ms)
  obtain f1 stop where step: "fold_step f m = (f1, stop)" by (cases "fold_step f m") auto
  show ?case
  proof (cases "in_round c m")
    case False
    then have "fold_messages f (m # ms) = fold_messages f ms" using fold_step_skip Cons.prems(2) by simp
    then show ?thesis using Cons.IH [OF Cons.prems] folded_Cons False by simp
  next
    case True
    note eff = fold_step_open [OF Cons.prems(1) _ step, unfolded Cons.prems(2), OF True]
    consider "user_input m" | "\<not> user_input m" "ends_round m" | "\<not> user_input m" "\<not> ends_round m" by blast
    then show ?thesis
    proof cases
      case 1
      then have "fold_messages f (m # ms) = f1" using eff step by simp
      then show ?thesis using eff 1 True by (simp add: folded_preempted [of f1 m _ "[]" ms])
    next
      case 2
      then have t: "fo_terminal f1 = Some m" "fo_trailing f1 = None" "fo_preempted f1 = None" "fo_continuation f1 = c"
        and f': "fold_messages f (m # ms) = fold_messages f1 ms"
        using eff step by auto
      from fold_ended [OF t(1,2), of ms] obtain x where
        x: "fold_messages f1 ms = f1\<lparr>fo_trailing := x\<rparr>" "x = None \<longrightarrow> only_results c ms"
        using t(4) unfolding only_results_def by metis
      show ?thesis
        unfolding f' x(1) using t x(2) 2 True by (simp add: folded_ended [of _ m _ "[]" ms])
    next
      case 3
      then have f1: "open_round f1" "fo_continuation f1 = c" "fold_messages f (m # ms) = fold_messages f1 ms"
        using eff step by (auto simp: open_round_def)
      show ?thesis using Cons.IH [OF f1(1,2)] folded_Cons 3 f1(3) by simp
    qed
  qed
qed

lemma folded_calls: "folded c f ms \<Longrightarrow> folded c (f\<lparr>fo_calls := cs\<rparr>) ms"
  by (erule folded.cases) (auto intro: folded.intros simp: open_round_def)

lemma fold_round_Some:
  assumes "fold_round g ms = Some f"
  shows "is_continuation g (fo_continuation f) \<and> fo_continuation f \<in> set ms \<and> folded (fo_continuation f) f ms"
proof -
  from assms obtain c where c: "find (is_continuation g) ms = Some c"
    and f: "f = (fold_messages (open_fold c) ms)\<lparr>fo_calls := rev (remdups (rev (fo_calls (fold_messages (open_fold c) ms))))\<rparr>"
    by (auto simp: fold_round_def Let_def split: option.splits)
  have "open_round (open_fold c)" "fo_continuation (open_fold c) = c"
    by (simp_all add: open_round_def open_fold_def)
  from fold_open [OF this, of ms] have "fo_continuation f = c" "folded c f ms"
    unfolding f by (auto intro: folded_calls)
  moreover have "is_continuation g c" "c \<in> set ms"
    using c by (auto simp: find_Some_iff)
  ultimately show ?thesis by simp
qed

lemma idle_decision_no_settlement: "idle_decision m \<noteq> SettleRound st"
proof (cases m)
  case (Some x)
  then show ?thesis by (cases "msg_body x") (auto simp: idle_decision_def)
qed (simp add: idle_decision_def)

lemma folded_ended_round:
  assumes "folded c f ms" "fo_preempted f = None" "fo_terminal f = Some t"
  shows "\<exists>pre post. ms = pre @ t # post \<and> in_round c t \<and> ends_round t \<and> quiet c pre \<and>
    (fo_trailing f = None \<longrightarrow> only_results c post)"
  using assms(1)
proof cases
  case (folded_ended t' pre post)
  then show ?thesis using assms(3) by (intro exI [of _ pre] exI [of _ post]) simp
qed (use assms in \<open>simp_all add: open_round_def\<close>)

lemma next_step_settles:
  assumes "next_step stats g ms earlier = Inr (SettleRound st)"
  obtains f m where "fold_round g ms = Some f" "fo_preempted f = Some m"
      "st = guard_budget g (preempted_settlement m (round_usage stats (fo_calls f)))"
  | f t where "fold_round g ms = Some f" "fo_preempted f = None" "fo_terminal f = Some t"
      "st = guard_budget g (ended_settlement f t (round_usage stats (fo_calls f)))"
proof (cases "fold_round g ms")
  case None
  then show thesis
    using assms by (auto simp: next_step_def attempt_eq_Inr idle_decision_no_settlement split: if_split_asm)
next
  case (Some f)
  then show thesis
    using assms that by (auto simp: next_step_def Let_def split: option.splits)
qed

lemma settlement_fields [simp]:
  "rd_coverage (guard_budget g st) = rd_coverage st" "rd_through (guard_budget g st) = rd_through st"
  "rd_tokens (guard_budget g st) = rd_tokens st"
  "rd_coverage (preempted_settlement m tc) = snd tc" "rd_through (preempted_settlement m tc) = int (msg_seq m)"
  "rd_tokens (preempted_settlement m tc) = fst tc" "\<not> st_append (preempted_settlement m tc)"
  "rd_coverage (ended_settlement f m tc) = snd tc" "rd_through (ended_settlement f m tc) = int (msg_seq m)"
  "rd_tokens (ended_settlement f m tc) = fst tc"
  by (auto simp: guard_budget_def preempted_settlement_def ended_settlement_def Let_def
    split: option.split body.split)

lemma ended_appends: "st_append (ended_settlement f t tc) \<Longrightarrow> fo_trailing f = None \<and> \<not> fo_pause f"
  by (auto simp: ended_settlement_def Let_def split: option.splits body.splits if_split_asm)

lemma guard_appends: "st_append (guard_budget g st) \<Longrightarrow> st_append st \<and> guard_budget g st = st"
  by (auto simp: guard_budget_def split: if_split_asm)


definition note_message :: "string \<Rightarrow> nat \<Rightarrow> string \<Rightarrow> body \<Rightarrow> message" where
  "note_message mid n author b = \<lparr>msg_id = mid, msg_session = ''s'', msg_seq = n, msg_recorded = 0,
     msg_author = author, msg_source = ''conversation'', msg_body = b, msg_metadata = JObj []\<rparr>"

definition goal_input :: message where
  "goal_input = note_message ''goal-continuation:g1:1'' 3 ''goal'' (continuation_body ''go on'')"

definition done_output :: message where
  "done_output = note_message ''o1'' 4 ''app'' (Output [ContentPart ''text'' (JStr ''done'')] Complete)"

definition unlimited_goal :: goal where
  "unlimited_goal = fresh_goal\<lparr>goal_budget := None\<rparr>"


lemma find_snoc: "find P (xs @ [x]) = (case find P xs of None \<Rightarrow> if P x then Some x else None | Some y \<Rightarrow> Some y)"
  by (induction xs) auto

lemma fold_messages_skip:
  assumes "\<forall>m \<in> set ms. \<not> in_round (fo_continuation f) m"
  shows "fold_messages f ms = f"
  using assms by (induction ms) (auto simp: fold_step_skip)

text \<open>
  A round that is under way is not started again: after its continuation
  was posted, and as long as nothing follows it in the conversation, the runtime waits, also
  after a restart.
\<close>

theorem pending_round_waits:
  assumes "fold_round g ms = None" "is_continuation g c" "\<forall>m \<in> set ms. msg_seq m < msg_seq c"
    and "goal_id g' = goal_id g"
  shows "next_step stats g' (ms @ [c]) earlier = Inr Wait"
proof -
  have same: "is_continuation g' = is_continuation g"
    by (simp add: fun_eq_iff is_continuation_def round_prefix_def assms(4))
  have "find (is_continuation g) ms = None"
    using assms(1) by (auto simp: fold_round_def Let_def split: option.splits)
  then have "find (is_continuation g') (ms @ [c]) = Some c"
    using assms(2) by (simp add: same find_snoc)
  moreover have "fold_messages (open_fold c) (ms @ [c]) = open_fold c"
    using assms(3) by (intro fold_messages_skip) (auto simp: in_round_def open_fold_def)
  ultimately have "fold_round g' (ms @ [c]) = Some (open_fold c)"
    by (simp add: fold_round_def Let_def open_fold_def)
  then show ?thesis by (simp add: next_step_def open_fold_def)
qed

theorem pending_round_waits_witness:
  "next_step (\<lambda>_. None) unlimited_goal ([] @ [goal_input]) (Inr None) = Inr Wait"
proof (rule pending_round_waits)
  show "is_continuation unlimited_goal goal_input" by code_simp
qed (simp_all add: fold_round_def)

lemma guarded_pause:
  assumes "goal_budget g \<noteq> None" "rd_coverage st \<noteq> ExactUsage"
  shows "st_pause_after (guard_budget g st) \<and> \<not> st_append (guard_budget g st)"
  using assms by (auto simp: guard_budget_def remaining_tokens_def)

lemma paused_settlement:
  assumes "st_pause_after st" "settled_goal st allow next_id clock g = Inr g'"
  shows "\<not> goal_active g' \<and> goal_continuation g' = None"
proof -
  from assms(2) obtain u where u: "settled_before st allow clock g = Inr u"
    by (auto simp: settled_goal_eq attempt_eq_Inr)
  then obtain v where "\<not> goal_active v \<and> u = v \<or>
      u = stop_goal (clock 1) PausedGoal (stop_reason (rd_reason st)) v"
    using assms(1) by (auto simp: settled_before_def attempt_eq_Inr dest: pause_goal_Inr split: if_split_asm)
  then have "\<not> goal_active u"
    by (elim disjE) (simp_all add: goal_active_def stop_goal_def)
  then show ?thesis using u assms(2) settled_before_Inr(1) [OF u] by (simp add: settled_goal_eq)
qed

text \<open>
  C26. A budget is never spent blindly: when the usage of a round of a goal
  with a budget is not known exactly, storing its settlement leaves the goal stopped and posts no
  further continuation.
\<close>

theorem unknown_usage_stops:
  assumes "next_step stats g ms earlier = Inr (SettleRound st)" "goal_budget g \<noteq> None"
    and "rd_coverage st \<noteq> ExactUsage"
    and "database_ok l" "\<forall>i. stamp_ok (clock i)"
    and "settle env s gid version head st next_id next_text allow clock l = (Inr g', l')"
  shows "\<not> goal_active g' \<and> led_messages l' = led_messages l"
proof -
  have pause: "st_pause_after st"
    by (rule next_step_settles [OF assms(1)]) (use guarded_pause [OF assms(2)] assms(3) in auto)
  have stamp: "\<And>i. stamp_ok (clock i)" using assms(5) by simp
  have run: "tx_gives env (settle_tx (goal_writer s) s gid version head st next_id next_text allow clock) l g' l'"
    using assms(6) by (simp add: settle_def transact_Inr)
  show ?thesis
    by (rule settle_tx_gives [OF database_owners [OF assms(4)] stamp run])
      (use paused_settlement [OF pause] in fastforce)
qed

definition exact_call :: "call_stats \<Rightarrow> string \<Rightarrow> bool" where
  "exact_call stats c \<longleftrightarrow> (\<exists>u i out. stats c = Some (Some u) \<and> us_coverage u = ExactUsage \<and>
     us_input u = Some i \<and> us_output u = Some out)"

definition call_tokens :: "call_stats \<Rightarrow> string \<Rightarrow> int" where
  "call_tokens stats c = (case stats c of
     Some (Some u) \<Rightarrow> max 0 (amount (us_input u) - amount (us_cached u)) + amount (us_output u)
   | _ \<Rightarrow> 0)"

lemma worst_exact: "worst_coverage a b = ExactUsage \<longleftrightarrow> a = ExactUsage \<and> b = ExactUsage"
  by (cases a; cases b) (auto simp: worst_coverage_def max_def less_eq_coverage_def)

lemma usage_step_eq:
  "usage_step stats (n, cov) c = (n', cov') \<Longrightarrow>
   n' = n + call_tokens stats c \<and> (cov' = ExactUsage \<longleftrightarrow> cov = ExactUsage \<and> exact_call stats c)"
  by (auto simp: usage_step_def call_tokens_def exact_call_def Let_def worst_exact split: option.splits if_split_asm)

lemma usage_fold:
  "foldl (usage_step stats) (n, cov) cs = (n', cov') \<Longrightarrow>
   n' = n + sum_list (map (call_tokens stats) cs) \<and>
   (cov' = ExactUsage \<longleftrightarrow> cov = ExactUsage \<and> (\<forall>c \<in> set cs. exact_call stats c))"
proof (induction cs arbitrary: n cov)
  case (Cons c cs)
  obtain n1 cov1 where s: "usage_step stats (n, cov) c = (n1, cov1)" by force
  note step = usage_step_eq [OF s]
  have "foldl (usage_step stats) (n1, cov1) cs = (n', cov')" using Cons.prems s by simp
  from Cons.IH [OF this] step show ?case by (simp add: algebra_simps)
qed auto

text \<open>
  Usage is reported as exact only when it is: then the round made model calls,
  every one of them is recorded with exact usage, and the total is the sum of their uncached
  input and their output tokens.
\<close>

theorem usage_is_exact:
  assumes "round_usage stats cs = (tokens, ExactUsage)"
  shows "cs \<noteq> [] \<and> (\<forall>c \<in> set cs. exact_call stats c) \<and> tokens = sum_list (map (call_tokens stats) cs)"
  using assms usage_fold [of stats 0 ExactUsage cs tokens ExactUsage]
  by (auto simp: round_usage_def split: if_split_asm)

definition sample_stats :: call_stats where
  "sample_stats c = Some (Some \<lparr>us_coverage = ExactUsage, us_input = Some 5, us_output = Some 2, us_cached = Some 1\<rparr>)"

theorem usage_is_exact_witness:
  "round_usage sample_stats [''c1'', ''c2''] = (12, ExactUsage) \<and>
   12 = sum_list (map (call_tokens sample_stats) [''c1'', ''c2''])"
proof -
  have run: "round_usage sample_stats [''c1'', ''c2''] = (12, ExactUsage)" by code_simp
  then show ?thesis using usage_is_exact [OF run] by blast
qed

lemma settle_sample:
  assumes "settled_before st False (\<lambda>_. epoch) fresh_goal = Inr g'" "\<not> (st_append st \<and> goal_active g')" "storable g'"
  shows "\<exists>l'. settle sample_env ''s'' ''g1'' 0 (-1) st a b False (\<lambda>_. epoch) goal_ledger = (Inr g', l')"
proof -
  have ok: "owners_ok goal_ledger" by (rule database_owners [OF goal_ledger_ok])
  note enc = storable_encodes [OF assms(3)]
  obtain i l2 where "owner_save ''goal'' (goal_prefix @ ''s'') (JObj (goal_value g')) (Some 0) goal_ledger = Inr (i, l2)"
    using owner_save_succeeds [where own = "''goal''" and n = "Some 0" and k = "goal_prefix @ ''s''" and
      kvs = "goal_value g'", OF ok goal_key_nonempty] goal_ledger_look by auto
  then have save: "tx_gives sample_env (save_goal (goal_prefix @ ''s'') g' 0) goal_ledger g' l2"
    using enc by (simp add: save_goal_def tx_simps sample_env_simps)
  obtain v where v: "settle_round fresh_goal (round.truncate st) False epoch = Inr v"
    "(if st_pause_after st \<and> goal_active v then pause_goal v (stop_reason (rd_reason st)) epoch else Inr v) = Inr g'"
    using assms(1) by (auto simp: settled_before_def attempt_eq_Inr)
  have "tx_gives sample_env (settle_tx (goal_writer ''s'') ''s'' ''g1'' 0 (-1) st a b False (\<lambda>_. epoch)) goal_ledger g' l2"
    using v save assms(2) goal_ledger_look goal_ledger_decode fresh_goal_facts goal_ledger_source
    by (auto simp: settle_tx_def with_expected_def tx_simps goal_key_def
      owner_read_look [OF ok] sample_env_simps simp del: json_norm.simps)
  then show ?thesis by (auto simp: settle_def transact_Inr [symmetric])
qed

definition blind_settlement :: settlement where
  "blind_settlement = guard_budget fresh_goal (ended_settlement
     (fold_messages (open_fold goal_input) [goal_input, done_output]) done_output (0, UnavailableUsage))"

theorem unknown_usage_stops_witness:
  "next_step (\<lambda>_. None) fresh_goal [goal_input, done_output] (Inr None) = Inr (SettleRound blind_settlement) \<and>
   (\<exists>g' l'. settle sample_env ''s'' ''g1'' 0 (-1) blind_settlement (Some continuation_id) None False (\<lambda>_. epoch) goal_ledger =
      (Inr g', l') \<and> \<not> goal_active g' \<and> led_messages l' = led_messages goal_ledger)"
proof -
  have step: "next_step (\<lambda>_. None) fresh_goal [goal_input, done_output] (Inr None) = Inr (SettleRound blind_settlement)"
    unfolding blind_settlement_def by code_simp
  have budget: "goal_budget fresh_goal \<noteq> None" by code_simp
  have cov: "rd_coverage blind_settlement \<noteq> ExactUsage" by (simp add: blind_settlement_def)
  have "case settled_before blind_settlement False (\<lambda>_. epoch) fresh_goal of Inl _ \<Rightarrow> False
      | Inr g \<Rightarrow> \<not> goal_active g \<and> goal_settled_id g \<noteq> Some [] \<and> goal_reason g \<noteq> Some []"
    by code_simp
  then obtain g' where g': "settled_before blind_settlement False (\<lambda>_. epoch) fresh_goal = Inr g'"
    "\<not> goal_active g'" "goal_settled_id g' \<noteq> Some []" "goal_reason g' \<noteq> Some []"
    by (cases "settled_before blind_settlement False (\<lambda>_. epoch) fresh_goal") auto
  have "storable g'"
    using settled_before_ok [OF _ g'(1)] storable_fresh g'(3,4) settled_before_Inr [OF g'(1)] stamp_epoch
    by (auto simp: storable_def touched_def)
  then obtain l' where l': "settle sample_env ''s'' ''g1'' 0 (-1) blind_settlement (Some continuation_id) None False
      (\<lambda>_. epoch) goal_ledger = (Inr g', l')"
    using settle_sample [OF g'(1)] g'(2) by blast
  from unknown_usage_stops [OF step budget cov goal_ledger_ok _ l'] stamp_epoch
  show ?thesis using step l' by blast
qed

section \<open>Progress\<close>

lemma conversation_after_in:
  assumes "ledger_ok l" "-1 \<le> cursor" "conversation_after l s cursor = Inr ms" "m \<in> set ms"
  shows "cursor < int (msg_seq m) \<and> int (msg_seq m) \<le> conversation_head s l"
proof -
  from assms(3) obtain all where "reader_snapshot l s cursor (Some (conversation_head s l)) = Inr all"
    and ms: "ms = filter (\<lambda>m. msg_source m = ''conversation'') all"
    by (auto simp: conversation_after_def attempt_eq_Inr)
  then have all: "traverse decode_row (scan_rows l s None cursor (conversation_head s l)) = Inr all"
    using scan_from_reads [OF assms(1,2)] by (simp add: reader_snapshot_def reader_scan_def)
  have "m \<in> set all" using assms(4) ms by simp
  from traverse_Inr_set [OF all this] obtain r where
    "r \<in> set (scan_rows l s None cursor (conversation_head s l))" "decode_row r = Inr m" ..
  then show ?thesis using scan_rows_set decode_row_fields by fastforce
qed

lemma folded_preempted_in:
  "folded c f ms \<Longrightarrow> fo_preempted f = Some m \<Longrightarrow> m \<in> set ms"
  by (auto elim!: folded.cases simp: open_round_def)

text \<open>
  Every settlement makes progress: it settles through a message that the
  conversation has and that lies after the goal's cursor.
\<close>

theorem settlement_progress:
  assumes "ledger_ok l" "-1 \<le> goal_settled g" "plan env rt s g l = Inr (SettleRound st)"
  shows "goal_settled g < rd_through st \<and> rd_through st \<le> conversation_head s l"
proof -
  from assms(3) obtain ms where ms: "conversation_after l s (goal_settled g) = Inr ms"
    and step: "next_step (rt_stats rt) g ms (last_message l s (goal_settled g) (conversation_head s l)) = Inr (SettleRound st)"
    by (auto simp: plan_def attempt_eq_Inr)
  note within = conversation_after_in [OF assms(1,2) ms]
  show ?thesis
  proof (rule next_step_settles [OF step])
    fix f m assume f: "fold_round g ms = Some f" "fo_preempted f = Some m"
      "st = guard_budget g (preempted_settlement m (round_usage (rt_stats rt) (fo_calls f)))"
    have "m \<in> set ms" using fold_round_Some [OF f(1)] folded_preempted_in f(2) by blast
    then show ?thesis using within f(3) by simp
  next
    fix f t assume f: "fold_round g ms = Some f" "fo_preempted f = None" "fo_terminal f = Some t"
      "st = guard_budget g (ended_settlement f t (round_usage (rt_stats rt) (fo_calls f)))"
    have "t \<in> set ms" using fold_round_Some [OF f(1)] folded_ended_round f(2,3) by fastforce
    then show ?thesis using within f(4) by simp
  qed
qed

definition sample_runtime :: runtime_params where
  "sample_runtime = \<lparr>rt_stats = (\<lambda>_. None), rt_text = (\<lambda>_ _. ''go on''), rt_digest = (\<lambda>_. replicate 64 (CHR ''0''))\<rparr>"

lemma continuation_body_ok: "body_ok (continuation_body t)"
  by (simp add: continuation_body_def)

definition user_writer :: writer where
  "user_writer = (goal_writer ''s'')\<lparr>wr_author := ''user''\<rparr>"

definition round_ledger :: ledger where
  "round_ledger = snd (append_message [] 7 user_writer ''u1'' (continuation_body ''wait'') None None
     (snd (append_message [] 7 (goal_writer ''s'') ''goal-continuation:g1:1'' (continuation_body ''go on'')
       None None empty_ledger)))"

lemma append_message_database_ok:
  assumes "database_ok l" "body_ok b"
  shows "database_ok (snd (append_message checks now w mid b h None l))"
  using writer_append_database_ok [OF assms, of None checks now w mid h] assms(1)
  by (auto simp: append_message_def in_transaction_def split: sum.split)

lemma round_ledger_ok: "database_ok round_ledger"
  unfolding round_ledger_def
  by (intro append_message_database_ok continuation_body_ok database_ok_empty)

theorem settlement_progress_witness:
  "\<exists>st. plan sample_env sample_runtime ''s'' fresh_goal round_ledger = Inr (SettleRound st) \<and>
     -1 < rd_through st \<and> rd_through st \<le> conversation_head ''s'' round_ledger"
proof -
  have "case plan sample_env sample_runtime ''s'' fresh_goal round_ledger of
      Inr (SettleRound st) \<Rightarrow> goal_settled fresh_goal = -1 | _ \<Rightarrow> False"
    by code_simp
  then obtain st where st: "plan sample_env sample_runtime ''s'' fresh_goal round_ledger = Inr (SettleRound st)"
    and g: "goal_settled fresh_goal = -1"
    by (auto split: sum.splits decision.splits)
  have "ledger_ok round_ledger" using round_ledger_ok by (simp add: database_ok_def)
  from settlement_progress [OF this _ st] show ?thesis using st g by auto
qed

section \<open>A whole advance\<close>

lemma continue_tx_wf: "tx_wf (continue_tx w k n g mid t head now)"
  by (auto simp: continue_tx_def save_goal_def continuation_body_ok split: sum.split)

lemma save_goal_wf: "tx_wf (save_goal k g n)"
  by (auto simp: save_goal_def split: sum.split)

lemma with_expected_wf:
  "(\<And>k n g. tx_wf (go k n g)) \<Longrightarrow> tx_wf (with_expected s gid version head allow go)"
  by (auto simp: with_expected_def split: sum.split option.split)

lemma settle_tx_wf: "tx_wf (settle_tx w s gid version head st next_id next_text allow clock)"
  unfolding settle_tx_def
  by (rule with_expected_wf) (auto simp: continue_tx_wf save_goal_wf split: sum.split option.split)

lemma start_tx_wf: "tx_wf (start_tx w s gid version head mid t now)"
  unfolding start_tx_def by (rule with_expected_wf) (rule continue_tx_wf)

context tx_invariant begin

lemma run_decision_keeps:
  assumes "\<And>i m. Q m \<Longrightarrow> Q (world i m)" "Q l"
  shows "Q (snd (run_decision env rt s clock world g head d l))"
proof (cases d)
  case (PauseBy m)
  let ?r = "apply_operation env (control_request rt s m (clock 0)) (control_key m) clock (\<lambda>i. world (i + 2)) l"
  have "Q (snd ?r)"
    by (rule apply_operation_keeps) (use assms in auto)
  then show ?thesis using PauseBy by (auto simp: run_decision_def split: sum.split prod.split)
next
  case StartRound
  have "Q (snd (start env s gid v head mid t now (world 2 (world 1 l))))" for gid v mid t now
    unfolding start_def by (intro transact_keeps start_tx_wf assms)
  then show ?thesis using StartRound assms(1) [OF assms(2)]
    by (auto simp: run_decision_def split: sum.split prod.split) (metis snd_conv)+
next
  case (SettleRound st)
  have "Q (snd (settle env s gid v head st a b allow clock (world 2 (world 1 l))))" for gid v a b allow
    unfolding settle_def by (intro transact_keeps settle_tx_wf assms)
  then show ?thesis using SettleRound assms(1) [OF assms(2)]
    by (auto simp: run_decision_def split: sum.split prod.split) (metis snd_conv)+
qed (simp add: run_decision_def assms(2))

lemma advance_keeps:
  assumes "\<And>i j m. Q m \<Longrightarrow> Q (world i j m)"
  shows "Q l \<Longrightarrow> Q (snd (advance_attempts env rt s clock world n l))"
proof (induction n arbitrary: l)
  case (Suc n)
  have l1: "Q (world n 0 l)" using assms Suc.prems by blast
  show ?case
  proof (cases "\<exists>g d. get_goal (env_owner env) s l = Inr (Some g) \<and> plan env rt s g (world n 0 l) = Inr d")
    case True
    then obtain g d where g: "get_goal (env_owner env) s l = Inr (Some g)" "plan env rt s g (world n 0 l) = Inr d"
      by blast
    obtain r l2 where run: "run_decision env rt s clock (world n) g (conversation_head s (world n 0 l)) d (world n 0 l) = (r, l2)"
      by force
    then have "Q l2" using run_decision_keeps [of "world n", OF _ l1] assms by (metis snd_conv)
    then show ?thesis using g run Suc.IH by (auto simp: Let_def split: sum.split)
  next
    case False
    then show ?thesis using Suc.prems l1 by (auto simp: Let_def split: sum.split option.split)
  qed
qed simp

end



section \<open>Two edges\<close>

text \<open>A goal whose cursor is -1 in a conversation without messages is never started: looking
  for the last message before the cursor raises.\<close>

theorem empty_conversation_raises:
  assumes "led_messages l = []" "goal_active g" "goal_settled g = -1"
  shows "plan env rt s g l = Inl ValueError"
proof -
  have head: "conversation_head s l = -1" by (simp add: conversation_head_def reader_head_def assms(1))
  have "conversation_after l s (-1) = Inr []"
    by (simp add: conversation_after_def reader_snapshot_def reader_scan_def head scan_from.simps)
  then show ?thesis
    by (simp add: plan_def assms(2,3) next_step_def fold_round_def last_message_def reader_read_def head)
qed

definition user_message :: message where
  "user_message = note_message ''u1'' 4 ''user'' (Input [ContentPart ''text'' (JStr ''wait'')])"

text \<open>A round that the user preempts is not counted as empty, except when its usage is unknown
  and the goal has a budget: then the third one blocks the goal.\<close>

theorem preempted_round_counted:
  "(case next_step (\<lambda>_. None) (fresh_goal\<lparr>goal_empty := 2\<rparr>) [goal_input, user_message] (Inr None) of
      Inr (SettleRound st) \<Rightarrow>
        (case settle_round (fresh_goal\<lparr>goal_empty := 2\<rparr>) (round.truncate st) False epoch of
           Inr g \<Rightarrow> goal_status g = BlockedGoal \<and> goal_reason g = Some empty_reason | Inl _ \<Rightarrow> False)
    | _ \<Rightarrow> False) \<and>
   (case next_step (\<lambda>_. None) (unlimited_goal\<lparr>goal_empty := 2\<rparr>) [goal_input, user_message] (Inr None) of
      Inr (SettleRound st) \<Rightarrow>
        (case settle_round (unlimited_goal\<lparr>goal_empty := 2\<rparr>) (round.truncate st) False epoch of
           Inr g \<Rightarrow> goal_active g \<and> goal_empty g = 2 | Inl _ \<Rightarrow> False)
    | _ \<Rightarrow> False)"
  by code_simp

section \<open>The queue\<close>

definition worker_ok :: "worker \<Rightarrow> bool" where
  "worker_ok w \<longleftrightarrow> distinct (wk_queue w) \<and> set (wk_dirty w) \<subseteq> set (wk_queued w) \<and>
     set (wk_queued w) = set (wk_queue w) \<union> set_option (wk_running w) \<and>
     set (wk_queue w) \<inter> set_option (wk_running w) = {}"

lemma enqueue_ok: "worker_ok w \<Longrightarrow> worker_ok (enqueue s w)"
  by (auto simp: worker_ok_def enqueue_def)

lemma take_session_ok: "worker_ok w \<Longrightarrow> take_session w = Some w' \<Longrightarrow> worker_ok w'"
  by (auto simp: worker_ok_def take_session_def split: option.splits list.splits)

lemma finish_session_ok: "worker_ok w \<Longrightarrow> finish_session w = Some w' \<Longrightarrow> worker_ok w'"
  by (auto simp: worker_ok_def finish_session_def enqueue_def Let_def split: option.splits if_split_asm)

lemma worker_step_ok: "worker_step w w' \<Longrightarrow> worker_ok w \<Longrightarrow> worker_ok w'"
  by (erule worker_stepE) (auto intro: enqueue_ok take_session_ok finish_session_ok)

lemma idle_worker_ok: "worker_ok idle_worker"
  by (simp add: worker_ok_def idle_worker_def)

text \<open>A Session waits when it is in the queue, or is being advanced and marked to run again.\<close>

definition waiting :: "string \<Rightarrow> worker \<Rightarrow> bool" where
  "waiting s w \<longleftrightarrow> s \<in> set (wk_queue w) \<or> (wk_running w = Some s \<and> s \<in> set (wk_dirty w))"

lemma enqueue_waits:
  assumes "worker_ok w"
  shows "waiting s (enqueue s w)" "waiting t w \<Longrightarrow> waiting t (enqueue s w)"
  using assms by (auto simp: waiting_def enqueue_def worker_ok_def)

lemma waiting_kept:
  assumes "worker_step w w'" "worker_ok w" "waiting s w" "\<not> waiting s w'"
  shows "wk_running w = None \<and> wk_running w' = Some s \<and> s \<notin> set (wk_dirty w')"
  using assms(1)
proof (rule worker_stepE)
  fix t assume "w' = enqueue t w"
  then show ?thesis using enqueue_waits(2) [OF assms(2,3)] assms(4) by blast
next
  assume "take_session w = Some w'"
  then show ?thesis using assms(2-4)
    by (auto simp: take_session_def waiting_def worker_ok_def split: option.splits list.splits)
next
  assume "finish_session w = Some w'"
  then show ?thesis using assms(2-4)
    by (auto simp: finish_session_def waiting_def worker_ok_def enqueue_def Let_def split: option.splits if_split_asm)
qed

text \<open>
  C38. No wake-up is lost: in every run of the worker, a Session that was put in the
  queue stays waiting until a later turn takes it, also when it was put there while it was being
  advanced; and no Session is queued twice.
\<close>

theorem wake_ups_not_lost:
  assumes "worker_step\<^sup>*\<^sup>* idle_worker w" "worker_step\<^sup>*\<^sup>* (enqueue s w) w'"
  shows "distinct (wk_queue w') \<and> (waiting s w' \<or>
    (\<exists>u u'. worker_step\<^sup>*\<^sup>* (enqueue s w) u \<and> worker_step u u' \<and> worker_step\<^sup>*\<^sup>* u' w' \<and>
      wk_running u = None \<and> wk_running u' = Some s))"
proof -
  have ok: "worker_ok w"
    using assms(1) by (induction rule: rtranclp_induct) (auto intro: idle_worker_ok worker_step_ok)
  have "worker_ok w' \<and> (waiting s w' \<or>
    (\<exists>u u'. worker_step\<^sup>*\<^sup>* (enqueue s w) u \<and> worker_step u u' \<and> worker_step\<^sup>*\<^sup>* u' w' \<and>
      wk_running u = None \<and> wk_running u' = Some s))"
    using assms(2)
  proof (induction rule: rtranclp_induct)
    case base
    then show ?case using enqueue_ok [OF ok] enqueue_waits(1) [OF ok] by simp
  next
    case (step v v')
    have ok': "worker_ok v'" using step.IH worker_step_ok [OF step.hyps(2)] by blast
    show ?case
    proof (cases "waiting s v")
      case True
      then show ?thesis
        using waiting_kept [OF step.hyps(2)] step.IH ok' step.hyps by (metis rtranclp.rtrancl_refl)
    next
      case False
      then show ?thesis using step.IH ok' step.hyps(2) by (meson rtranclp.rtrancl_into_rtrancl)
    qed
  qed
  then show ?thesis by (auto simp: worker_ok_def)
qed

theorem wake_ups_not_lost_witness:
  "distinct (wk_queue (enqueue ''s'' idle_worker)) \<and> waiting ''s'' (enqueue ''s'' idle_worker)"
proof -
  have "wk_running (enqueue ''s'' idle_worker) = None \<Longrightarrow> waiting ''s'' (enqueue ''s'' idle_worker)"
    by (simp add: waiting_def enqueue_def idle_worker_def)
  then show ?thesis
    using wake_ups_not_lost [of idle_worker "''s''" "enqueue ''s'' idle_worker"]
    by (simp add: enqueue_def idle_worker_def)
qed

end
