(* ===== verification/Goal_Commands.thy ===== *)
theory Goal_Commands
  imports Goal_Properties
begin

text \<open>
  Who asks the goal store for changes: the \<open>/goal\<close> command of \<open>plugins/goal/command.py\<close> and
  the three tools of \<open>plugins/goal/tools.py\<close>. Both turn a request into one applied
  operation, retry it when the conversation moved on, and answer with text. Texts are given in
  English; error texts are dropped. \<open>sha\<close> stands for SHA-256 in hexadecimal. An action
  that the store runs again after a conflict is given the time of its first run.
\<close>

section \<open>Requests\<close>

definition goal_digest :: "(string \<Rightarrow> string) \<Rightarrow> json \<Rightarrow> string" where
  "goal_digest sha v = sha (json_text (json_norm v))"

definition made_goal_id :: "(string \<Rightarrow> string) \<Rightarrow> string \<Rightarrow> string \<Rightarrow> string \<Rightarrow> string" where
  "made_goal_id sha s objective oid =
     ''goal-'' @ take 24 (goal_digest sha (JArr [JStr s, JStr objective, JStr oid]))"

text \<open>The action that creates a goal: only a complete one is replaced.\<close>

definition replace_complete ::
  "py_error \<Rightarrow> goal res \<Rightarrow> string \<Rightarrow> goal option \<Rightarrow> (goal option \<times> string) res" where
  "replace_complete refusal made response cur =
     (case cur of
        Some g \<Rightarrow> if goal_status g \<noteq> CompleteGoal then Inl refusal
          else attempt made (\<lambda>g'. Inr (Some g', response))
      | None \<Rightarrow> attempt made (\<lambda>g'. Inr (Some g', response)))"

text \<open>The action that changes the goal there is.\<close>

definition change_goal ::
  "py_error \<Rightarrow> (goal \<Rightarrow> goal res) \<Rightarrow> (goal \<Rightarrow> string) \<Rightarrow> goal option \<Rightarrow> (goal option \<times> string) res" where
  "change_goal refusal change response cur = (case cur of
     None \<Rightarrow> Inl refusal
   | Some g \<Rightarrow> attempt (change g) (\<lambda>g'. Inr (Some g', response g')))"

definition set_request ::
  "(string \<Rightarrow> string) \<Rightarrow> string \<Rightarrow> string \<Rightarrow> string \<Rightarrow> int \<Rightarrow> moment \<Rightarrow> request" where
  "set_request sha s mid objective head now =
     \<lparr>rq_session = s, rq_kind = ''command'', rq_digest = goal_digest sha (JObj [(''set'', JStr objective)]),
      rq_action = replace_complete ValueError
        (new_goal s (made_goal_id sha s objective mid) objective None head now) (''goal set: '' @ objective),
      rq_head = Some head, rq_goal = None\<rparr>"

definition clear_action :: "goal option \<Rightarrow> (goal option \<times> string) res" where
  "clear_action cur = Inr (case cur of
     None \<Rightarrow> (None, ''no goal'') | Some g \<Rightarrow> (None, ''goal cleared: '' @ goal_objective g))"

definition clear_request :: "(string \<Rightarrow> string) \<Rightarrow> string \<Rightarrow> request" where
  "clear_request sha s =
     \<lparr>rq_session = s, rq_kind = ''command'', rq_digest = goal_digest sha (JObj [(''clear'', JBool True)]),
      rq_action = clear_action, rq_head = None, rq_goal = None\<rparr>"

definition pause_request :: "(string \<Rightarrow> string) \<Rightarrow> string \<Rightarrow> moment \<Rightarrow> request" where
  "pause_request sha s now =
     \<lparr>rq_session = s, rq_kind = ''command'', rq_digest = goal_digest sha (JObj [(''pause'', JBool True)]),
      rq_action = change_goal ValueError (\<lambda>g. pause_goal g ''paused by the user'' now)
        (\<lambda>g. ''goal paused: '' @ goal_objective g),
      rq_head = None, rq_goal = None\<rparr>"

definition resume_request :: "(string \<Rightarrow> string) \<Rightarrow> string \<Rightarrow> moment \<Rightarrow> request" where
  "resume_request sha s now =
     \<lparr>rq_session = s, rq_kind = ''command'', rq_digest = goal_digest sha (JObj [(''resume'', JBool True)]),
      rq_action = change_goal ValueError (\<lambda>g. resume_goal g now) (\<lambda>g. ''goal resumed: '' @ goal_objective g),
      rq_head = None, rq_goal = None\<rparr>"

definition budget_request :: "(string \<Rightarrow> string) \<Rightarrow> string \<Rightarrow> int option \<Rightarrow> moment \<Rightarrow> request" where
  "budget_request sha s budget now =
     \<lparr>rq_session = s, rq_kind = ''command'', rq_digest = goal_digest sha (JObj [(''budget'', int_or_null budget)]),
      rq_action = change_goal ValueError (\<lambda>g. set_token_budget g budget now)
        (\<lambda>_. case budget of None \<Rightarrow> ''budget cleared'' | Some b \<Rightarrow> ''budget set: '' @ int_text b),
      rq_head = None, rq_goal = None\<rparr>"

section \<open>The command\<close>

definition status_text :: "goal \<Rightarrow> string" where
  "status_text g = join_text [CHR 10] (
     [''goal: '' @ goal_objective g,
      ''status: '' @ status_text_of (goal_status g),
      ''continuations: '' @ int_text (goal_continuations g),
      ''empty rounds: '' @ int_text (goal_empty g),
      ''usage: '' @ int_text (goal_tokens g) @ '' tokens'' @
        (case goal_budget g of
           None \<Rightarrow> '' (no budget)''
         | Some b \<Rightarrow> '' / '' @ int_text b @ '' (remaining '' @
             (case remaining_tokens g of None \<Rightarrow> ''None'' | Some r \<Rightarrow> int_text r) @ '')''),
      ''coverage: '' @ coverage_text (goal_coverage g)] @
     (case goal_reason g of
        None \<Rightarrow> [] | Some r \<Rightarrow> if r = [] then [] else [''last reason: '' @ r]))"

datatype command_result = CommandSuccess string | CommandError

datatype goal_command = ShowGoal | ClearGoal | PauseCommand | ResumeCommand | BudgetCommand | SetCommand

definition clear_aliases :: "string list" where
  "clear_aliases = [''clear'', ''stop'', ''off'', ''reset'', ''none'', ''cancel'']"

definition parse_command :: "string \<Rightarrow> goal_command" where
  "parse_command raw = (let lowered = py_lower raw in
     if raw = [] then ShowGoal
     else if lowered \<in> set clear_aliases then ClearGoal
     else if lowered = ''pause'' then PauseCommand
     else if lowered = ''resume'' then ResumeCommand
     else if lowered = ''budget'' \<or> starts_with lowered ''budget '' then BudgetCommand
     else SetCommand)"

text \<open>Where the message of an operation's exception becomes the answer.\<close>

definition answer_of ::
  "((goal option \<times> string) \<Rightarrow> string) \<Rightarrow> (goal option \<times> string) res \<times> ledger \<Rightarrow>
   command_result res \<times> ledger" where
  "answer_of text_of outcome = (case outcome of
     (Inr x, l) \<Rightarrow> (Inr (CommandSuccess (text_of x)), l)
   | (Inl e, l) \<Rightarrow> if is_value_error e then (Inr CommandError, l) else (Inl e, l))"

definition with_status :: "goal option \<times> string \<Rightarrow> string" where
  "with_status x = (case x of (None, t) \<Rightarrow> t | (Some g, t) \<Rightarrow> t @ [CHR 10] @ status_text g)"

text \<open>Three attempts to set the goal, each at the head of the conversation it has read; the
  clocks and the interference of other writers are those of each attempt.\<close>

fun set_attempts ::
  "(string \<Rightarrow> string) \<Rightarrow> tx_env \<Rightarrow> string \<Rightarrow> string \<Rightarrow> string \<Rightarrow> (nat \<Rightarrow> moment) \<Rightarrow> (nat \<Rightarrow> nat \<Rightarrow> moment) \<Rightarrow>
   (nat \<Rightarrow> nat \<Rightarrow> ledger \<Rightarrow> ledger) \<Rightarrow> nat \<Rightarrow> nat \<Rightarrow> ledger \<Rightarrow> command_result res \<times> ledger" where
  "set_attempts sha env s mid objective now clock world i 0 l = (Inr CommandError, l)"
| "set_attempts sha env s mid objective now clock world i (Suc n) l =
     (let rq = set_request sha s mid objective (conversation_head s l) (now i) in
      case apply_operation env rq mid (clock i) (world i) l of
        (Inr x, l') \<Rightarrow> (Inr (CommandSuccess (with_status x)), l')
      | (Inl e, l') \<Rightarrow>
          if is_conflict e
          then set_attempts sha env s mid objective now clock world (Suc i) n (world i 9 l')
          else if is_value_error e then (Inr CommandError, l') else (Inl e, l'))"

definition command_set ::
  "(string \<Rightarrow> string) \<Rightarrow> tx_env \<Rightarrow> string \<Rightarrow> string \<Rightarrow> string \<Rightarrow> (nat \<Rightarrow> moment) \<Rightarrow> (nat \<Rightarrow> nat \<Rightarrow> moment) \<Rightarrow>
   (nat \<Rightarrow> nat \<Rightarrow> ledger \<Rightarrow> ledger) \<Rightarrow> ledger \<Rightarrow> command_result res \<times> ledger" where
  "command_set sha env s mid raw now clock world l = (case normalize_objective raw of
     Inl e \<Rightarrow> if is_value_error e then (Inr CommandError, l) else (Inl e, l)
   | Inr objective \<Rightarrow> set_attempts sha env s mid objective now clock world 0 3 l)"

definition command_clear ::
  "(string \<Rightarrow> string) \<Rightarrow> tx_env \<Rightarrow> string \<Rightarrow> string \<Rightarrow> (nat \<Rightarrow> moment) \<Rightarrow> (nat \<Rightarrow> ledger \<Rightarrow> ledger) \<Rightarrow>
   ledger \<Rightarrow> command_result res \<times> ledger" where
  "command_clear sha env s mid clock world l = (case apply_operation env (clear_request sha s) mid clock world l of
     (Inr (_, t), l') \<Rightarrow> (Inr (CommandSuccess t), l')
   | (Inl e, l') \<Rightarrow> (Inl e, l'))"

definition command_pause ::
  "(string \<Rightarrow> string) \<Rightarrow> tx_env \<Rightarrow> string \<Rightarrow> string \<Rightarrow> moment \<Rightarrow> (nat \<Rightarrow> moment) \<Rightarrow>
   (nat \<Rightarrow> ledger \<Rightarrow> ledger) \<Rightarrow> ledger \<Rightarrow> command_result res \<times> ledger" where
  "command_pause sha env s mid now clock world l =
     answer_of snd (apply_operation env (pause_request sha s now) mid clock world l)"

definition command_resume ::
  "(string \<Rightarrow> string) \<Rightarrow> tx_env \<Rightarrow> string \<Rightarrow> string \<Rightarrow> moment \<Rightarrow> (nat \<Rightarrow> moment) \<Rightarrow>
   (nat \<Rightarrow> ledger \<Rightarrow> ledger) \<Rightarrow> ledger \<Rightarrow> command_result res \<times> ledger" where
  "command_resume sha env s mid now clock world l =
     answer_of snd (apply_operation env (resume_request sha s now) mid clock world l)"

text \<open>\<open>raw.split(maxsplit=2)\<close> has two parts when the text has two words.\<close>

definition read_budget_words :: "string \<Rightarrow> int option res" where
  "read_budget_words raw = (case py_words raw of
     [_, w] \<Rightarrow> (let v = py_lower (py_strip w) in
       if v = ''clear'' then Inr None
       else (case py_int v of None \<Rightarrow> Inl ValueError | Some b \<Rightarrow> normalize_token_budget (Some b)))
   | _ \<Rightarrow> Inl ValueError)"

definition command_budget ::
  "(string \<Rightarrow> string) \<Rightarrow> tx_env \<Rightarrow> string \<Rightarrow> string \<Rightarrow> string \<Rightarrow> moment \<Rightarrow> (nat \<Rightarrow> moment) \<Rightarrow>
   (nat \<Rightarrow> ledger \<Rightarrow> ledger) \<Rightarrow> ledger \<Rightarrow> command_result res \<times> ledger" where
  "command_budget sha env s mid raw now clock world l = (case read_budget_words raw of
     Inl _ \<Rightarrow> (Inr CommandError, l)
   | Inr budget \<Rightarrow>
       answer_of with_status (apply_operation env (budget_request sha s budget now) mid clock world l))"

definition command_show :: "string \<Rightarrow> string \<Rightarrow> ledger \<Rightarrow> command_result res \<times> ledger" where
  "command_show own s l = (case get_goal own s l of
     Inl e \<Rightarrow> (Inl e, l)
   | Inr None \<Rightarrow> (Inr (CommandSuccess ''no goal''), l)
   | Inr (Some g) \<Rightarrow> (Inr (CommandSuccess (status_text g)), l))"

definition goal_command_call ::
  "(string \<Rightarrow> string) \<Rightarrow> tx_env \<Rightarrow> string \<Rightarrow> string \<Rightarrow> string \<Rightarrow> (nat \<Rightarrow> moment) \<Rightarrow> (nat \<Rightarrow> nat \<Rightarrow> moment) \<Rightarrow>
   (nat \<Rightarrow> nat \<Rightarrow> ledger \<Rightarrow> ledger) \<Rightarrow> ledger \<Rightarrow> command_result res \<times> ledger" where
  "goal_command_call sha env s mid raw_input now clock world l = (let raw = py_strip raw_input in
     case parse_command raw of
       ShowGoal \<Rightarrow> command_show (env_owner env) s l
     | ClearGoal \<Rightarrow> command_clear sha env s mid (clock 0) (world 0) l
     | PauseCommand \<Rightarrow> command_pause sha env s mid (now 0) (clock 0) (world 0) l
     | ResumeCommand \<Rightarrow> command_resume sha env s mid (now 0) (clock 0) (world 0) l
     | BudgetCommand \<Rightarrow> command_budget sha env s mid raw (now 0) (clock 0) (world 0) l
     | SetCommand \<Rightarrow> command_set sha env s mid raw now clock world l)"

section \<open>The tools\<close>

datatype 'a prepared = Refused | Prepared 'a

datatype tool_result = ToolSuccess json | ToolError

text \<open>\<open>_session\<close>: the Session of the last message of the call's prefix.\<close>

definition source_session :: "message list option \<Rightarrow> string res" where
  "source_session source = (case source of
     None \<Rightarrow> Inl ValueError
   | Some ms \<Rightarrow> if ms = [] then Inl ValueError else Inr (msg_session (last ms)))"

definition goal_snapshot :: "goal \<Rightarrow> json" where
  "goal_snapshot g = JObj
     [(''goal_id'', JStr (goal_id g)), (''objective'', JStr (goal_objective g)),
      (''status'', JStr (status_text_of (goal_status g))), (''token_budget'', int_or_null (goal_budget g)),
      (''tokens_used'', JInt (goal_tokens g)), (''remaining_tokens'', int_or_null (remaining_tokens g)),
      (''continuations'', JInt (goal_continuations g)), (''consecutive_empty'', JInt (goal_empty g)),
      (''usage_coverage'', JStr (coverage_text (goal_coverage g))),
      (''last_reason'', text_or_null (goal_reason g))]"

definition optional_snapshot :: "goal option \<Rightarrow> json" where
  "optional_snapshot g = (case g of None \<Rightarrow> JNull | Some g' \<Rightarrow> goal_snapshot g')"

definition applied_result :: "goal option \<times> string \<Rightarrow> tool_result" where
  "applied_result x = ToolSuccess (JObj [(''response'', JStr (snd x)), (''goal'', optional_snapshot (fst x))])"

subsection \<open>\<open>get_goal\<close>\<close>

definition get_prepare :: "(string \<times> json) list \<Rightarrow> message list option \<Rightarrow> string prepared" where
  "get_prepare arguments source =
     (if arguments \<noteq> [] then Refused
      else case source_session source of Inl _ \<Rightarrow> Refused | Inr s \<Rightarrow> Prepared s)"

definition get_invoke :: "string \<Rightarrow> string \<Rightarrow> ledger \<Rightarrow> tool_result res" where
  "get_invoke own s l = attempt (get_goal own s l) (\<lambda>g.
     Inr (ToolSuccess (JObj [(''goal'', optional_snapshot g)])))"

subsection \<open>\<open>create_goal\<close>\<close>

text \<open>\<open>validate\<close> is the check of the arguments by the package pydantic: the objective and
  the budget of a \<open>CreateGoalInput\<close>, or its \<open>ValidationError\<close>.\<close>

record create_arguments =
  cr_session :: string
  cr_objective :: string
  cr_budget :: "int option"

definition create_prepare ::
  "((string \<times> json) list \<Rightarrow> (string \<times> int option) option) \<Rightarrow> (string \<times> json) list \<Rightarrow> message list option \<Rightarrow>
   create_arguments prepared" where
  "create_prepare validate arguments source = (case validate arguments of
     None \<Rightarrow> Refused
   | Some (objective, budget) \<Rightarrow>
       (case attempt (source_session source) (\<lambda>s. attempt (normalize_objective objective) (\<lambda>obj.
           attempt (normalize_token_budget budget) (\<lambda>b.
           Inr \<lparr>cr_session = s, cr_objective = obj, cr_budget = b\<rparr>))) of
          Inl _ \<Rightarrow> Refused
        | Inr a \<Rightarrow> Prepared a))"

definition goal_create_request ::
  "(string \<Rightarrow> string) \<Rightarrow> create_arguments \<Rightarrow> string \<Rightarrow> int \<Rightarrow> moment \<Rightarrow> request" where
  "goal_create_request sha a key head now =
     \<lparr>rq_session = cr_session a, rq_kind = ''create'',
      rq_digest = goal_digest sha (JObj [(''objective'', JStr (cr_objective a)),
        (''token_budget'', int_or_null (cr_budget a))]),
      rq_action = replace_complete GoalConflict
        (new_goal (cr_session a) (made_goal_id sha (cr_session a) (cr_objective a) key) (cr_objective a)
          (cr_budget a) head now) (''goal created: '' @ cr_objective a),
      rq_head = Some head, rq_goal = None\<rparr>"

fun create_attempts ::
  "(string \<Rightarrow> string) \<Rightarrow> tx_env \<Rightarrow> create_arguments \<Rightarrow> string \<Rightarrow> (nat \<Rightarrow> moment) \<Rightarrow> (nat \<Rightarrow> nat \<Rightarrow> moment) \<Rightarrow>
   (nat \<Rightarrow> nat \<Rightarrow> ledger \<Rightarrow> ledger) \<Rightarrow> nat \<Rightarrow> nat \<Rightarrow> ledger \<Rightarrow> tool_result res \<times> ledger" where
  "create_attempts sha env a key now clock world i 0 l = (Inr ToolError, l)"
| "create_attempts sha env a key now clock world i (Suc n) l =
     (let rq = goal_create_request sha a key (conversation_head (cr_session a) l) (now i) in
      case apply_operation env rq key (clock i) (world i) l of
        (Inr x, l') \<Rightarrow> (Inr (applied_result x), l')
      | (Inl e, l') \<Rightarrow>
          if is_conflict e
          then create_attempts sha env a key now clock world (Suc i) n (world i 9 l')
          else if e = GoalConflict then (Inr ToolError, l') else (Inl e, l'))"

definition create_invoke ::
  "(string \<Rightarrow> string) \<Rightarrow> tx_env \<Rightarrow> create_arguments \<Rightarrow> string \<Rightarrow> (nat \<Rightarrow> moment) \<Rightarrow> (nat \<Rightarrow> nat \<Rightarrow> moment) \<Rightarrow>
   (nat \<Rightarrow> nat \<Rightarrow> ledger \<Rightarrow> ledger) \<Rightarrow> ledger \<Rightarrow> tool_result res \<times> ledger" where
  "create_invoke sha env a key now clock world l = create_attempts sha env a key now clock world 0 3 l"

subsection \<open>\<open>update_goal\<close>\<close>

record update_arguments =
  up_session :: string
  up_status :: string
  up_goal :: "string option"
  up_version :: "int option"

definition update_prepare ::
  "((string \<times> json) list \<Rightarrow> string option) \<Rightarrow> string \<Rightarrow> (string \<times> json) list \<Rightarrow> message list option \<Rightarrow> ledger \<Rightarrow>
   update_arguments prepared res" where
  "update_prepare validate own arguments source l =
     (case (validate arguments, source_session source) of
        (Some st, Inr s) \<Rightarrow> attempt (get_with_version own s l) (\<lambda>snapshot. Inr (case snapshot of
          None \<Rightarrow> Refused
        | Some (g, n) \<Rightarrow> Prepared \<lparr>up_session = s, up_status = st, up_goal = Some (goal_id g),
            up_version = Some (int n)\<rparr>))
      | _ \<Rightarrow> Inr Refused)"

definition update_request ::
  "(string \<Rightarrow> string) \<Rightarrow> string \<Rightarrow> string \<Rightarrow> string \<Rightarrow> int \<Rightarrow> moment \<Rightarrow> request" where
  "update_request sha s st gid version now =
     \<lparr>rq_session = s, rq_kind = ''update'', rq_digest = goal_digest sha (JObj [(''status'', JStr st)]),
      rq_action = change_goal GoalConflict (\<lambda>g. apply_model_update g st now)
        (\<lambda>g. ''goal status: '' @ status_text_of (goal_status g)),
      rq_head = None, rq_goal = Some (gid, version)\<rparr>"

definition update_invoke ::
  "(string \<Rightarrow> string) \<Rightarrow> tx_env \<Rightarrow> update_arguments \<Rightarrow> string \<Rightarrow> moment \<Rightarrow> (nat \<Rightarrow> moment) \<Rightarrow>
   (nat \<Rightarrow> ledger \<Rightarrow> ledger) \<Rightarrow> ledger \<Rightarrow> tool_result res \<times> ledger" where
  "update_invoke sha env a key now clock world l = (case (up_goal a, up_version a) of
     (Some gid, Some version) \<Rightarrow>
       (case apply_operation env (update_request sha (up_session a) (up_status a) gid version now) key clock world l of
          (Inr x, l') \<Rightarrow> (Inr (applied_result x), l')
        | (Inl e, l') \<Rightarrow> if is_value_error e then (Inr ToolError, l') else (Inl e, l'))
   | _ \<Rightarrow> (Inr ToolError, l))"

end
