(* ===== verification/Command_Properties.thy ===== *)
theory Command_Properties
  imports Goal_Commands
begin

text \<open>
  Properties of the \<open>/goal\<close> command and the goal tools: whatever other writers do between
  their steps, a successful request was carried out on the goal it is meant for.
\<close>

section \<open>Where a request was carried out\<close>

text \<open>The request was found done in the database \<open>m\<close>, or it is one step from there.\<close>

definition done_before :: "tx_env \<Rightarrow> request \<Rightarrow> string \<Rightarrow> ledger \<Rightarrow> goal option \<times> string \<Rightarrow> ledger \<Rightarrow> bool" where
  "done_before env rq k m x l' \<longleftrightarrow> (\<exists>op. receipt_at (env_owner env) k m op \<and> receipt_matches rq op \<and>
     x = (op_goal op, op_response op) \<and> l' = m)"

definition done_now :: "tx_env \<Rightarrow> request \<Rightarrow> ledger \<Rightarrow> goal option \<times> string \<Rightarrow> ledger \<Rightarrow> bool" where
  "done_now env rq m x l' \<longleftrightarrow>
     rq_action rq (map_option snd (goal_view (env_owner env) m (rq_session rq))) = Inr x \<and>
     (\<forall>e. rq_goal rq = Some e \<longrightarrow>
       (\<exists>n g. goal_view (env_owner env) m (rq_session rq) = Some (n, g) \<and> e = (goal_id g, int n))) \<and>
     (\<forall>h. rq_head rq = Some h \<longrightarrow> \<not> reader_source_changed m (rq_session rq) ''conversation'' h) \<and>
     goal_view (env_owner env) l' = (goal_view (env_owner env) m)(rq_session rq := map_option
       (\<lambda>g. (case goal_view (env_owner env) m (rq_session rq) of None \<Rightarrow> 0 | Some (n, _) \<Rightarrow> Suc n, g)) (fst x)) \<and>
     led_messages l' = led_messages m"

lemma apply_operation_done:
  assumes "database_ok l" "request_stamped rq" "\<And>i. stamp_ok (clock i)"
    and "\<And>i m. database_ok m \<Longrightarrow> database_ok (world i m)"
    and "apply_operation env rq oid clock world l = (Inr x, l')"
  shows "\<exists>m k. database_ok m \<and> operation_key (rq_kind rq) (rq_session rq) oid = Inr k \<and>
    (done_before env rq k m x l' \<or> done_now env rq m x l')"
proof -
  from assms(5) obtain k where k: "operation_key (rq_kind rq) (rq_session rq) oid = Inr k"
    and a: "apply_attempts env rq k clock world 0 3 l = (Inr x, l')"
    by (auto simp: apply_operation_def split: sum.splits)
  obtain c r where x: "x = (c, r)" by (cases x)
  from apply_attempts_Inr [OF a, of database_ok] assms(1,4) obtain j m0 stale where
    m0: "database_ok m0" "stale_operations (env_owner env) 1 m0 = Inr stale"
    and t: "tx_gives env (apply_tx rq k (clock j) stale) (world (3 * j) m0) (c, r) l'"
    by (auto simp: transact_Inr x)
  let ?m = "world (3 * j) m0"
  have m: "database_ok ?m" using m0(1) assms(4) by simp
  have sk: "starts_with k operation_prefix" using operation_key_Inr [OF k] by simp
  have st: "\<forall>(j, n) \<in> set stale. starts_with j operation_prefix"
    using stale_operations_Inr(1) [OF database_owners [OF m0(1)] m0(2)] by auto
  have "done_before env rq k ?m x l' \<or> done_now env rq ?m x l'"
  proof (rule apply_tx_gives [OF database_owners [OF m] t])
    assume head: "\<forall>h. rq_head rq = Some h \<longrightarrow> \<not> reader_source_changed ?m (rq_session rq) ''conversation'' h"
      and run: "tx_gives env (apply_change rq k (clock j) stale) ?m (c, r) l'"
    have "done_now env rq ?m x l'"
      unfolding done_now_def x
      by (rule apply_change_gives [OF database_owners [OF m] assms(2) assms(3) sk st run])
        (intro conjI head, simp_all add: stores_goal_def)
    then show ?thesis ..
  qed (auto simp: done_before_def x)
  then show ?thesis using m k by blast
qed

section \<open>The requests keep the clock's form\<close>

lemma made_goal_times:
  "new_goal s gid ob b h now = Inr g \<Longrightarrow> goal_created g = now \<and> goal_updated g = now"
  by (auto simp: new_goal_def attempt_eq_Inr split: if_split_asm)

lemma replace_stamped:
  assumes "stamp_ok now" "rq_action rq = replace_complete e (new_goal s gid ob b h now) t"
  shows "request_stamped rq"
  using assms made_goal_times
  by (fastforce simp: request_stamped_def replace_complete_def attempt_eq_Inr split: option.splits if_split_asm)

lemma change_stamped:
  assumes "\<And>g g'. f g = Inr g' \<Longrightarrow> goal_created g' = goal_created g \<and> stamp_ok (goal_updated g')"
    and "rq_action rq = change_goal e f t"
  shows "request_stamped rq"
  using assms
  by (fastforce simp: request_stamped_def change_goal_def attempt_eq_Inr split: option.splits)

lemma clear_stamped: "rq_action rq = clear_action \<Longrightarrow> request_stamped rq"
  by (auto simp: request_stamped_def clear_action_def split: option.splits)

lemma stopped_stamps:
  "pause_goal g r now = Inr g' \<Longrightarrow> goal_created g' = goal_created g \<and> goal_updated g' = now"
  "apply_model_update g st now = Inr g' \<Longrightarrow> goal_created g' = goal_created g \<and> goal_updated g' = now"
  "resume_goal g now = Inr g' \<Longrightarrow> goal_created g' = goal_created g \<and> goal_updated g' = now"
  "set_token_budget g b now = Inr g' \<Longrightarrow> goal_created g' = goal_created g \<and> goal_updated g' = now"
  by (auto simp: goal_op_defs attempt_eq_Inr split: if_split_asm)

lemma requests_stamped:
  assumes "stamp_ok now"
  shows "request_stamped (set_request sha s mid ob h now)"
    "request_stamped (goal_create_request sha a key h now)"
    "request_stamped (update_request sha s st gid v now)"
    "request_stamped (pause_request sha s now)"
    "request_stamped (resume_request sha s now)"
    "request_stamped (budget_request sha s b now)"
    "request_stamped (clear_request sha s)"
proof -
  show "request_stamped (set_request sha s mid ob h now)"
    by (rule replace_stamped [OF assms]) (simp add: set_request_def)
  show "request_stamped (goal_create_request sha a key h now)"
    by (rule replace_stamped [OF assms]) (simp add: goal_create_request_def)
  show "request_stamped (update_request sha s st gid v now)"
    by (rule change_stamped [where f = "\<lambda>g. apply_model_update g st now"])
      (use assms stopped_stamps in \<open>auto simp: update_request_def\<close>)
  show "request_stamped (pause_request sha s now)"
    by (rule change_stamped [where f = "\<lambda>g. pause_goal g ''paused by the user'' now"])
      (use assms stopped_stamps in \<open>auto simp: pause_request_def\<close>)
  show "request_stamped (resume_request sha s now)"
    by (rule change_stamped [where f = "\<lambda>g. resume_goal g now"])
      (use assms stopped_stamps in \<open>auto simp: resume_request_def\<close>)
  show "request_stamped (budget_request sha s b now)"
    by (rule change_stamped [where f = "\<lambda>g. set_token_budget g b now"])
      (use assms stopped_stamps in \<open>auto simp: budget_request_def\<close>)
  show "request_stamped (clear_request sha s)"
    by (rule clear_stamped) (simp add: clear_request_def)
qed

section \<open>New goals\<close>

definition starts_new_goal ::
  "tx_env \<Rightarrow> string \<Rightarrow> string \<Rightarrow> int option \<Rightarrow> ledger \<Rightarrow> ledger \<Rightarrow> bool" where
  "starts_new_goal env s objective budget m l' \<longleftrightarrow>
     (case goal_view (env_owner env) m s of None \<Rightarrow> True | Some (_, g) \<Rightarrow> goal_status g = CompleteGoal) \<and>
     (\<exists>n g. goal_view (env_owner env) l' = (goal_view (env_owner env) m)(s \<mapsto> (n, g)) \<and> goal_ok g \<and>
       goal_active g \<and> goal_objective g = objective \<and> goal_budget g = budget \<and> goal_tokens g = 0 \<and>
       goal_continuations g = 0 \<and> \<not> reader_source_changed m s ''conversation'' (goal_settled g)) \<and>
     led_messages l' = led_messages m"

lemma made_goal_facts:
  assumes "new_goal s gid ob b h now = Inr g" "normalize_objective ob = Inr ob"
  shows "goal_active g" "goal_objective g = ob" "goal_budget g = b" "goal_tokens g = 0"
    "goal_continuations g = 0" "goal_settled g = h" "goal_ok g"
  using new_goal_ok [OF assms(1)] assms
  by (auto simp: new_goal_def attempt_eq_Inr goal_active_def dest: normalize_token_budget_id split: if_split_asm)

lemma replace_complete_Inr:
  "replace_complete e made t cur = Inr x \<longleftrightarrow>
     (case cur of None \<Rightarrow> True | Some g \<Rightarrow> goal_status g = CompleteGoal) \<and> (\<exists>g'. made = Inr g' \<and> x = (Some g', t))"
  by (auto simp: replace_complete_def attempt_eq_Inr split: option.splits)

lemma done_now_replaces:
  assumes "done_now env rq m x l'" "rq_action rq = replace_complete e (new_goal s gid ob b h now) t"
    and "rq_session rq = s" "rq_head rq = Some h" "normalize_objective ob = Inr ob"
  shows "starts_new_goal env s ob b m l'"
proof -
  let ?v = "goal_view (env_owner env) m s"
  from assms(1-3) have "replace_complete e (new_goal s gid ob b h now) t (map_option snd ?v) = Inr x"
    by (simp add: done_now_def)
  then obtain g where old: "case map_option snd ?v of None \<Rightarrow> True | Some g \<Rightarrow> goal_status g = CompleteGoal"
    and g: "new_goal s gid ob b h now = Inr g" and x: "x = (Some g, t)"
    unfolding replace_complete_Inr by blast
  have head: "\<not> reader_source_changed m s ''conversation'' h"
    using assms(1,3,4) unfolding done_now_def by blast
  have step: "goal_view (env_owner env) l' = (goal_view (env_owner env) m)
      (s \<mapsto> (case ?v of None \<Rightarrow> 0 | Some (n, _) \<Rightarrow> Suc n, g))" "led_messages l' = led_messages m"
    using assms(1,3) x unfolding done_now_def by (simp_all del: fun_upd_apply)
  have "case ?v of None \<Rightarrow> True | Some (_, g) \<Rightarrow> goal_status g = CompleteGoal"
    using old by (cases ?v) (auto split: prod.split)
  then show ?thesis
    unfolding starts_new_goal_def using step head made_goal_facts [OF g assms(5)] by metis
qed

text \<open>What a successful answer of the retrying handlers comes from.\<close>

lemma create_attempts_success:
  assumes "create_attempts sha env a key now clock world i n l = (Inr (ToolSuccess v), l')" "P l"
    and "\<And>i j m. P m \<Longrightarrow> P (world i j m)"
    and "\<And>i h m r m'. P m \<Longrightarrow>
      apply_operation env (goal_create_request sha a key h (now i)) key (clock i) (world i) m = (r, m') \<Longrightarrow> P m'"
  shows "\<exists>i h m x. P m \<and>
    apply_operation env (goal_create_request sha a key h (now i)) key (clock i) (world i) m = (Inr x, l')"
  using assms(1,2)
proof (induction n arbitrary: i l)
  case (Suc n)
  let ?rq = "goal_create_request sha a key (conversation_head (cr_session a) l) (now i)"
  obtain r m where r: "apply_operation env ?rq key (clock i) (world i) l = (r, m)" by force
  show ?case
  proof (cases r)
    case (Inr x)
    then have "m = l'" using Suc.prems(1) r by (simp add: Let_def)
    then show ?thesis using r Inr Suc.prems(2) by blast
  next
    case (Inl e)
    then have "create_attempts sha env a key now clock world (Suc i) n (world i 9 m) = (Inr (ToolSuccess v), l')"
      using Suc.prems(1) r by (auto simp: Let_def split: if_split_asm)
    moreover have "P (world i 9 m)" using assms(3,4) Suc.prems(2) r by blast
    ultimately show ?thesis using Suc.IH by blast
  qed
qed simp

lemma set_attempts_success:
  assumes "set_attempts sha env s mid ob now clock world i n l = (Inr (CommandSuccess v), l')" "P l"
    and "\<And>i j m. P m \<Longrightarrow> P (world i j m)"
    and "\<And>i h m r m'. P m \<Longrightarrow>
      apply_operation env (set_request sha s mid ob h (now i)) mid (clock i) (world i) m = (r, m') \<Longrightarrow> P m'"
  shows "\<exists>i h m x. P m \<and>
    apply_operation env (set_request sha s mid ob h (now i)) mid (clock i) (world i) m = (Inr x, l')"
  using assms(1,2)
proof (induction n arbitrary: i l)
  case (Suc n)
  let ?rq = "set_request sha s mid ob (conversation_head s l) (now i)"
  obtain r m where r: "apply_operation env ?rq mid (clock i) (world i) l = (r, m)" by force
  show ?case
  proof (cases r)
    case (Inr x)
    then have "m = l'" using Suc.prems(1) r by (simp add: Let_def)
    then show ?thesis using r Inr Suc.prems(2) by blast
  next
    case (Inl e)
    then have "set_attempts sha env s mid ob now clock world (Suc i) n (world i 9 m) = (Inr (CommandSuccess v), l')"
      using Suc.prems(1) r by (auto simp: Let_def split: if_split_asm)
    moreover have "P (world i 9 m)" using assms(3,4) Suc.prems(2) r by blast
    ultimately show ?thesis using Suc.IH by blast
  qed
qed simp

lemma sound_worlds:
  assumes "\<And>i j m. database_ok m \<Longrightarrow> database_ok (world i j m)"
    and "database_ok m" "apply_operation env rq oid (clock i) (world i) m = (r, m')"
  shows "database_ok m'"
  using database.apply_operation_keeps [of "world i" m env rq oid "clock i"] assms by simp


text \<open>
  So does \<open>/goal <objective>\<close>: when it succeeds, unfinished work was not
  replaced, and the new goal is the one asked for, without a budget.
\<close>

theorem set_replaces_complete:
  assumes "database_ok l" "\<forall>i. stamp_ok (now i)" "\<forall>i j. stamp_ok (clock i j)"
    and "\<forall>i j m. database_ok m \<longrightarrow> database_ok (world i j m)"
    and "parse_command (py_strip raw) = SetCommand"
    and "goal_command_call sha env s mid raw now clock world l = (Inr (CommandSuccess v), l')"
  shows "\<exists>m. database_ok m \<and>
    ((\<exists>k op. operation_key ''command'' s mid = Inr k \<and> receipt_at (env_owner env) k m op \<and> l' = m) \<or>
     starts_new_goal env s (py_strip raw) None m l')"
proof -
  let ?ob = "py_strip raw"
  have world: "\<And>i j m. database_ok m \<Longrightarrow> database_ok (world i j m)" using assms(4) by blast
  from assms(5,6) have ob: "normalize_objective ?ob = Inr ?ob"
    and run: "set_attempts sha env s mid ?ob now clock world 0 3 l = (Inr (CommandSuccess v), l')"
    by (auto simp: goal_command_call_def command_set_def normalize_objective_def Let_def split: if_split_asm)
  obtain i h m x where m: "database_ok m"
    and run: "apply_operation env (set_request sha s mid ?ob h (now i)) mid (clock i) (world i) m = (Inr x, l')"
    using set_attempts_success [where P = database_ok, OF run assms(1) world]
      sound_worlds [of world, OF world] by metis
  let ?rq = "set_request sha s mid ?ob h (now i)"
  have rq: "rq_session ?rq = s" "rq_kind ?rq = ''command''" "rq_head ?rq = Some h"
    by (simp_all add: set_request_def)
  have act: "rq_action ?rq = replace_complete ValueError
      (new_goal s (made_goal_id sha s ?ob mid) ?ob None h (now i)) (''goal set: '' @ ?ob)"
    by (simp add: set_request_def)
  obtain m' k where m': "database_ok m'" "operation_key (rq_kind ?rq) (rq_session ?rq) mid = Inr k"
    "done_before env ?rq k m' x l' \<or> done_now env ?rq m' x l'"
    using apply_operation_done [OF m requests_stamped(1) _ _ run] assms(2,3) world by blast
  from m'(3) show ?thesis
  proof
    assume "done_before env ?rq k m' x l'"
    then show ?thesis using m'(1,2) rq unfolding done_before_def by metis
  next
    assume "done_now env ?rq m' x l'"
    then show ?thesis using done_now_replaces [OF _ act rq(1,3) ob] m'(1) by blast
  qed
qed

section \<open>Updates by the model\<close>

definition updates_goal ::
  "tx_env \<Rightarrow> string \<Rightarrow> string \<Rightarrow> string \<Rightarrow> int \<Rightarrow> ledger \<Rightarrow> ledger \<Rightarrow> bool" where
  "updates_goal env s st gid version m l' \<longleftrightarrow>
     (\<exists>n g g' now. goal_view (env_owner env) m s = Some (n, g) \<and> int n = version \<and> goal_id g = gid \<and>
       goal_active g \<and> apply_model_update g st now = Inr g' \<and>
       goal_view (env_owner env) l' = (goal_view (env_owner env) m)(s \<mapsto> (Suc n, g'))) \<and>
     led_messages l' = led_messages m"

lemma change_goal_Inr:
  "change_goal e f t cur = Inr x \<longleftrightarrow> (\<exists>g g'. cur = Some g \<and> f g = Inr g' \<and> x = (Some g', t g'))"
  by (auto simp: change_goal_def attempt_eq_Inr split: option.splits)

lemma done_now_updates:
  assumes "done_now env (update_request sha s st gid version now) m x l'"
  shows "updates_goal env s st gid version m l'"
proof -
  let ?v = "goal_view (env_owner env) m s"
  have rq: "rq_session (update_request sha s st gid version now) = s"
    "rq_goal (update_request sha s st gid version now) = Some (gid, version)"
    "rq_action (update_request sha s st gid version now) = change_goal GoalConflict
       (\<lambda>g. apply_model_update g st now) (\<lambda>g. ''goal status: '' @ status_text_of (goal_status g))"
    by (simp_all add: update_request_def)
  note dn = assms [unfolded done_now_def rq]
  obtain n g where v: "?v = Some (n, g)" "gid = goal_id g" "version = int n"
    using dn by blast
  obtain g' where g': "apply_model_update g st now = Inr g'" "fst x = Some g'"
    using conjunct1 [OF dn] v(1) unfolding change_goal_Inr by auto
  have "goal_active g" using g'(1) by (simp add: apply_model_update_def split: if_split_asm)
  moreover have "goal_view (env_owner env) l' = (goal_view (env_owner env) m)(s \<mapsto> (Suc n, g'))"
    "led_messages l' = led_messages m"
    using dn v(1) g'(2) by (simp_all del: fun_upd_apply)
  ultimately show ?thesis unfolding updates_goal_def using v g'(1) by blast
qed

text \<open>
  The tool \<open>update_goal\<close> changes only the goal that the model has
  seen: when it succeeds, whatever other writers did since the call was prepared, its receipt was
  already there, or the Session's goal was active and still the one prepared, in identity and
  version, and it alone has changed, by the status asked for.
\<close>

theorem update_acts_on_the_goal_read:
  assumes "database_ok l" "stamp_ok now" "\<forall>j. stamp_ok (clock j)"
    and "\<forall>j m. database_ok m \<longrightarrow> database_ok (world j m)"
    and "up_goal a = Some gid" "up_version a = Some version"
    and "update_invoke sha env a key now clock world l = (Inr (ToolSuccess v), l')"
  shows "\<exists>m. database_ok m \<and>
    ((\<exists>k op. operation_key ''update'' (up_session a) key = Inr k \<and> receipt_at (env_owner env) k m op \<and> l' = m) \<or>
     updates_goal env (up_session a) (up_status a) gid version m l')"
proof -
  let ?rq = "update_request sha (up_session a) (up_status a) gid version now"
  from assms(5-7) obtain x where run: "apply_operation env ?rq key clock world l = (Inr x, l')"
    by (auto simp: update_invoke_def split: prod.splits sum.splits if_split_asm)
  obtain m k where m: "database_ok m" "operation_key (rq_kind ?rq) (rq_session ?rq) key = Inr k"
    "done_before env ?rq k m x l' \<or> done_now env ?rq m x l'"
    using apply_operation_done [OF assms(1) requests_stamped(3) _ _ run] assms(2-4) by blast
  have rq: "rq_session ?rq = up_session a" "rq_kind ?rq = ''update''" by (simp_all add: update_request_def)
  from m(3) show ?thesis
  proof
    assume "done_before env ?rq k m x l'"
    then show ?thesis using m(1,2) rq unfolding done_before_def by metis
  next
    assume "done_now env ?rq m x l'"
    then show ?thesis using done_now_updates m(1) by blast
  qed
qed

section \<open>Clearing\<close>

text \<open>
  Any of the words that clear removes the Session's goal and nothing else,
  unless the same command was carried out before.
\<close>

theorem clear_removes_goal:
  assumes "database_ok l" "\<forall>i j. stamp_ok (clock i j)"
    and "\<forall>i j m. database_ok m \<longrightarrow> database_ok (world i j m)"
    and "py_lower (py_strip raw) \<in> set clear_aliases"
    and "goal_command_call sha env s mid raw now clock world l = (Inr (CommandSuccess v), l')"
  shows "\<exists>m. database_ok m \<and>
    ((\<exists>k op. operation_key ''command'' s mid = Inr k \<and> receipt_at (env_owner env) k m op \<and> l' = m) \<or>
     goal_view (env_owner env) l' = (goal_view (env_owner env) m)(s := None) \<and>
     led_messages l' = led_messages m)"
proof -
  let ?rq = "clear_request sha s"
  have "py_strip raw \<noteq> []" using assms(4) by (auto simp: clear_aliases_def py_lower_def)
  then have "parse_command (py_strip raw) = ClearGoal" using assms(4) by (simp add: parse_command_def Let_def)
  then obtain x where run: "apply_operation env ?rq mid (clock 0) (world 0) l = (Inr x, l')"
    using assms(5) by (auto simp: goal_command_call_def command_clear_def Let_def split: prod.splits sum.splits)
  obtain m k where m: "database_ok m" "operation_key (rq_kind ?rq) (rq_session ?rq) mid = Inr k"
    "done_before env ?rq k m x l' \<or> done_now env ?rq m x l'"
    using apply_operation_done [OF assms(1) requests_stamped(7) _ _ run] assms(2,3) stamp_epoch by blast
  have rq: "rq_session ?rq = s" "rq_kind ?rq = ''command''" "rq_action ?rq = clear_action"
    by (simp_all add: clear_request_def)
  from m(3) show ?thesis
  proof
    assume "done_before env ?rq k m x l'"
    then show ?thesis using m(1,2) rq unfolding done_before_def by metis
  next
    assume d: "done_now env ?rq m x l'"
    then have "fst x = None" by (auto simp: done_now_def rq clear_action_def split: option.splits)
    then have "goal_view (env_owner env) l' = (goal_view (env_owner env) m)(s := None)"
      "led_messages l' = led_messages m"
      using d by (simp_all add: done_now_def rq del: fun_upd_apply)
    then show ?thesis using m(1) by blast
  qed
qed

section \<open>Budgets as text\<close>

definition is_digit :: "char \<Rightarrow> bool" where
  "is_digit c \<longleftrightarrow> decimal_value c \<noteq> None"

lemma is_digit_facts:
  assumes "is_digit c"
  shows "\<not> py_space c" "lower_char c = c" "c \<noteq> CHR ''-''" "c \<noteq> CHR ''+''" "c \<noteq> CHR ''c''"
proof -
  have "48 \<le> (of_char c :: nat)" "(of_char c :: nat) \<le> 57"
    using assms by (auto simp: is_digit_def decimal_value_def Let_def split: if_split_asm)
  then show "\<not> py_space c" "lower_char c = c" by (auto simp: py_space_def lower_char_def Let_def)
  show "c \<noteq> CHR ''-''" "c \<noteq> CHR ''+''" "c \<noteq> CHR ''c''"
    using assms by (auto simp: is_digit_def decimal_value_def)
qed

lemma digit_char_value: "decimal_value (digit_char d) = Some (int (d mod 10))"
  by (simp add: decimal_value_def Let_def)

lemma digit_char_is_digit: "is_digit (digit_char d)"
  unfolding is_digit_def digit_char_value by simp

lemma nat_text_digits: "\<forall>c \<in> set (nat_text n). is_digit c"
proof (induction n rule: nat_text.induct)
  case (1 n)
  then show ?case
    using digit_char_is_digit by (subst nat_text.simps) (auto simp del: digit_char.simps)
qed

lemma nat_text_nonempty [simp]: "nat_text n \<noteq> []"
  by (subst nat_text.simps) simp

lemma length_nat_text: "0 < k \<Longrightarrow> n < 10 ^ k \<Longrightarrow> length (nat_text n) \<le> k"
proof (induction k arbitrary: n)
  case (Suc k)
  show ?case
  proof (cases "n < 10")
    case False
    then have "n div 10 < 10 ^ k" using Suc.prems(2) by (auto simp: less_mult_imp_div_less mult.commute)
    moreover have "0 < k" using False Suc.prems(2) by (cases k) auto
    ultimately have "length (nat_text (n div 10)) \<le> k" using Suc.IH by blast
    then show ?thesis using False by (subst nat_text.simps) simp
  qed (subst nat_text.simps, simp)
qed simp

lemma read_digits_all:
  "\<forall>c \<in> set s. is_digit c \<Longrightarrow> read_digits acc s = Some (foldl (\<lambda>a c. 10 * a + the (decimal_value c)) acc s)"
  by (induction s arbitrary: acc) (auto simp: is_digit_def)

lemma read_digits_nat_text: "read_digits 0 (nat_text n) = Some (int n)"
proof (induction n rule: nat_text.induct)
  case (1 n)
  let ?f = "\<lambda>a c. 10 * a + the (decimal_value c)"
  show ?case
  proof (cases "n < 10")
    case True
    then show ?thesis by (subst nat_text.simps) (simp add: digit_char_value del: digit_char.simps)
  next
    case False
    have "foldl ?f 0 (nat_text (n div 10)) = int (n div 10)"
      using 1 [OF False] read_digits_all [OF nat_text_digits] by simp
    then have "foldl ?f 0 (nat_text n) = 10 * int (n div 10) + int (n mod 10)"
      using False by (subst nat_text.simps) (simp add: digit_char_value del: digit_char.simps)
    also have "\<dots> = int n" by (simp add: of_nat_mod of_nat_div)
    finally show ?thesis using read_digits_all [OF nat_text_digits] by simp
  qed
qed

lemma read_natural_nat_text:
  assumes "0 < k" "k \<le> 4300" "n < 10 ^ k"
  shows "read_natural (nat_text n) = Some (int n)"
proof -
  have "length (filter (\<lambda>d. decimal_value d \<noteq> None) (nat_text n)) \<le> 4300"
    by (rule le_trans [OF length_filter_le le_trans [OF length_nat_text [OF assms(1,3)] assms(2)]])
  moreover obtain c s where "nat_text n = c # s" using nat_text_nonempty by (metis list.exhaust)
  ultimately show ?thesis
    using nat_text_digits [of n] read_digits_nat_text [of n]
    by (auto simp: read_natural_def is_digit_def)
qed

text \<open>A word of digits has no white space.\<close>

lemma strip_digits: "\<forall>c \<in> set s. is_digit c \<Longrightarrow> py_strip s = s"
  using is_digit_facts(1) by (cases "s = []") (auto intro!: py_strip_id)

lemma lower_digits: "\<forall>c \<in> set s. is_digit c \<Longrightarrow> py_lower s = s"
  using is_digit_facts(2) by (auto simp: py_lower_def intro!: map_idI)

lemma py_words_one:
  assumes "s \<noteq> []" "\<forall>c \<in> set s. \<not> py_space c"
  shows "py_words s = [s]"
proof -

  have 1: "dropWhile py_space s = s" using assms by (cases s) auto
  have 2: "takeWhile (\<lambda>c. \<not> py_space c) s = s" using assms(2) by (simp add: takeWhile_eq_all_conv)
  have 3: "dropWhile (\<lambda>c. \<not> py_space c) s = []" using assms(2) by (simp add: dropWhile_eq_Nil_conv)
  have 4: "py_words [] = []" by (simp add: py_words.simps)
  show ?thesis using assms(1) by (subst py_words.simps) (simp add: Let_def 1 2 3 4 del: dropWhile_eq_Nil_conv)
qed

lemma py_words_budget:
  assumes "w \<noteq> []" "\<forall>c \<in> set w. \<not> py_space c"
  shows "py_words (''budget '' @ w) = [''budget'', w]"
proof -
  have "\<not> py_space CHR ''b''" "\<not> py_space CHR ''u''" "\<not> py_space CHR ''d''" "\<not> py_space CHR ''g''"
    "\<not> py_space CHR ''e''" "\<not> py_space CHR ''t''" "py_space CHR '' ''"
    by (simp_all add: py_space_def)
  then have "py_words (''budget '' @ w) = ''budget'' # py_words (CHR '' '' # w)"
    by (subst py_words.simps) (simp add: Let_def)
  also have "py_words (CHR '' '' # w) = py_words w"
    by (subst (1 2) py_words.simps) (simp add: \<open>py_space CHR '' ''\<close>)
  finally show ?thesis using py_words_one [OF assms] by simp
qed

text \<open>
  \<open>/goal budget N\<close> asks for the budget \<open>N\<close> for every budget a goal can have:
  the command is recognised and its argument, as the program prints it, is read back.
\<close>

theorem budget_read_back:
  assumes "normalize_token_budget (Some b) = Inr (Some b)"
  shows "parse_command (''budget '' @ int_text b) = BudgetCommand \<and>
    read_budget_words (''budget '' @ int_text b) = Inr (Some b)"
proof -
  have b: "0 < b" "b \<le> 100000000"
    using assms by (auto simp: normalize_token_budget_def max_token_budget_def split: if_split_asm)
  let ?w = "nat_text (nat b)"
  have w: "int_text b = ?w" using b(1) by (simp add: int_text_def)
  note digits = nat_text_digits [of "nat b"]
  have head: "hd ?w \<noteq> CHR ''-'' \<and> hd ?w \<noteq> CHR ''+'' \<and> hd ?w \<noteq> CHR ''c''"
    using digits is_digit_facts(3-5) by (metis hd_in_set nat_text_nonempty)
  have "nat b < 10 ^ 9" using b(2) by simp
  then have "read_natural ?w = Some b" using read_natural_nat_text [of 9 "nat b"] b(1) by simp
  then have int: "py_int ?w = Some b"
    using head strip_digits [OF digits] by (cases ?w) (auto simp: py_int_def)
  have "?w \<noteq> ''clear''" using head by auto
  moreover have "py_words (''budget '' @ ?w) = [''budget'', ?w]"
    using digits is_digit_facts(1) by (intro py_words_budget) auto
  ultimately have "read_budget_words (''budget '' @ ?w) = Inr (Some b)"
    using int assms by (simp add: read_budget_words_def strip_digits [OF digits] lower_digits [OF digits] Let_def
        del: append.simps)
  moreover have "py_lower (''budget '' @ ?w) = ''budget '' @ ?w"
    by (simp add: py_lower_def lower_char_def lower_digits [OF digits, unfolded py_lower_def])
  then have "parse_command (''budget '' @ ?w) = BudgetCommand"
    by (simp add: parse_command_def clear_aliases_def Let_def)
  ultimately show ?thesis using w by simp
qed

theorem budget_read_back_witness: "read_budget_words (''budget '' @ int_text 50000) = Inr (Some 50000)"
  using budget_read_back [of 50000] by (simp add: normalize_token_budget_def max_token_budget_def)

section \<open>Two findings\<close>

text \<open>The comment in the command says that only a whole input equal to a subcommand is one;
  an objective whose first word is \<open>budget\<close> is nevertheless refused.\<close>

theorem budget_objective_refused:
  "goal_command_call sha env s mid ''budget the trip'' now clock world l = (Inr CommandError, l)"
proof -
  have "py_strip ''budget the trip'' = ''budget the trip''" by code_simp
  moreover have "parse_command ''budget the trip'' = BudgetCommand" by code_simp
  moreover have "read_budget_words ''budget the trip'' = Inl ValueError" by code_simp
  ultimately show ?thesis by (simp add: goal_command_call_def command_budget_def Let_def)
qed

text \<open>The keys of receipts join Session and operation with a colon that both may contain, so
  that operations of two Sessions can share a key.\<close>

theorem operation_keys_collide:
  "operation_key ''command'' ''chat:1'' ''2'' = operation_key ''command'' ''chat'' ''1:2''"
  by (simp add: operation_key_def operation_kinds_def)

section \<open>Sample runs\<close>

definition sample_sha :: "string \<Rightarrow> string" where
  "sample_sha t = replicate 64 (CHR ''0'')"

lemma sample_digest [simp]: "digest_ok (goal_digest sample_sha v)"
  by (simp add: digest_ok_def goal_digest_def sample_sha_def list_all_iff)

definition sample_id :: string where
  "sample_id = made_goal_id sample_sha ''s'' ''x'' ''1''"

lemma sample_id_nonempty: "sample_id \<noteq> []"
  by (simp add: sample_id_def made_goal_id_def)

lemma sample_made:
  "\<exists>g. new_goal ''s'' (made_goal_id sample_sha ''s'' ''x'' ''1'') ''x'' None (-1) epoch = Inr g \<and>
     goal_session g = ''s'' \<and> storable g"
proof -
  obtain g where g: "new_goal ''s'' sample_id ''x'' None (-1) epoch = Inr g" "goal_session g = ''s''"
      "goal_created g = epoch" "goal_updated g = epoch" "goal_settled_id g = None"
      "goal_continuation g = None" "goal_reason g = None"
    by (auto simp: new_goal_def normalize_objective_def normalize_token_budget_def objective_max_def
        py_strip_def py_space_def sample_id_nonempty)
  then have "storable g" using new_goal_ok [OF g(1)] stamp_epoch by (simp add: storable_def)
  then show ?thesis using g unfolding sample_id_def by blast
qed

text \<open>A request on one of the two sample databases: the empty one and that with one goal.\<close>

lemma request_runs:
  assumes "database_ok l" "operation_key (rq_kind rq) (rq_session rq) oid = Inr k"
    and "\<And>k'. starts_with k' operation_prefix \<Longrightarrow> owner_look (env_owner env) l k' = None"
    and "decode_current (rq_session rq) (owner_look (env_owner env) l (goal_prefix @ rq_session rq)) = Inr cur"
    and "check_snapshot (rq_goal rq) (owner_look (env_owner env) l (goal_prefix @ rq_session rq)) cur = Inr ()"
    and "led_messages l = []" "rq_action rq cur = Inr (c, t)" "t \<noteq> []" "digest_ok (rq_digest rq)"
    and "\<And>g. c = Some g \<Longrightarrow> goal_session g = rq_session rq \<and> storable g"
  shows "\<exists>l'. apply_operation env rq oid (\<lambda>_. epoch) alone l = (Inr (c, t), l')"
proof -
  have ok: "owners_ok l" by (rule database_owners [OF assms(1)])
  have "receipt_keys (env_owner env) l = {}" using assms(3) by (auto simp: receipt_keys_def)
  then have stale: "stale_operations (env_owner env) 1 l = Inr []" using few_receipts [OF ok] by simp
  have k: "owner_look (env_owner env) l k = None" using operation_key_Inr [OF assms(2)] assms(3) by simp
  have head: "\<forall>h. rq_head rq = Some h \<longrightarrow> \<not> reader_source_changed l (rq_session rq) ''conversation'' h"
    using assms(6) by (simp add: reader_source_changed_def)
  obtain l' where "tx_gives env (apply_change rq k epoch []) l (c, t) l'"
    using apply_change_succeeds [OF ok assms(2) k assms(4,5,7,8,9) stamp_epoch assms(10) stale] by blast
  from apply_operation_first [where clock = "\<lambda>_. epoch", OF assms(2) stale apply_tx_fresh [OF ok k head this]]
  show ?thesis by blast
qed

lemma sample_operation_key:
  "kind \<in> set operation_kinds \<Longrightarrow> operation_key kind ''s'' ''1'' = Inr (operation_prefix @ kind @ '':s:1'')"
  by (simp add: operation_key_def)

lemma goal_ledger_receipts: "starts_with k operation_prefix \<Longrightarrow> owner_look ''goal'' goal_ledger k = None"
  by (auto simp: owner_look_def owner_row_of_def goal_ledger_def starts_with_iff)

lemma sample_head: "conversation_head s empty_ledger = -1"
  by (simp add: conversation_head_def reader_head_def empty_ledger_def)

lemma sample_empty: "led_messages empty_ledger = []" "led_messages goal_ledger = []"
  by (simp_all add: empty_ledger_def goal_ledger_def)

lemma sample_create:
  "\<exists>v l'. create_invoke sample_sha sample_env \<lparr>cr_session = ''s'', cr_objective = ''x'', cr_budget = None\<rparr> ''1''
     (\<lambda>_. epoch) (\<lambda>_ _. epoch) (\<lambda>_. alone) empty_ledger = (Inr (ToolSuccess v), l')"
proof -
  let ?a = "\<lparr>cr_session = ''s'', cr_objective = ''x'', cr_budget = None\<rparr>"
  let ?rq = "goal_create_request sample_sha ?a ''1'' (-1) epoch"
  obtain g where g: "new_goal ''s'' (made_goal_id sample_sha ''s'' ''x'' ''1'') ''x'' None (-1) epoch = Inr g"
    "goal_session g = ''s''" "storable g" using sample_made by blast
  have "\<exists>l'. apply_operation sample_env ?rq ''1'' (\<lambda>_. epoch) alone empty_ledger =
      (Inr (Some g, ''goal created: x''), l')"
    by (rule request_runs [OF database_ok_empty, where cur = None])
      (use g in \<open>simp_all add: goal_create_request_def sample_operation_key operation_kinds_def decode_current_def
        check_snapshot_def replace_complete_def sample_empty\<close>)
  then show ?thesis
    by (auto simp: create_invoke_def numeral_3_eq_3 sample_head applied_result_def)
qed

lemma sample_set:
  "\<exists>v l'. goal_command_call sample_sha sample_env ''s'' ''1'' '' x ''
     (\<lambda>_. epoch) (\<lambda>_ _. epoch) (\<lambda>_. alone) empty_ledger = (Inr (CommandSuccess v), l')"
proof -
  let ?rq = "set_request sample_sha ''s'' ''1'' ''x'' (-1) epoch"
  obtain g where g: "new_goal ''s'' (made_goal_id sample_sha ''s'' ''x'' ''1'') ''x'' None (-1) epoch = Inr g"
    "goal_session g = ''s''" "storable g" using sample_made by blast
  have run: "\<exists>l'. apply_operation sample_env ?rq ''1'' (\<lambda>_. epoch) alone empty_ledger =
      (Inr (Some g, ''goal set: x''), l')"
    by (rule request_runs [OF database_ok_empty, where cur = None])
      (use g in \<open>simp_all add: set_request_def sample_operation_key operation_kinds_def decode_current_def
        check_snapshot_def replace_complete_def sample_empty\<close>)
  have raw: "py_strip '' x '' = ''x''" "parse_command ''x'' = SetCommand" "normalize_objective ''x'' = Inr ''x''"
    by code_simp+
  show ?thesis
    using run by (auto simp: goal_command_call_def command_set_def raw numeral_3_eq_3 sample_head with_status_def Let_def)
qed

lemma sample_current:
  "decode_current ''s'' (owner_look ''goal'' goal_ledger (goal_prefix @ ''s'')) = Inr (Some fresh_goal)"
  "check_snapshot (Some (''g1'', 0)) (owner_look ''goal'' goal_ledger (goal_prefix @ ''s'')) (Some fresh_goal) = Inr ()"
  by (simp_all add: goal_ledger_look decode_current_def goal_ledger_decode check_snapshot_def fresh_goal_facts
      del: json_norm.simps)

lemma sample_update:
  "\<exists>v l'. update_invoke sample_sha sample_env \<lparr>up_session = ''s'', up_status = ''complete'',
     up_goal = Some ''g1'', up_version = Some 0\<rparr> ''1'' epoch (\<lambda>_. epoch) alone goal_ledger =
     (Inr (ToolSuccess v), l')"
proof -
  let ?rq = "update_request sample_sha ''s'' ''complete'' ''g1'' 0 epoch"
  let ?g = "stop_goal epoch CompleteGoal ''goal complete'' fresh_goal"
  have up: "apply_model_update fresh_goal ''complete'' epoch = Inr ?g"
    using fresh_goal_facts by (simp add: apply_model_update_def)
  have ok: "goal_session ?g = ''s''" "storable ?g"
    using stop_goal_ok [of fresh_goal CompleteGoal] fresh_session storable_fresh stamp_epoch
    by (auto simp: storable_def) (simp_all add: stop_goal_def)
  have "\<exists>l'. apply_operation sample_env ?rq ''1'' (\<lambda>_. epoch) alone goal_ledger =
      (Inr (Some ?g, ''goal status: complete''), l')"
    by (rule request_runs [OF goal_ledger_ok, where cur = "Some fresh_goal"])
      (use up ok in \<open>simp_all add: update_request_def sample_operation_key operation_kinds_def
        sample_current change_goal_def sample_empty sample_env_simps goal_ledger_receipts stop_goal_def\<close>)
  then show ?thesis by (auto simp: update_invoke_def applied_result_def)
qed

lemma sample_clear:
  "\<exists>v l'. goal_command_call sample_sha sample_env ''s'' ''1'' ''Stop''
     (\<lambda>_. epoch) (\<lambda>_ _. epoch) (\<lambda>_. alone) goal_ledger = (Inr (CommandSuccess v), l')"
proof -
  let ?rq = "clear_request sample_sha ''s''"
  have run: "\<exists>l'. apply_operation sample_env ?rq ''1'' (\<lambda>_. epoch) alone goal_ledger =
      (Inr (None, ''goal cleared: '' @ goal_objective fresh_goal), l')"
    by (rule request_runs [OF goal_ledger_ok, where cur = "Some fresh_goal"])
      (simp_all add: clear_request_def sample_operation_key operation_kinds_def
        sample_current check_snapshot_def clear_action_def sample_empty sample_env_simps goal_ledger_receipts)
  have raw: "py_strip ''Stop'' = ''Stop''" "parse_command ''Stop'' = ClearGoal" by code_simp+
  show ?thesis using run by (auto simp: goal_command_call_def command_clear_def raw Let_def)
qed

section \<open>Witnesses\<close>


theorem set_replaces_complete_witness:
  "\<exists>v l' m. goal_command_call sample_sha sample_env ''s'' ''1'' '' x ''
     (\<lambda>_. epoch) (\<lambda>_ _. epoch) (\<lambda>_. alone) empty_ledger = (Inr (CommandSuccess v), l') \<and> database_ok m \<and>
     ((\<exists>k op. operation_key ''command'' ''s'' ''1'' = Inr k \<and> receipt_at ''goal'' k m op \<and> l' = m) \<or>
      starts_new_goal sample_env ''s'' ''x'' None m l')"
proof -
  obtain v l' where run: "goal_command_call sample_sha sample_env ''s'' ''1'' '' x ''
     (\<lambda>_. epoch) (\<lambda>_ _. epoch) (\<lambda>_. alone) empty_ledger = (Inr (CommandSuccess v), l')" using sample_set by blast
  have raw: "py_strip '' x '' = ''x''" "parse_command ''x'' = SetCommand" by code_simp+
  show ?thesis
    using set_replaces_complete [OF database_ok_empty _ _ _ _ run] run
    by (auto simp: stamp_epoch alone_def sample_env_simps raw)
qed

theorem update_acts_on_the_goal_read_witness:
  "\<exists>v l' m. update_invoke sample_sha sample_env \<lparr>up_session = ''s'', up_status = ''complete'',
     up_goal = Some ''g1'', up_version = Some 0\<rparr> ''1'' epoch (\<lambda>_. epoch) alone goal_ledger =
     (Inr (ToolSuccess v), l') \<and> database_ok m \<and>
     ((\<exists>k op. operation_key ''update'' ''s'' ''1'' = Inr k \<and> receipt_at ''goal'' k m op \<and> l' = m) \<or>
      updates_goal sample_env ''s'' ''complete'' ''g1'' 0 m l')"
proof -
  obtain v l' where run: "update_invoke sample_sha sample_env \<lparr>up_session = ''s'', up_status = ''complete'',
     up_goal = Some ''g1'', up_version = Some 0\<rparr> ''1'' epoch (\<lambda>_. epoch) alone goal_ledger =
     (Inr (ToolSuccess v), l')" using sample_update by blast
  show ?thesis
    using update_acts_on_the_goal_read [OF goal_ledger_ok stamp_epoch _ _ _ _ run] run
    by (auto simp: stamp_epoch alone_def sample_env_simps)
qed

theorem clear_removes_goal_witness:
  "\<exists>v l' m. goal_command_call sample_sha sample_env ''s'' ''1'' ''Stop''
     (\<lambda>_. epoch) (\<lambda>_ _. epoch) (\<lambda>_. alone) goal_ledger = (Inr (CommandSuccess v), l') \<and> database_ok m \<and>
     ((\<exists>k op. operation_key ''command'' ''s'' ''1'' = Inr k \<and> receipt_at ''goal'' k m op \<and> l' = m) \<or>
      goal_view ''goal'' l' = (goal_view ''goal'' m)(''s'' := None) \<and> led_messages l' = led_messages m)"
proof -
  obtain v l' where run: "goal_command_call sample_sha sample_env ''s'' ''1'' ''Stop''
     (\<lambda>_. epoch) (\<lambda>_ _. epoch) (\<lambda>_. alone) goal_ledger = (Inr (CommandSuccess v), l')" using sample_clear by blast
  have raw: "py_lower (py_strip ''Stop'') \<in> set clear_aliases" by code_simp
  show ?thesis
    using clear_removes_goal [OF goal_ledger_ok _ _ raw run] run
    by (auto simp: stamp_epoch alone_def sample_env_simps)
qed

end
