(* ===== verification/Delivery_Store.thy ===== *)
theory Delivery_Store
  imports Iso_Time
begin

text \<open>
  \<open>DurableDeliveryStore\<close> of \<open>plugins/ledger/durable_delivery_store.py\<close>: one SQLite table of
  delivery envelopes, each with a state that only moves forward. A database file is the
  version, the objects of its schema and the rows of the table; every public operation is
  one immediate transaction, so operations of several processes follow one another. A lock
  that SQLite does not grant in time is not modelled.

  Metadata and receipts are JSON trees; their stored text (\<open>sort_keys=True\<close>) is
  represented by the tree with sorted keys.
\<close>

section \<open>The database file\<close>

datatype delivery_state = DPrepared | DStarted | DDelivered | DProjected | DSettled | DRejected | DFailed

record delivery =
  dl_id :: string
  dl_session :: string
  dl_turn :: string
  dl_target :: string
  dl_channel :: string
  dl_recipient :: string
  dl_projection :: string
  dl_body :: string
  dl_metadata :: json
  dl_state :: delivery_state
  dl_attempt :: "string option"
  dl_snapshot :: "string option"
  dl_generation :: "string option"
  dl_binding :: "string option"
  dl_receipt :: "json option"
  dl_message :: "string option"
  dl_domain :: "string option"
  dl_created :: moment
  dl_updated :: moment

record sql_object =
  so_type :: string
  so_name :: string
  so_sql :: "string option"

record delivery_db =
  db_version :: int
  db_objects :: "sql_object list"
  db_rows :: "delivery list"

text \<open>\<open>None\<close> is a file that does not exist.\<close>

type_synonym delivery_file = "delivery_db option"

definition empty_db :: delivery_db where
  "empty_db = \<lparr>db_version = 0, db_objects = [], db_rows = []\<rparr>"

definition delivery_schema_version :: int where "delivery_schema_version = 2"

definition delivery_table_sql :: string where
  "delivery_table_sql = join_text [CHR 10]
    [''CREATE TABLE deliveries('',
     ''    logical_delivery_id TEXT PRIMARY KEY,'',
     ''    accepted_session_id TEXT NOT NULL,'',
     ''    accepted_turn_id TEXT NOT NULL,'',
     ''    target_service TEXT NOT NULL,'',
     ''    channel TEXT NOT NULL,'',
     ''    recipient TEXT NOT NULL,'',
     ''    projection_session_id TEXT NOT NULL,'',
     ''    body TEXT NOT NULL,'',
     ''    metadata_json TEXT NOT NULL,'',
     ''    state TEXT NOT NULL CHECK(state IN ('',
     ''        'prepared', 'provider_started', 'delivered', 'projected', 'settled','',
     ''        'rejected', 'failed'' @ [CHR 0x27],
     ''    )),'',
     ''    attempt_id TEXT,'',
     ''    snapshot_id TEXT,'',
     ''    generation_id TEXT,'',
     ''    binding_token TEXT,'',
     ''    provider_receipt_json TEXT,'',
     ''    projection_message_id TEXT,'',
     ''    domain_receipt TEXT,'',
     ''    created_at TEXT NOT NULL,'',
     ''    updated_at TEXT NOT NULL,'',
     ''    UNIQUE(accepted_session_id, accepted_turn_id)'',
     '')'']"

definition delivery_index_sql :: string where
  "delivery_index_sql = join_text [CHR 10]
    [''CREATE INDEX idx_deliveries_recoverable'',
     ''ON deliveries(state, created_at, logical_delivery_id)'']"

text \<open>\<open>name NOT LIKE 'sqlite_%'\<close>: case-insensitive, and \<open>_\<close> stands for any character.\<close>

definition sqlite_name :: "string \<Rightarrow> bool" where
  "sqlite_name n \<longleftrightarrow> length n > 6 \<and> py_lower (take 6 n) = ''sqlite''"

definition normalize_sql :: "string \<Rightarrow> string" where
  "normalize_sql sql = join_text '' '' (py_words sql)"

definition validate_schema_admission :: "delivery_db \<Rightarrow> unit res" where
  "validate_schema_admission d =
     (if db_version d = delivery_schema_version then Inr ()
      else if db_version d \<noteq> 0 then Inl RuntimeError
      else if filter (\<lambda>x. \<not> sqlite_name (so_name x)) (db_objects d) \<noteq> [] then Inl RuntimeError
      else Inr ())"

definition create_schema :: "delivery_db \<Rightarrow> delivery_db" where
  "create_schema d = d\<lparr>db_version := delivery_schema_version, db_rows := [],
     db_objects := db_objects d @
       [\<lparr>so_type = ''table'', so_name = ''deliveries'', so_sql = Some delivery_table_sql\<rparr>,
        \<lparr>so_type = ''index'', so_name = ''sqlite_autoindex_deliveries_1'', so_sql = None\<rparr>,
        \<lparr>so_type = ''index'', so_name = ''sqlite_autoindex_deliveries_2'', so_sql = None\<rparr>,
        \<lparr>so_type = ''index'', so_name = ''idx_deliveries_recoverable'', so_sql = Some delivery_index_sql\<rparr>]\<rparr>"

definition ensure_schema :: "delivery_db \<Rightarrow> delivery_db res" where
  "ensure_schema d =
     (if db_version d \<noteq> 0 \<and> db_version d \<noteq> delivery_schema_version then Inl RuntimeError
      else if db_version d = delivery_schema_version then Inr d
      else attempt (validate_schema_admission d) (\<lambda>_. Inr (create_schema d)))"

definition validate_schema :: "delivery_db \<Rightarrow> unit res" where
  "validate_schema d =
     (let tables = filter (\<lambda>x. so_type x = ''table'' \<and> \<not> sqlite_name (so_name x)) (db_objects d);
          indexes = filter (\<lambda>x. so_type x = ''index'' \<and> so_sql x \<noteq> None) (db_objects d) in
      if db_version d \<noteq> delivery_schema_version then Inl RuntimeError
      else if map (\<lambda>x. (so_name x, map_option normalize_sql (so_sql x))) tables \<noteq>
          [(''deliveries'', Some (normalize_sql delivery_table_sql))] then Inl RuntimeError
      else if map (\<lambda>x. (so_name x, so_sql x)) indexes \<noteq>
          [(''idx_deliveries_recoverable'', Some delivery_index_sql)] then Inl RuntimeError
      else Inr ())"

section \<open>Transactions\<close>

text \<open>\<open>_transaction\<close>: a read-only store opens an existing file for reading and rolls back;
  otherwise the schema is ensured and the work committed, or all of it rolled back.\<close>


definition delivery_tx ::
  "bool \<Rightarrow> bool \<Rightarrow> (delivery_db \<Rightarrow> ('a \<times> delivery_db) res) \<Rightarrow> delivery_file \<Rightarrow> 'a res \<times> delivery_file" where
  "delivery_tx read_only write work f =
     (if write \<and> read_only then (Inl PermissionError, f)
      else if read_only then (case f of
          None \<Rightarrow> (Inl OperationalError, None)
        | Some d \<Rightarrow> (map_sum id fst (work d), Some d))
      else
        let d = (case f of None \<Rightarrow> empty_db | Some d \<Rightarrow> d) in
        (case attempt (validate_schema_admission d) (\<lambda>_. attempt (ensure_schema d) work) of
           Inl e \<Rightarrow> (Inl e, Some d)
         | Inr (x, d') \<Rightarrow> (Inr x, Some d')))"

text \<open>Statements on the table: they fail where it does not exist.\<close>

definition on_table ::
  "(delivery list \<Rightarrow> ('a \<times> delivery list) res) \<Rightarrow> delivery_db \<Rightarrow> ('a \<times> delivery_db) res" where
  "on_table work d =
     (if \<not> list_ex (\<lambda>x. so_type x = ''table'' \<and> so_name x = ''deliveries'') (db_objects d)
      then Inl OperationalError
      else attempt (work (db_rows d)) (\<lambda>(x, rows). Inr (x, d\<lparr>db_rows := rows\<rparr>)))"

definition find_delivery :: "string \<Rightarrow> delivery list \<Rightarrow> delivery option" where
  "find_delivery lid rows = find (\<lambda>r. dl_id r = lid) rows"

definition required :: "string \<Rightarrow> delivery list \<Rightarrow> delivery res" where
  "required lid rows = (case find_delivery lid rows of None \<Rightarrow> Inl RuntimeError | Some r \<Rightarrow> Inr r)"

text \<open>\<open>UPDATE \<dots> WHERE\<close>: the table and the number of rows changed.\<close>

definition update_where ::
  "(delivery \<Rightarrow> bool) \<Rightarrow> (delivery \<Rightarrow> delivery) \<Rightarrow> delivery list \<Rightarrow> nat \<times> delivery list" where
  "update_where sel upd rows = (length (filter sel rows), map (\<lambda>r. if sel r then upd r else r) rows)"

text \<open>The moves of one delivery: exactly one row has to be in the state that the move starts from.\<close>

definition move ::
  "string \<Rightarrow> (delivery \<Rightarrow> bool) \<Rightarrow> (delivery \<Rightarrow> delivery) \<Rightarrow> delivery list \<Rightarrow> (delivery \<times> delivery list) res" where
  "move lid pre upd rows =
     (let (n, rows') = update_where (\<lambda>r. dl_id r = lid \<and> pre r) upd rows in
      if n \<noteq> 1 then Inl RuntimeError
      else attempt (required lid rows') (\<lambda>r. Inr (r, rows')))"

section \<open>Checked input\<close>

definition check_identity :: "string \<Rightarrow> string res" where
  "check_identity v = (if v = [] \<or> py_strip v \<noteq> v then Inl ValueError else Inr v)"

definition field_identity :: "(string \<times> json) list \<Rightarrow> string \<Rightarrow> string res" where
  "field_identity kvs name = (case map_of kvs name of
     Some (JStr v) \<Rightarrow> check_identity v | _ \<Rightarrow> Inl ValueError)"

text \<open>\<open>_normalize_envelope\<close>: the row to insert, in state \<open>prepared\<close>.\<close>

definition envelope_metadata :: "(string \<times> json) list \<Rightarrow> json res" where
  "envelope_metadata kvs = (case map_of kvs ''metadata'' of
     Some (JObj metadata) \<Rightarrow> Inr (json_norm (JObj metadata)) | _ \<Rightarrow> Inl ValueError)"

definition envelope_body :: "(string \<times> json) list \<Rightarrow> string res" where
  "envelope_body kvs = (case map_of kvs ''body'' of
     Some (JStr b) \<Rightarrow> if b = [] then Inl ValueError else Inr b | _ \<Rightarrow> Inl ValueError)"

definition normalize_envelope :: "moment \<Rightarrow> (string \<times> json) list \<Rightarrow> delivery res" where
  "normalize_envelope now kvs =
     attempt (envelope_metadata kvs) (\<lambda>metadata.
     attempt (field_identity kvs ''logical_delivery_id'') (\<lambda>lid.
     attempt (field_identity kvs ''accepted_session_id'') (\<lambda>session.
     attempt (field_identity kvs ''accepted_turn_id'') (\<lambda>turn.
     attempt (field_identity kvs ''target_service'') (\<lambda>target.
     attempt (field_identity kvs ''channel'') (\<lambda>channel.
     attempt (field_identity kvs ''recipient'') (\<lambda>recipient.
     attempt (field_identity kvs ''projection_session_id'') (\<lambda>projection.
     attempt (envelope_body kvs) (\<lambda>b.
       Inr \<lparr>dl_id = lid, dl_session = session, dl_turn = turn, dl_target = target,
         dl_channel = channel, dl_recipient = recipient, dl_projection = projection, dl_body = b,
         dl_metadata = metadata, dl_state = DPrepared, dl_attempt = None, dl_snapshot = None,
         dl_generation = None, dl_binding = None, dl_receipt = None, dl_message = None,
         dl_domain = None, dl_created = now, dl_updated = now\<rparr>)))))))))"

section \<open>The operations\<close>

definition initialize :: "bool \<Rightarrow> (delivery_db \<Rightarrow> bool) \<Rightarrow> delivery_file \<Rightarrow> unit res \<times> delivery_file" where
  "initialize ro intact = delivery_tx ro (\<not> ro) (\<lambda>d.
     attempt (validate_schema d) (\<lambda>_. attempt (fail_if (\<not> intact d) RuntimeError) (\<lambda>_. Inr ((), d))))"

definition kirakira_channel :: string where "kirakira_channel = ''akashic''"

definition interrupted_receipt :: json where
  "interrupted_receipt = json_norm (JObj [(''status'', JStr ''failed''),
     (''error'', JStr ''provider call interrupted; delivery may have occurred'')])"

definition recover_interrupted_provider_calls ::
  "bool \<Rightarrow> moment \<Rightarrow> delivery_file \<Rightarrow> nat res \<times> delivery_file" where
  "recover_interrupted_provider_calls ro now = delivery_tx ro True (on_table (\<lambda>rows. Inr (
     update_where (\<lambda>r. dl_state r = DStarted \<and> dl_channel r \<noteq> kirakira_channel)
       (\<lambda>r. r\<lparr>dl_state := DFailed, dl_receipt := Some interrupted_receipt, dl_updated := now\<rparr>) rows)))"

definition recovered_receipt :: "string \<Rightarrow> json" where
  "recovered_receipt lid = json_norm (JObj [(''delivery_id'', JStr lid), (''status'', JStr ''delivered''),
     (''recovered_from'', JStr ''session'')])"

definition mark_akashic_session_recovered ::
  "bool \<Rightarrow> moment \<Rightarrow> string \<Rightarrow> string \<Rightarrow> delivery_file \<Rightarrow> delivery res \<times> delivery_file" where
  "mark_akashic_session_recovered ro now lid mid f =
     (case attempt (check_identity lid) (\<lambda>_. check_identity mid) of
        Inl e \<Rightarrow> (Inl e, f)
      | Inr _ \<Rightarrow> delivery_tx ro True (on_table (move lid
          (\<lambda>r. dl_state r = DStarted \<and> dl_channel r = kirakira_channel)
          (\<lambda>r. r\<lparr>dl_state := DProjected, dl_receipt := Some (recovered_receipt lid),
            dl_message := Some mid, dl_updated := now\<rparr>))) f)"

definition lookup_identity :: "delivery \<Rightarrow> delivery list \<Rightarrow> delivery option res" where
  "lookup_identity e rows =
     (case filter (\<lambda>r. dl_id r = dl_id e \<or> dl_session r = dl_session e \<and> dl_turn r = dl_turn e) rows of
        [] \<Rightarrow> Inr None
      | [r] \<Rightarrow> Inr (Some r)
      | _ \<Rightarrow> Inl RuntimeError)"

definition same_envelope :: "delivery \<Rightarrow> delivery \<Rightarrow> bool" where
  "same_envelope r e \<longleftrightarrow> dl_id r = dl_id e \<and> dl_session r = dl_session e \<and> dl_turn r = dl_turn e \<and>
     dl_target r = dl_target e \<and> dl_channel r = dl_channel e \<and> dl_recipient r = dl_recipient e \<and>
     dl_projection r = dl_projection e \<and> dl_body r = dl_body e \<and> dl_metadata r = dl_metadata e"

text \<open>The constraints of the table: the primary key and the accepted Turn are unique.\<close>

definition insert_delivery :: "delivery \<Rightarrow> delivery list \<Rightarrow> delivery list res" where
  "insert_delivery e rows =
     (if list_ex (\<lambda>r. dl_id r = dl_id e \<or> dl_session r = dl_session e \<and> dl_turn r = dl_turn e) rows
      then Inl IntegrityError else Inr (rows @ [e]))"

definition prepare_delivery ::
  "bool \<Rightarrow> moment \<Rightarrow> (string \<times> json) list \<Rightarrow> delivery_file \<Rightarrow> delivery res \<times> delivery_file" where
  "prepare_delivery ro now kvs f = (case normalize_envelope now kvs of
     Inl e \<Rightarrow> (Inl e, f)
   | Inr e \<Rightarrow> delivery_tx ro True (on_table (\<lambda>rows.
       attempt (lookup_identity e rows) (\<lambda>existing. case existing of
         Some r \<Rightarrow> if \<not> same_envelope r e then Inl RuntimeError else Inr (r, rows)
       | None \<Rightarrow> attempt (insert_delivery e rows) (\<lambda>rows'.
           attempt (required (dl_id e) rows') (\<lambda>r. Inr (r, rows')))))) f)"

text \<open>The channel binding that is about to do the external work.\<close>

record binding_attempt =
  ba_attempt :: string
  ba_snapshot :: string
  ba_generation :: string
  ba_binding :: string

definition mark_provider_started ::
  "bool \<Rightarrow> moment \<Rightarrow> string \<Rightarrow> binding_attempt \<Rightarrow> delivery_file \<Rightarrow> delivery res \<times> delivery_file" where
  "mark_provider_started ro now lid a f =
     (case run_checks (\<lambda>v. attempt (check_identity v) (\<lambda>_. Inr ()))
         [lid, ba_attempt a, ba_snapshot a, ba_generation a, ba_binding a] of
        Inl e \<Rightarrow> (Inl e, f)
      | Inr _ \<Rightarrow> delivery_tx ro True (on_table (move lid (\<lambda>r. dl_state r = DPrepared)
          (\<lambda>r. r\<lparr>dl_state := DStarted, dl_attempt := Some (ba_attempt a), dl_snapshot := Some (ba_snapshot a),
            dl_generation := Some (ba_generation a), dl_binding := Some (ba_binding a),
            dl_updated := now\<rparr>))) f)"

definition rejected_receipt :: "string \<Rightarrow> json" where
  "rejected_receipt reason = json_norm (JObj [(''status'', JStr ''rejected''), (''error'', JStr reason),
     (''provider_started'', JBool False)])"

definition cancel_prepared ::
  "bool \<Rightarrow> moment \<Rightarrow> string \<Rightarrow> string \<Rightarrow> delivery_file \<Rightarrow> delivery res \<times> delivery_file" where
  "cancel_prepared ro now lid reason f =
     (case attempt (check_identity lid) (\<lambda>_. check_identity reason) of
        Inl e \<Rightarrow> (Inl e, f)
      | Inr _ \<Rightarrow> delivery_tx ro True (on_table (move lid (\<lambda>r. dl_state r = DPrepared)
          (\<lambda>r. r\<lparr>dl_state := DRejected, dl_receipt := Some (rejected_receipt reason), dl_updated := now\<rparr>))) f)"

definition mark_provider_result ::
  "bool \<Rightarrow> moment \<Rightarrow> string \<Rightarrow> delivery_state \<Rightarrow> (string \<times> json) list \<Rightarrow> delivery_file \<Rightarrow>
   delivery res \<times> delivery_file" where
  "mark_provider_result ro now lid st receipt f =
     (if st \<notin> {DDelivered, DRejected, DFailed} then (Inl ValueError, f)
      else case check_identity lid of
        Inl e \<Rightarrow> (Inl e, f)
      | Inr _ \<Rightarrow> delivery_tx ro True (on_table (move lid (\<lambda>r. dl_state r = DStarted)
          (\<lambda>r. r\<lparr>dl_state := st, dl_receipt := Some (json_norm (JObj receipt)), dl_updated := now\<rparr>))) f)"

definition mark_projected ::
  "bool \<Rightarrow> moment \<Rightarrow> string \<Rightarrow> string \<Rightarrow> delivery_file \<Rightarrow> delivery res \<times> delivery_file" where
  "mark_projected ro now lid mid f =
     (case attempt (check_identity lid) (\<lambda>_. check_identity mid) of
        Inl e \<Rightarrow> (Inl e, f)
      | Inr _ \<Rightarrow> delivery_tx ro True (on_table (move lid (\<lambda>r. dl_state r = DDelivered)
          (\<lambda>r. r\<lparr>dl_state := DProjected, dl_message := Some mid, dl_updated := now\<rparr>))) f)"

definition confirm_settled ::
  "bool \<Rightarrow> moment \<Rightarrow> string \<Rightarrow> string \<Rightarrow> delivery_file \<Rightarrow> delivery res \<times> delivery_file" where
  "confirm_settled ro now lid receipt f =
     (case attempt (check_identity lid) (\<lambda>_. check_identity receipt) of
        Inl e \<Rightarrow> (Inl e, f)
      | Inr _ \<Rightarrow> delivery_tx ro True (on_table (\<lambda>rows.
          attempt (required lid rows) (\<lambda>r.
            if dl_state r = DSettled
            then (if dl_domain r \<noteq> Some receipt then Inl RuntimeError else Inr (r, rows))
            else move lid (\<lambda>r. dl_state r = DProjected)
              (\<lambda>r. r\<lparr>dl_state := DSettled, dl_domain := Some receipt, dl_updated := now\<rparr>) rows))) f)"

definition lookup_delivery ::
  "bool \<Rightarrow> string \<Rightarrow> string \<Rightarrow> delivery_file \<Rightarrow> delivery option res \<times> delivery_file" where
  "lookup_delivery ro session turn f =
     (case attempt (check_identity session) (\<lambda>_. check_identity turn) of
        Inl e \<Rightarrow> (Inl e, f)
      | Inr _ \<Rightarrow> delivery_tx ro False (on_table (\<lambda>rows.
          Inr (find (\<lambda>r. dl_session r = session \<and> dl_turn r = turn) rows, rows))) f)"

text \<open>\<open>_FORWARD_PROGRESS_SQL\<close>: what can be completed without repeating an external effect.\<close>

definition forward_progress :: "delivery \<Rightarrow> bool" where
  "forward_progress r \<longleftrightarrow> dl_state r \<in> {DPrepared, DDelivered, DProjected} \<or>
     dl_state r = DStarted \<and> dl_channel r = kirakira_channel"

definition recoverable :: "bool \<Rightarrow> delivery_file \<Rightarrow> delivery list res \<times> delivery_file" where
  "recoverable ro = delivery_tx ro False (on_table (\<lambda>rows.
     Inr (sort_key (\<lambda>r. [iso_text (dl_created r), dl_id r]) (filter forward_progress rows), rows)))"

end
