(* ===== verification/Delivery_Flow.thy ===== *)
theory Delivery_Flow
  imports Delivery_Store
begin

text \<open>
  \<open>PluginDurableDeliveries\<close> of \<open>plugins/ledger/durable_deliveries.py\<close>: the order of the
  provider call, the projection into a Session and the settlement around the store. The sender
  and the projector are parameters: a sender is whatever it does with the callback that
  commits its binding attempt; the projector returns the identity of the Session message.
  Between two steps of a submission other writers may act on the file (\<open>world\<close>); within one
  process a lock keeps submissions apart. Each store operation reads the clock.
\<close>

section \<open>Requests and views\<close>

record delivery_request =
  dr_id :: string
  dr_session :: string
  dr_turn :: string
  dr_target :: string
  dr_channel :: string
  dr_recipient :: string
  dr_projection :: string
  dr_body :: string
  dr_metadata :: "(string \<times> json) list"

text \<open>The checks of \<open>DurableDeliveryRequest.__post_init__\<close>.\<close>

definition validate_message_delivery_id :: "string \<Rightarrow> string res" where
  "validate_message_delivery_id v = (if v = [] \<or> length v > 128 then Inl ValueError else Inr v)"

definition check_request :: "delivery_request \<Rightarrow> delivery_request res" where
  "check_request q =
     attempt (validate_message_delivery_id (dr_id q)) (\<lambda>_.
     attempt (run_checks (\<lambda>v. fail_if (v = [] \<or> py_strip v \<noteq> v) ValueError)
       [dr_target q, dr_channel q, dr_recipient q, dr_projection q]) (\<lambda>_.
     attempt (fail_if (dr_body q = []) ValueError) (\<lambda>_. Inr q)))"

definition request_envelope :: "delivery_request \<Rightarrow> (string \<times> json) list" where
  "request_envelope q =
     [(''logical_delivery_id'', JStr (dr_id q)), (''accepted_session_id'', JStr (dr_session q)),
      (''accepted_turn_id'', JStr (dr_turn q)), (''target_service'', JStr (dr_target q)),
      (''channel'', JStr (dr_channel q)), (''recipient'', JStr (dr_recipient q)),
      (''projection_session_id'', JStr (dr_projection q)), (''body'', JStr (dr_body q)),
      (''metadata'', JObj (dr_metadata q))]"

text \<open>\<open>_view\<close>: a row with its texts checked, its receipt in the present form.\<close>

definition row_text :: "string \<Rightarrow> unit res" where
  "row_text v = fail_if (v = []) RuntimeError"

definition row_optional_text :: "string option \<Rightarrow> unit res" where
  "row_optional_text v = (case v of None \<Rightarrow> Inr () | Some t \<Rightarrow> row_text t)"

definition public_receipt :: "json option \<Rightarrow> json option res" where
  "public_receipt receipt = (case receipt of
     None \<Rightarrow> Inr None
   | Some (JObj kvs) \<Rightarrow> Inr (Some (JObj (if map_of kvs ''status'' = Some (JStr ''unknown'')
       then map (\<lambda>(k, v). if k = ''status'' then (k, JStr ''failed'') else (k, v)) kvs else kvs)))
   | Some _ \<Rightarrow> Inl RuntimeError)"

definition view_delivery :: "delivery \<Rightarrow> delivery res" where
  "view_delivery r =
     attempt (case dl_metadata r of JObj _ \<Rightarrow> Inr () | _ \<Rightarrow> Inl RuntimeError) (\<lambda>_.
     attempt (public_receipt (dl_receipt r)) (\<lambda>receipt.
     attempt (run_checks row_text [dl_id r, dl_session r, dl_turn r, dl_target r, dl_channel r,
       dl_recipient r, dl_projection r, dl_body r]) (\<lambda>_.
     attempt (run_checks row_optional_text [dl_attempt r, dl_snapshot r, dl_generation r, dl_binding r,
       dl_message r, dl_domain r]) (\<lambda>_.
     Inr (r\<lparr>dl_receipt := receipt\<rparr>)))))"

text \<open>\<open>_request\<close>: the request that a view came from.\<close>

definition view_request :: "delivery \<Rightarrow> delivery_request res" where
  "view_request v = check_request
     \<lparr>dr_id = dl_id v, dr_session = dl_session v, dr_turn = dl_turn v, dr_target = dl_target v,
      dr_channel = dl_channel v, dr_recipient = dl_recipient v, dr_projection = dl_projection v,
      dr_body = dl_body v, dr_metadata = (case dl_metadata v of JObj kvs \<Rightarrow> kvs | _ \<Rightarrow> [])\<rparr>"

section \<open>Sending\<close>

datatype delivery_status = StatusDelivered | StatusRejected | StatusFailed

record channel_receipt =
  rc_delivery :: string
  rc_status :: delivery_status
  rc_providers :: "string list"
  rc_error :: "string option"

fun status_word :: "delivery_status \<Rightarrow> string" where
  "status_word StatusDelivered = ''delivered''"
| "status_word StatusRejected = ''rejected''"
| "status_word StatusFailed = ''failed''"

fun result_state :: "delivery_status \<Rightarrow> delivery_state" where
  "result_state StatusDelivered = DDelivered"
| "result_state StatusRejected = DRejected"
| "result_state StatusFailed = DFailed"

definition receipt_value :: "channel_receipt \<Rightarrow> (string \<times> json) list" where
  "receipt_value c =
     [(''delivery_id'', JStr (rc_delivery c)), (''status'', JStr (status_word (rc_status c))),
      (''provider_ids'', JArr (map JStr (rc_providers c))),
      (''error'', case rc_error c of None \<Rightarrow> JNull | Some t \<Rightarrow> JStr t)]"

text \<open>What a sender does: it calls \<open>mark_started\<close> any number of times, goes on with the
  outcome of each call, and returns a receipt or raises.\<close>

datatype sender =
    Receives channel_receipt
  | Breaks py_error
  | Starts binding_attempt "unit res \<Rightarrow> sender"

record delivery_env =
  de_clock :: "nat \<Rightarrow> moment"
  de_world :: "nat \<Rightarrow> delivery_file \<Rightarrow> delivery_file"

text \<open>Running the sender: the number of calls so far, whether one of them succeeded, and the
  attempts that were committed, which are those allowed to reach the provider.\<close>

primrec run_sender ::
  "delivery_env \<Rightarrow> bool \<Rightarrow> string \<Rightarrow> sender \<Rightarrow> nat \<Rightarrow> binding_attempt list \<Rightarrow> delivery_file \<Rightarrow>
   channel_receipt res \<times> nat \<times> binding_attempt list \<times> delivery_file" where
  "run_sender env ro lid (Receives c) n ok f = (Inr c, n, ok, de_world env n f)"
| "run_sender env ro lid (Breaks e) n ok f = (Inl e, n, ok, de_world env n f)"
| "run_sender env ro lid (Starts a k) n ok f =
     (case mark_provider_started ro (de_clock env n) lid a (de_world env n f) of
        (Inl e, f') \<Rightarrow> run_sender env ro lid (k (Inl e)) (Suc n) ok f'
      | (Inr _, f') \<Rightarrow> run_sender env ro lid (k (Inr ())) (Suc n) (ok @ [a]) f')"

definition broken_receipt :: "(string \<times> json) list" where
  "broken_receipt = [(''status'', JStr ''failed''), (''error'', JStr ''provider call interrupted'')]"

definition send_delivery ::
  "delivery_env \<Rightarrow> bool \<Rightarrow> sender \<Rightarrow> delivery_request \<Rightarrow> nat \<Rightarrow> delivery_file \<Rightarrow>
   delivery res \<times> nat \<times> binding_attempt list \<times> delivery_file" where
  "send_delivery env ro s q n f =
     (case run_sender env ro (dr_id q) s n [] f of
        (Inl e, n', started, f') \<Rightarrow>
          if started = [] then (Inl e, n', started, f')
          else (case mark_provider_result ro (de_clock env n') (dr_id q) DFailed broken_receipt f' of
              (Inl e', f'') \<Rightarrow> (Inl e', Suc n', started, f'')
            | (Inr _, f'') \<Rightarrow> (Inl e, Suc n', started, f''))
      | (Inr c, n', started, f') \<Rightarrow>
          if started = [] then (Inl RuntimeError, n', started, f')
          else (case mark_provider_result ro (de_clock env n') (dr_id q) (result_state (rc_status c))
              (receipt_value c) f' of
            (r, f'') \<Rightarrow> (r, Suc n', started, f'')))"

section \<open>Submissions\<close>

text \<open>The three stages of \<open>_submit_owned\<close> after the row is there: each acts in one state of
  the row it is given and passes every other row on.\<close>

definition send_stage ::
  "delivery_env \<Rightarrow> bool \<Rightarrow> sender \<Rightarrow> delivery_request \<Rightarrow> delivery \<Rightarrow> delivery_file \<Rightarrow>
   delivery res \<times> nat \<times> binding_attempt list \<times> delivery_file" where
  "send_stage env ro s q row f =
     (if dl_state row = DPrepared then send_delivery env ro s q 1 f else (Inr row, 1, [], f))"

definition recover_stage ::
  "delivery_env \<Rightarrow> bool \<Rightarrow> (delivery_request \<Rightarrow> string res) \<Rightarrow> delivery_request \<Rightarrow> nat \<Rightarrow> delivery \<Rightarrow>
   delivery_file \<Rightarrow> delivery res \<times> delivery_file" where
  "recover_stage env ro projector q n row f =
     (if dl_state row = DStarted \<and> dr_channel q = kirakira_channel
      then (case projector q of
          Inl e \<Rightarrow> (Inl e, de_world env n f)
        | Inr mid \<Rightarrow> mark_akashic_session_recovered ro (de_clock env n) (dr_id q) mid (de_world env n f))
      else (Inr row, f))"

definition project_stage ::
  "delivery_env \<Rightarrow> bool \<Rightarrow> (delivery_request \<Rightarrow> string res) \<Rightarrow> delivery_request \<Rightarrow> nat \<Rightarrow> delivery \<Rightarrow>
   delivery_file \<Rightarrow> delivery res \<times> delivery_file" where
  "project_stage env ro projector q n row f =
     (if dl_state row = DDelivered
      then (case projector q of
          Inl e \<Rightarrow> (Inl e, de_world env n f)
        | Inr mid \<Rightarrow> mark_projected ro (de_clock env n) (dr_id q) mid (de_world env n f))
      else (Inr row, f))"

text \<open>\<open>_submit_owned\<close>: it answers with the view of the row, and the model also with the
  attempts it committed.\<close>

definition submit ::
  "delivery_env \<Rightarrow> bool \<Rightarrow> (delivery_request \<Rightarrow> sender) \<Rightarrow> (delivery_request \<Rightarrow> string res) \<Rightarrow>
   delivery_request \<Rightarrow> delivery_file \<Rightarrow> delivery res \<times> binding_attempt list \<times> delivery_file" where
  "submit env ro sender_of projector q f =
     (case prepare_delivery ro (de_clock env 0) (request_envelope q) (de_world env 0 f) of
        (Inl e, f1) \<Rightarrow> (Inl e, [], f1)
      | (Inr row, f1) \<Rightarrow> (case send_stage env ro (sender_of q) q row f1 of
        (Inl e, n, started, f2) \<Rightarrow> (Inl e, started, f2)
      | (Inr row2, n, started, f2) \<Rightarrow> (case recover_stage env ro projector q n row2 f2 of
        (Inl e, f3) \<Rightarrow> (Inl e, started, f3)
      | (Inr row3, f3) \<Rightarrow> (case project_stage env ro projector q (Suc n) row3 f3 of
        (r, f4) \<Rightarrow> (attempt r view_delivery, started, f4)))))"

section \<open>The other services\<close>

definition lookup_view :: "bool \<Rightarrow> string \<Rightarrow> string \<Rightarrow> delivery_file \<Rightarrow> delivery option res \<times> delivery_file" where
  "lookup_view ro session turn f = (case lookup_delivery ro session turn f of
     (r, f') \<Rightarrow> (attempt r (\<lambda>row. case row of
        None \<Rightarrow> Inr None | Some d \<Rightarrow> attempt (view_delivery d) (\<lambda>v. Inr (Some v))), f'))"

definition recoverable_views :: "bool \<Rightarrow> delivery_file \<Rightarrow> delivery list res \<times> delivery_file" where
  "recoverable_views ro f = (case recoverable ro f of
     (r, f') \<Rightarrow> (attempt r (traverse view_delivery), f'))"

definition resume_delivery ::
  "delivery_env \<Rightarrow> bool \<Rightarrow> (delivery_request \<Rightarrow> sender) \<Rightarrow> (delivery_request \<Rightarrow> string res) \<Rightarrow>
   string \<Rightarrow> string \<Rightarrow> delivery_file \<Rightarrow> delivery res \<times> binding_attempt list \<times> delivery_file" where
  "resume_delivery env ro sender_of projector session turn f =
     (case lookup_view ro session turn f of
        (Inl e, f1) \<Rightarrow> (Inl e, [], f1)
      | (Inr None, f1) \<Rightarrow> (Inl KeyError, [], f1)
      | (Inr (Some v), f1) \<Rightarrow> (case view_request v of
            Inl e \<Rightarrow> (Inl e, [], f1)
          | Inr q \<Rightarrow> submit env ro sender_of projector q f1))"

definition cancel_delivery ::
  "bool \<Rightarrow> moment \<Rightarrow> string \<Rightarrow> string \<Rightarrow> string \<Rightarrow> delivery_file \<Rightarrow> delivery res \<times> delivery_file" where
  "cancel_delivery ro now session turn reason f =
     (case lookup_view ro session turn f of
        (Inl e, f1) \<Rightarrow> (Inl e, f1)
      | (Inr None, f1) \<Rightarrow> (Inl KeyError, f1)
      | (Inr (Some v), f1) \<Rightarrow> (case cancel_prepared ro now (dl_id v) reason f1 of
          (r, f2) \<Rightarrow> (attempt r view_delivery, f2)))"

definition settle_delivery ::
  "bool \<Rightarrow> moment \<Rightarrow> string \<Rightarrow> string \<Rightarrow> delivery_file \<Rightarrow> delivery res \<times> delivery_file" where
  "settle_delivery ro now settlement_ref receipt f = (case confirm_settled ro now settlement_ref receipt f of
     (r, f') \<Rightarrow> (attempt r view_delivery, f'))"

text \<open>Opening the service: the store is validated and interrupted calls are frozen.\<close>

definition open_deliveries ::
  "bool \<Rightarrow> (delivery_db \<Rightarrow> bool) \<Rightarrow> bool \<Rightarrow> moment \<Rightarrow> delivery_file \<Rightarrow> unit res \<times> delivery_file" where
  "open_deliveries ro intact recover_started now f = (case initialize ro intact f of
     (Inl e, f1) \<Rightarrow> (Inl e, f1)
   | (Inr _, f1) \<Rightarrow> if recover_started
       then (case recover_interrupted_provider_calls ro now f1 of
         (Inl e, f2) \<Rightarrow> (Inl e, f2) | (Inr _, f2) \<Rightarrow> (Inr (), f2))
       else (Inr (), f1))"

end
