(* ===== verification/Delivery_Properties.thy ===== *)
theory Delivery_Properties
  imports Delivery_Flow
begin

text \<open>
  The life of a delivery. \<open>row_step\<close> is the state machine of one row and \<open>rows_step\<close> that of
  the table; every operation of the store is shown to be a step of it, and every service a
  sequence of steps. What holds of all runs follows by induction over the steps.
\<close>

section \<open>The state machine\<close>

inductive row_step :: "delivery \<Rightarrow> delivery \<Rightarrow> bool" where
  row_start: "dl_state r = DPrepared \<Longrightarrow> row_step r (r\<lparr>dl_state := DStarted, dl_attempt := Some a,
    dl_snapshot := Some b, dl_generation := Some c, dl_binding := Some d, dl_updated := t\<rparr>)"
| row_cancel: "dl_state r = DPrepared \<Longrightarrow>
    row_step r (r\<lparr>dl_state := DRejected, dl_receipt := Some v, dl_updated := t\<rparr>)"
| row_result: "dl_state r = DStarted \<Longrightarrow> st \<in> {DDelivered, DRejected, DFailed} \<Longrightarrow>
    row_step r (r\<lparr>dl_state := st, dl_receipt := Some v, dl_updated := t\<rparr>)"
| row_recovered: "dl_state r = DStarted \<Longrightarrow> dl_channel r = kirakira_channel \<Longrightarrow>
    row_step r (r\<lparr>dl_state := DProjected, dl_receipt := Some v, dl_message := Some mid, dl_updated := t\<rparr>)"
| row_projected: "dl_state r = DDelivered \<Longrightarrow>
    row_step r (r\<lparr>dl_state := DProjected, dl_message := Some mid, dl_updated := t\<rparr>)"
| row_settled: "dl_state r = DProjected \<Longrightarrow>
    row_step r (r\<lparr>dl_state := DSettled, dl_domain := Some v, dl_updated := t\<rparr>)"

inductive_cases row_step_cases: "row_step r r'"

definition fresh_row :: "delivery \<Rightarrow> bool" where
  "fresh_row e \<longleftrightarrow> dl_state e = DPrepared \<and> dl_attempt e = None \<and> dl_snapshot e = None \<and>
     dl_generation e = None \<and> dl_binding e = None \<and> dl_receipt e = None \<and> dl_message e = None \<and>
     dl_domain e = None"

definition same_turn :: "delivery \<Rightarrow> delivery \<Rightarrow> bool" where
  "same_turn r e \<longleftrightarrow> dl_session r = dl_session e \<and> dl_turn r = dl_turn e"

inductive rows_step :: "delivery list \<Rightarrow> delivery list \<Rightarrow> bool" where
  rows_insert: "fresh_row e \<Longrightarrow> \<forall>r \<in> set rows. dl_id r \<noteq> dl_id e \<and> \<not> same_turn r e \<Longrightarrow>
    rows_step rows (rows @ [e])"
| rows_change: "list_all2 (\<lambda>r r'. r' = r \<or> row_step r r') rows rows' \<Longrightarrow> rows_step rows rows'"

abbreviation rows_run :: "delivery list \<Rightarrow> delivery list \<Rightarrow> bool" where
  "rows_run \<equiv> rows_step\<^sup>*\<^sup>*"

definition rows_of :: "delivery_file \<Rightarrow> delivery list" where
  "rows_of f = (case f of None \<Rightarrow> []
     | Some d \<Rightarrow> if db_version d = delivery_schema_version then db_rows d else [])"

lemma rows_step_refl [simp]: "rows_step rows rows"
  by (rule rows_change) (simp add: list_all2_same)

section \<open>Operations are steps\<close>

lemma ensure_schema_Inr:
  assumes "validate_schema_admission d = Inr u" "ensure_schema d = Inr d'"
  shows "db_version d' = delivery_schema_version" "db_rows d' = rows_of (Some d)"
  using assms
  by (auto simp: ensure_schema_def rows_of_def create_schema_def delivery_schema_version_def attempt_eq_Inr
      split: if_split_asm)

lemma on_table_Inr:
  assumes "on_table work d = Inr (x, d')"
  shows "db_version d' = db_version d" "work (db_rows d) = Inr (x, db_rows d')"
  using assms by (auto simp: on_table_def attempt_eq_Inr split: if_split_asm)

text \<open>What a successful write transaction did, and that nothing else changes the rows.\<close>

lemma delivery_tx_Inr:
  assumes "delivery_tx ro True (on_table work) f = (Inr x, f')"
  shows "\<not> ro" "work (rows_of f) = Inr (x, rows_of f')"
proof -
  let ?d = "case f of None \<Rightarrow> empty_db | Some d \<Rightarrow> d"
  show ro: "\<not> ro" using assms by (auto simp: delivery_tx_def)
  then obtain d1 d2 where d: "validate_schema_admission ?d = Inr ()" "ensure_schema ?d = Inr d1"
      "on_table work d1 = Inr (x, d2)" "f' = Some d2"
    using assms by (auto simp: delivery_tx_def Let_def attempt_eq_Inr split: sum.splits)
  have "rows_of (Some ?d) = rows_of f"
    by (cases f) (simp_all add: rows_of_def empty_db_def delivery_schema_version_def)
  then show "work (rows_of f) = Inr (x, rows_of f')"
    using ensure_schema_Inr [OF d(1,2)] on_table_Inr [OF d(3)] d(4) by (simp add: rows_of_def)
qed

lemma delivery_tx_Inl:
  assumes "delivery_tx ro write work f = (Inl e, f')"
  shows "rows_of f' = rows_of f"
  using assms
  by (auto simp: delivery_tx_def Let_def rows_of_def empty_db_def delivery_schema_version_def
      split: if_split_asm option.splits sum.splits)


lemma delivery_tx_read:
  assumes "\<And>rows x rows'. work rows = Inr (x, rows') \<Longrightarrow> rows' = rows"
    and "delivery_tx ro False (on_table work) f = (r, f')"
  shows "rows_of f' = rows_of f"
proof (cases r)
  case (Inl e)
  then show ?thesis using delivery_tx_Inl assms(2) by blast
next
  case (Inr x)
  show ?thesis
  proof (cases ro)
    case True
    then show ?thesis using assms(2) by (auto simp: delivery_tx_def split: option.splits)
  next
    case False
    then have "delivery_tx ro True (on_table work) f = (Inr x, f')"
      using assms(2) Inr by (simp add: delivery_tx_def)
    then show ?thesis using delivery_tx_Inr(2) assms(1) by metis
  qed
qed

lemma move_Inr:
  assumes "move lid pre upd rows = Inr (r, rows')" "\<And>x. dl_id (upd x) = dl_id x"
  shows "\<exists>x. filter (\<lambda>r. dl_id r = lid \<and> pre r) rows = [x] \<and> rows' = map (\<lambda>r. if dl_id r = lid \<and> pre r then upd r else r) rows \<and>
    find_delivery lid rows' = Some r \<and> dl_id r = lid"
proof -
  let ?sel = "\<lambda>r. dl_id r = lid \<and> pre r"
  have n: "length (filter ?sel rows) = 1" and rows': "rows' = map (\<lambda>r. if ?sel r then upd r else r) rows"
    and r: "required lid rows' = Inr r"
    using assms(1) by (auto simp: move_def update_where_def attempt_eq_Inr split: if_split_asm)
  obtain x where "filter ?sel rows = [x]" using n by (auto simp: length_Suc_conv)
  moreover have "find_delivery lid rows' = Some r" using r by (auto simp: required_def split: option.splits)
  then have "find_delivery lid rows' = Some r \<and> dl_id r = lid" by (auto simp: find_delivery_def find_Some_iff)
  ultimately show ?thesis using rows' by blast
qed

lemma map_step:
  assumes "\<And>r. r \<in> set rows \<Longrightarrow> sel r \<Longrightarrow> row_step r (upd r)"
  shows "rows_step rows (map (\<lambda>r. if sel r then upd r else r) rows)"
  by (rule rows_change) (use assms in \<open>auto simp: list_all2_conv_all_nth\<close>)

lemma move_step:
  assumes "move lid pre upd rows = Inr (r, rows')" "\<And>x. dl_id (upd x) = dl_id x"
    and "\<And>x. pre x \<Longrightarrow> row_step x (upd x)"
  shows "rows_step rows rows'"
  using move_Inr [OF assms(1,2)] map_step [of rows "\<lambda>r. dl_id r = lid \<and> pre r" upd] assms(3) by auto

text \<open>A move in a transaction: it starts in a row of the state it needs and changes that row.\<close>

lemma move_tx_step:
  assumes "delivery_tx ro True (on_table (move lid pre upd)) f = (r, f')"
    and "\<And>x. dl_id (upd x) = dl_id x" "\<And>x. pre x \<Longrightarrow> row_step x (upd x)"
  shows "rows_step (rows_of f) (rows_of f')"
proof (cases r)
  case (Inr y)
  then show ?thesis
    using delivery_tx_Inr(2) [of ro "move lid pre upd" f y f'] move_step [of lid pre upd _ y] assms by simp
qed (use delivery_tx_Inl assms(1) in fastforce)

lemma prepared_row_fresh: "normalize_envelope now kvs = Inr e \<Longrightarrow> fresh_row e"
  by (auto simp: normalize_envelope_def fresh_row_def attempt_eq_Inr)

lemma insert_delivery_step:
  "insert_delivery e rows = Inr rows' \<Longrightarrow> fresh_row e \<Longrightarrow> rows_step rows rows' \<and> rows' = rows @ [e]"
  by (auto simp: insert_delivery_def list_ex_iff same_turn_def split: if_split_asm intro!: rows_insert)

lemma prepare_step:
  assumes "prepare_delivery ro now kvs f = (r, f')"
  shows "rows_step (rows_of f) (rows_of f')"
proof (cases "normalize_envelope now kvs")
  case (Inr e)
  note fresh = prepared_row_fresh [OF Inr]
  show ?thesis
  proof (cases r)
    case (Inr y)
    then have "attempt (lookup_identity e (rows_of f)) (\<lambda>existing. case existing of
        Some r \<Rightarrow> if \<not> same_envelope r e then Inl RuntimeError else Inr (r, rows_of f)
      | None \<Rightarrow> attempt (insert_delivery e (rows_of f)) (\<lambda>rows'.
          attempt (required (dl_id e) rows') (\<lambda>r. Inr (r, rows')))) = Inr (y, rows_of f')"
      using assms \<open>normalize_envelope now kvs = Inr e\<close>
      by (intro delivery_tx_Inr(2)) (simp add: prepare_delivery_def)
    then show ?thesis
      using insert_delivery_step [OF _ fresh] by (auto simp: attempt_eq_Inr split: option.splits if_split_asm)
  next
    case (Inl err)
    then show ?thesis
      using assms \<open>normalize_envelope now kvs = Inr e\<close> delivery_tx_Inl
      by (fastforce simp: prepare_delivery_def)
  qed
qed (use assms in \<open>simp add: prepare_delivery_def\<close>)

lemma recover_step:
  assumes "recover_interrupted_provider_calls ro now f = (r, f')"
  shows "rows_step (rows_of f) (rows_of f')"
proof (cases r)
  case (Inr n)
  let ?upd = "\<lambda>r. r\<lparr>dl_state := DFailed, dl_receipt := Some interrupted_receipt, dl_updated := now\<rparr>"
  have "update_where (\<lambda>r. dl_state r = DStarted \<and> dl_channel r \<noteq> kirakira_channel) ?upd (rows_of f) = (n, rows_of f')"
    using delivery_tx_Inr(2) [OF assms [unfolded recover_interrupted_provider_calls_def Inr]] by simp
  then have "rows_of f' = map (\<lambda>r. if dl_state r = DStarted \<and> dl_channel r \<noteq> kirakira_channel then ?upd r else r) (rows_of f)"
    by (simp add: update_where_def)
  then show ?thesis
    using map_step [of "rows_of f" "\<lambda>r. dl_state r = DStarted \<and> dl_channel r \<noteq> kirakira_channel" ?upd]
      row_result [of _ DFailed] by simp
qed (use delivery_tx_Inl assms in \<open>fastforce simp: recover_interrupted_provider_calls_def\<close>)

lemma akashic_recovered_step:
  assumes "mark_akashic_session_recovered ro now lid mid f = (r, f')"
  shows "rows_step (rows_of f) (rows_of f')"
  using assms move_tx_step [where pre = "\<lambda>r. dl_state r = DStarted \<and> dl_channel r = kirakira_channel"
      and upd = "\<lambda>r. r\<lparr>dl_state := DProjected, dl_receipt := Some (recovered_receipt lid),
        dl_message := Some mid, dl_updated := now\<rparr>"]
  by (auto simp: mark_akashic_session_recovered_def row_recovered split: sum.splits)

lemma provider_started_step:
  assumes "mark_provider_started ro now lid a f = (r, f')"
  shows "rows_step (rows_of f) (rows_of f')"
  using assms move_tx_step [where pre = "\<lambda>r. dl_state r = DPrepared"
      and upd = "\<lambda>r. r\<lparr>dl_state := DStarted, dl_attempt := Some (ba_attempt a), dl_snapshot := Some (ba_snapshot a),
            dl_generation := Some (ba_generation a), dl_binding := Some (ba_binding a), dl_updated := now\<rparr>"]
  by (auto simp: mark_provider_started_def row_start split: sum.splits)

lemma cancel_step:
  assumes "cancel_prepared ro now lid reason f = (r, f')"
  shows "rows_step (rows_of f) (rows_of f')"
  using assms move_tx_step [where pre = "\<lambda>r. dl_state r = DPrepared"
      and upd = "\<lambda>r. r\<lparr>dl_state := DRejected, dl_receipt := Some (rejected_receipt reason), dl_updated := now\<rparr>"]
  by (auto simp: cancel_prepared_def row_cancel split: sum.splits)

lemma provider_result_step:
  assumes "mark_provider_result ro now lid st receipt f = (r, f')"
  shows "rows_step (rows_of f) (rows_of f')"
  using assms move_tx_step [where pre = "\<lambda>r. dl_state r = DStarted"
      and upd = "\<lambda>r. r\<lparr>dl_state := st, dl_receipt := Some (json_norm (JObj receipt)), dl_updated := now\<rparr>"]
  by (auto simp: mark_provider_result_def row_result simp del: json_norm.simps split: sum.splits if_split_asm)

lemma projected_step:
  assumes "mark_projected ro now lid mid f = (r, f')"
  shows "rows_step (rows_of f) (rows_of f')"
  using assms move_tx_step [where pre = "\<lambda>r. dl_state r = DDelivered"
      and upd = "\<lambda>r. r\<lparr>dl_state := DProjected, dl_message := Some mid, dl_updated := now\<rparr>"]
  by (auto simp: mark_projected_def row_projected split: sum.splits)

lemma confirm_step:
  assumes "confirm_settled ro now lid receipt f = (r, f')"
  shows "rows_step (rows_of f) (rows_of f')"
proof (cases "attempt (check_identity lid) (\<lambda>_. check_identity receipt)")
  case (Inr u)
  let ?upd = "\<lambda>r. r\<lparr>dl_state := DSettled, dl_domain := Some receipt, dl_updated := now\<rparr>"
  let ?work = "\<lambda>rows. attempt (required lid rows) (\<lambda>r.
    if dl_state r = DSettled then (if dl_domain r \<noteq> Some receipt then Inl RuntimeError else Inr (r, rows))
    else move lid (\<lambda>r. dl_state r = DProjected) ?upd rows)"
  have tx: "delivery_tx ro True (on_table ?work) f = (r, f')"
    using assms Inr by (simp add: confirm_settled_def)
  show ?thesis
  proof (cases r)
    case (Inr y)
    have "?work (rows_of f) = Inr (y, rows_of f')" using delivery_tx_Inr(2) [OF tx [unfolded Inr]] .
    then show ?thesis
      using move_step [of lid "\<lambda>r. dl_state r = DProjected" ?upd "rows_of f" y "rows_of f'"]
      by (auto simp: attempt_eq_Inr row_settled split: if_split_asm)
  qed (use delivery_tx_Inl tx in fastforce)
qed (use assms in \<open>simp add: confirm_settled_def\<close>)

lemma lookup_step:
  "lookup_delivery ro session turn f = (r, f') \<Longrightarrow> rows_of f' = rows_of f"
  by (auto simp: lookup_delivery_def split: sum.splits intro: delivery_tx_read [rotated])

lemma recoverable_step: "recoverable ro f = (r, f') \<Longrightarrow> rows_of f' = rows_of f"
  unfolding recoverable_def by (rule delivery_tx_read [rotated]) auto

lemma initialize_step:
  assumes "initialize ro intact f = (r, f')"
  shows "rows_of f' = rows_of f"
proof (cases r)
  case (Inl e)
  then show ?thesis using assms delivery_tx_Inl unfolding initialize_def by blast
next
  case (Inr x)
  let ?d = "case f of None \<Rightarrow> empty_db | Some d \<Rightarrow> d"
  show ?thesis
  proof (cases ro)
    case True
    then show ?thesis using assms by (auto simp: initialize_def delivery_tx_def split: option.splits)
  next
    case False
    then obtain d1 where d: "validate_schema_admission ?d = Inr ()" "ensure_schema ?d = Inr d1" "f' = Some d1"
      using assms Inr by (auto simp: initialize_def delivery_tx_def Let_def attempt_eq_Inr split: sum.splits)
    have "rows_of (Some ?d) = rows_of f"
      by (cases f) (simp_all add: rows_of_def empty_db_def delivery_schema_version_def)
    then show ?thesis using ensure_schema_Inr [OF d(1,2)] d(3) by (simp add: rows_of_def)
  qed
qed

lemmas store_steps = prepare_step recover_step akashic_recovered_step provider_started_step cancel_step
  provider_result_step projected_step confirm_step

section \<open>Services are runs\<close>

text \<open>What holds between the tables before and after every step, and composes, holds between
  the tables before and after every service, when it holds of what other writers do.\<close>

lemma submit_cases:
  assumes "submit env ro sender_of projector q f = (r, started, f')"
  obtains (unprepared) e where
      "prepare_delivery ro (de_clock env 0) (request_envelope q) (de_world env 0 f) = (Inl e, f')"
      "r = Inl e" "started = []"
  | (unsent) row f1 e n where
      "prepare_delivery ro (de_clock env 0) (request_envelope q) (de_world env 0 f) = (Inr row, f1)"
      "send_stage env ro (sender_of q) q row f1 = (Inl e, n, started, f')" "r = Inl e"
  | (unrecovered) row f1 row2 n f2 e where
      "prepare_delivery ro (de_clock env 0) (request_envelope q) (de_world env 0 f) = (Inr row, f1)"
      "send_stage env ro (sender_of q) q row f1 = (Inr row2, n, started, f2)"
      "recover_stage env ro projector q n row2 f2 = (Inl e, f')" "r = Inl e"
  | (projecting) row f1 row2 n f2 row3 f3 x where
      "prepare_delivery ro (de_clock env 0) (request_envelope q) (de_world env 0 f) = (Inr row, f1)"
      "send_stage env ro (sender_of q) q row f1 = (Inr row2, n, started, f2)"
      "recover_stage env ro projector q n row2 f2 = (Inr row3, f3)"
      "project_stage env ro projector q (Suc n) row3 f3 = (x, f')" "r = attempt x view_delivery"
  using assms by (auto simp: submit_def split: prod.splits sum.splits)

definition world_in :: "(delivery list \<Rightarrow> delivery list \<Rightarrow> bool) \<Rightarrow> delivery_env \<Rightarrow> bool" where
  "world_in R env \<longleftrightarrow> (\<forall>n f. R (rows_of f) (rows_of (de_world env n f)))"

locale run_relation =
  fixes R :: "delivery list \<Rightarrow> delivery list \<Rightarrow> bool"
  assumes run_refl: "R rows rows"
    and run_trans: "R rows1 rows2 \<Longrightarrow> R rows2 rows3 \<Longrightarrow> R rows1 rows3"
    and run_step: "rows_step rows rows' \<Longrightarrow> R rows rows'"
begin

lemma run_all: "rows_run rows rows' \<Longrightarrow> R rows rows'"
  by (induction rule: rtranclp_induct) (auto intro: run_refl run_trans run_step)

lemma world_all: "world_in rows_run env \<Longrightarrow> world_in R env"
  using run_all by (auto simp: world_in_def)

lemma world: "world_in R env \<Longrightarrow> R (rows_of f) (rows_of (de_world env n f))"
  by (simp add: world_in_def)

lemma world_then: "world_in R env \<Longrightarrow> rows_step (rows_of (de_world env n f)) rows' \<Longrightarrow> R (rows_of f) rows'"
  using world run_trans run_step by blast

lemma run_sender_keeps:
  assumes "world_in R env"
  shows "run_sender env ro lid s n ok f = (r, n', ok', f') \<Longrightarrow> R (rows_of f) (rows_of f')"
proof (induction s arbitrary: n ok f)
  case (Starts a k)
  obtain x f1 where x: "mark_provider_started ro (de_clock env n) lid a (de_world env n f) = (x, f1)" by force
  have "R (rows_of f) (rows_of f1)" using world_then [OF assms provider_started_step [OF x]] .
  moreover have "R (rows_of f1) (rows_of f')"
    using Starts.prems x Starts.IH [OF rangeI] by (cases x) auto
  ultimately show ?case using run_trans by blast
qed (use world [OF assms] in auto)

lemma send_keeps:
  assumes "world_in R env" "send_delivery env ro s q n f = (r, n', started, f')"
  shows "R (rows_of f) (rows_of f')"
proof -
  obtain x n1 st f1 where run: "run_sender env ro (dr_id q) s n [] f = (x, n1, st, f1)" by (metis prod_cases4)
  note 1 = run_sender_keeps [OF assms(1) run]
  have "f' = f1 \<or> rows_step (rows_of f1) (rows_of f')"
    using assms(2) run
    by (auto simp: send_delivery_def dest: provider_result_step split: sum.splits if_split_asm prod.splits)
  then show ?thesis using 1 run_step run_trans by blast
qed

lemma send_stage_keeps:
  assumes "world_in R env" "send_stage env ro s q row f = (r, n, started, f')"
  shows "R (rows_of f) (rows_of f')"
  using assms send_keeps run_refl by (auto simp: send_stage_def split: if_split_asm)

lemma recover_stage_keeps:
  assumes "world_in R env" "recover_stage env ro projector q n row f = (r, f')"
  shows "R (rows_of f) (rows_of f')"
  using assms(2) world [OF assms(1)] world_then [OF assms(1) akashic_recovered_step] run_refl
  by (auto simp: recover_stage_def split: if_split_asm sum.splits)

lemma project_stage_keeps:
  assumes "world_in R env" "project_stage env ro projector q n row f = (r, f')"
  shows "R (rows_of f) (rows_of f')"
  using assms(2) world [OF assms(1)] world_then [OF assms(1) projected_step] run_refl
  by (auto simp: project_stage_def split: if_split_asm sum.splits)

lemma submit_keeps:
  assumes "world_in R env" "submit env ro sender_of projector q f = (r, started, f')"
  shows "R (rows_of f) (rows_of f')"
  using assms(2)
proof (cases rule: submit_cases)
  case (unprepared e)
  then show ?thesis using world_then [OF assms(1) prepare_step] by blast
next
  case (unsent row f1 e n)
  then show ?thesis
    using world_then [OF assms(1) prepare_step] send_stage_keeps [OF assms(1)] run_trans by blast
next
  case (unrecovered row f1 row2 n f2 e)
  then show ?thesis
    using world_then [OF assms(1) prepare_step] send_stage_keeps [OF assms(1)]
      recover_stage_keeps [OF assms(1)] run_trans by meson
next
  case (projecting row f1 row2 n f2 row3 f3 x)
  then show ?thesis
    using world_then [OF assms(1) prepare_step] send_stage_keeps [OF assms(1)]
      recover_stage_keeps [OF assms(1)] project_stage_keeps [OF assms(1)] run_trans by meson
qed

lemma lookup_view_keeps: "lookup_view ro session turn f = (r, f') \<Longrightarrow> rows_of f' = rows_of f"
  using lookup_step by (auto simp: lookup_view_def split: prod.splits)

lemma resume_keeps:
  assumes "world_in R env" "resume_delivery env ro sender_of projector session turn f = (r, started, f')"
  shows "R (rows_of f) (rows_of f')"
  using assms lookup_view_keeps submit_keeps [OF assms(1)] run_refl
  by (fastforce simp: resume_delivery_def split: prod.splits sum.splits option.splits)

lemma cancel_keeps:
  assumes "cancel_delivery ro now session turn reason f = (r, f')"
  shows "R (rows_of f) (rows_of f')"
proof -
  obtain x f1 where l: "lookup_view ro session turn f = (x, f1)" by force
  have "f' = f1 \<or> rows_step (rows_of f1) (rows_of f')"
    using assms l cancel_step
    by (auto simp: cancel_delivery_def split: prod.splits sum.splits option.splits)
  then show ?thesis using lookup_view_keeps [OF l] run_refl run_step by metis
qed

lemma settle_keeps:
  assumes "settle_delivery ro now lid receipt f = (r, f')"
  shows "R (rows_of f) (rows_of f')"
  using assms confirm_step run_step by (fastforce simp: settle_delivery_def split: prod.splits)

lemma open_keeps:
  assumes "open_deliveries ro intact recover now f = (r, f')"
  shows "R (rows_of f) (rows_of f')"
proof -
  obtain x f1 where i: "initialize ro intact f = (x, f1)" by force
  have "f' = f1 \<or> rows_step (rows_of f1) (rows_of f')"
    using assms i recover_step
    by (auto simp: open_deliveries_def split: prod.splits sum.splits if_split_asm)
  then show ?thesis using initialize_step [OF i] run_refl run_step by metis
qed

end

interpretation run: run_relation rows_run
  by unfold_locales (auto intro: rtranclp_trans)

section \<open>The form of the rows\<close>

text \<open>The state of a row says which of its columns are filled.\<close>

definition row_ok :: "delivery \<Rightarrow> bool" where
  "row_ok r \<longleftrightarrow> (case dl_state r of
       DPrepared \<Rightarrow> fresh_row r
     | DStarted \<Rightarrow> dl_attempt r \<noteq> None \<and> dl_receipt r = None \<and> dl_message r = None \<and> dl_domain r = None
     | DDelivered \<Rightarrow> dl_attempt r \<noteq> None \<and> dl_receipt r \<noteq> None \<and> dl_message r = None \<and> dl_domain r = None
     | DProjected \<Rightarrow> dl_attempt r \<noteq> None \<and> dl_receipt r \<noteq> None \<and> dl_message r \<noteq> None \<and> dl_domain r = None
     | DSettled \<Rightarrow> dl_attempt r \<noteq> None \<and> dl_receipt r \<noteq> None \<and> dl_message r \<noteq> None \<and> dl_domain r \<noteq> None
     | DRejected \<Rightarrow> dl_receipt r \<noteq> None \<and> dl_message r = None \<and> dl_domain r = None
     | DFailed \<Rightarrow> dl_attempt r \<noteq> None \<and> dl_receipt r \<noteq> None \<and> dl_message r = None \<and> dl_domain r = None)"

text \<open>Every row has its form, and identities and accepted Turns are unique.\<close>

definition rows_ok :: "delivery list \<Rightarrow> bool" where
  "rows_ok rows \<longleftrightarrow> (\<forall>r \<in> set rows. row_ok r) \<and> distinct (map dl_id rows) \<and>
     distinct (map (\<lambda>r. (dl_session r, dl_turn r)) rows)"

lemma row_step_same:
  "row_step r r' \<Longrightarrow> same_envelope r r' \<and> dl_created r' = dl_created r"
  by (cases rule: row_step.cases) (auto simp: same_envelope_def)

lemma row_step_ok: "row_step r r' \<Longrightarrow> row_ok r \<Longrightarrow> row_ok r'"
  by (erule row_step_cases) (auto simp: row_ok_def fresh_row_def)

lemma rows_change_columns:
  assumes "list_all2 (\<lambda>r r'. r' = r \<or> row_step r r') rows rows'"
    and "\<And>r r'. same_envelope r r' \<Longrightarrow> g r' = g r"
  shows "map g rows' = map g rows"
  using assms(1)
proof (induction rule: list_all2_induct)
  case (Cons r rows r' rows')
  then show ?case using assms(2) row_step_same by (metis list.simps(9))
qed simp

lemma rows_step_ok:
  assumes "rows_step rows rows'" "rows_ok rows"
  shows "rows_ok rows'"
  using assms(1)
proof (cases rule: rows_step.cases)
  case (rows_insert e)
  then show ?thesis using assms(2)
    by (auto simp: rows_ok_def row_ok_def same_turn_def fresh_row_def)
next
  case rows_change
  have "map dl_id rows' = map dl_id rows"
    "map (\<lambda>r. (dl_session r, dl_turn r)) rows' = map (\<lambda>r. (dl_session r, dl_turn r)) rows"
    by (rule rows_change_columns [OF rows_change], simp add: same_envelope_def)+
  moreover have "row_ok r'" if r': "r' \<in> set rows'" for r'
  proof -
    obtain i where i: "i < length rows'" "r' = rows' ! i" using r' by (auto simp: in_set_conv_nth)
    then have "r' = rows ! i \<or> row_step (rows ! i) r'" "rows ! i \<in> set rows"
      using rows_change by (auto simp: list_all2_conv_all_nth)
    then show ?thesis using assms(2) row_step_ok by (metis rows_ok_def)
  qed
  ultimately show ?thesis using assms(2) unfolding rows_ok_def by metis
qed

interpretation formed: run_relation "\<lambda>rows rows'. rows_ok rows \<longrightarrow> rows_ok rows'"
  by unfold_locales (auto intro: rows_step_ok)

section \<open>Forward only\<close>

text \<open>The states that can come after a state.\<close>

fun comes_after :: "delivery_state \<Rightarrow> delivery_state set" where
  "comes_after DPrepared = {DStarted, DDelivered, DProjected, DSettled, DRejected, DFailed}"
| "comes_after DStarted = {DDelivered, DProjected, DSettled, DRejected, DFailed}"
| "comes_after DDelivered = {DProjected, DSettled}"
| "comes_after DProjected = {DSettled}"
| "comes_after DSettled = {}"
| "comes_after DRejected = {}"
| "comes_after DFailed = {}"

lemma comes_after_trans: "b \<in> comes_after a \<Longrightarrow> c \<in> comes_after b \<Longrightarrow> c \<in> comes_after a"
  by (cases a; cases b) auto

definition binding_of :: "delivery \<Rightarrow> string option \<times> string option \<times> string option \<times> string option" where
  "binding_of r = (dl_attempt r, dl_snapshot r, dl_generation r, dl_binding r)"

text \<open>What time does to a row: the envelope stays, the state stays or moves forward, and what
  was committed in a state stays: the binding once started, the receipt once there was a
  result, the message once projected, the domain receipt once settled.\<close>

definition row_advance :: "delivery \<Rightarrow> delivery \<Rightarrow> bool" where
  "row_advance r r' \<longleftrightarrow> same_envelope r r' \<and> dl_created r' = dl_created r \<and>
     (dl_state r' = dl_state r \<or> dl_state r' \<in> comes_after (dl_state r)) \<and>
     (dl_state r \<noteq> DPrepared \<longrightarrow> binding_of r' = binding_of r) \<and>
     (dl_state r \<notin> {DPrepared, DStarted} \<longrightarrow> dl_receipt r' = dl_receipt r) \<and>
     (dl_state r \<in> {DProjected, DSettled} \<longrightarrow> dl_message r' = dl_message r) \<and>
     (dl_state r = DSettled \<longrightarrow> r' = r) \<and> (dl_state r' = dl_state r \<longrightarrow> r' = r)"

definition rows_advance :: "delivery list \<Rightarrow> delivery list \<Rightarrow> bool" where
  "rows_advance rows rows' \<longleftrightarrow> (\<forall>lid r. find_delivery lid rows = Some r \<longrightarrow>
     (\<exists>r'. find_delivery lid rows' = Some r' \<and> row_advance r r'))"

lemma row_advance_refl [simp]: "row_advance r r"
  by (simp add: row_advance_def same_envelope_def)

lemma comes_after_facts:
  "s \<notin> comes_after s" "DPrepared \<notin> comes_after s"
  "t \<in> comes_after s \<Longrightarrow> s \<notin> {DPrepared, DStarted} \<Longrightarrow> t \<notin> {DPrepared, DStarted}"
  "t \<in> comes_after s \<Longrightarrow> s \<in> {DProjected, DSettled} \<Longrightarrow> t = DSettled"
  by (cases s; auto)+

lemma row_advance_trans:
  assumes "row_advance a b" "row_advance b c"
  shows "row_advance a c"
proof -
  note ab = assms(1) [unfolded row_advance_def] and bc = assms(2) [unfolded row_advance_def]
  note f = comes_after_facts
  have 1: "same_envelope a c \<and> dl_created c = dl_created a"
    using ab bc by (simp add: same_envelope_def)
  have 2: "dl_state c = dl_state a \<or> dl_state c \<in> comes_after (dl_state a)"
    using ab bc comes_after_trans by metis
  have 3: "dl_state c = dl_state a \<longrightarrow> c = a"
    using ab bc comes_after_trans f(1) by metis
  have 4: "dl_state a \<noteq> DPrepared \<longrightarrow> binding_of c = binding_of a"
    using ab bc f(2) by metis
  have 5: "dl_state a \<notin> {DPrepared, DStarted} \<longrightarrow> dl_receipt c = dl_receipt a"
    using ab bc f(3) by metis
  have 6: "dl_state a \<in> {DProjected, DSettled} \<longrightarrow> dl_message c = dl_message a"
    using ab bc f(4) by (metis insertCI)
  have 7: "dl_state a = DSettled \<longrightarrow> c = a"
    using ab bc by metis
  show ?thesis unfolding row_advance_def using 1 2 3 4 5 6 7 by blast
qed

lemma row_step_advance: "row_step r r' \<Longrightarrow> row_advance r r'"
  by (erule row_step_cases) (auto simp: row_advance_def same_envelope_def binding_of_def)

lemma find_delivery_change:
  assumes "list_all2 (\<lambda>r r'. r' = r \<or> row_step r r') rows rows'" "find_delivery lid rows = Some r"
  shows "\<exists>r'. find_delivery lid rows' = Some r' \<and> row_advance r r'"
  using assms
proof (induction rule: list_all2_induct)
  case (Cons x rows x' rows')
  have x: "row_advance x x'" "dl_id x' = dl_id x"
    using Cons.hyps row_step_advance row_step_same by (auto simp: same_envelope_def)
  then show ?case using Cons.IH Cons.prems by (auto simp: find_delivery_def split: if_split_asm)
qed (simp add: find_delivery_def)

lemma rows_step_advance:
  assumes "rows_step rows rows'"
  shows "rows_advance rows rows'"
  using assms
proof (cases rule: rows_step.cases)
  case (rows_insert e)
  have "find_delivery lid (rows @ [e]) = Some r" if "find_delivery lid rows = Some r" for lid r
    using that unfolding find_delivery_def by (induction rows) (auto split: if_split_asm)
  then show ?thesis using rows_insert unfolding rows_advance_def by (metis row_advance_refl)
next
  case rows_change
  then show ?thesis using find_delivery_change by (auto simp: rows_advance_def)
qed

interpretation forward: run_relation rows_advance
proof unfold_locales
  show "rows_advance rows rows" for rows by (auto simp: rows_advance_def)
  show "rows_advance a c" if "rows_advance a b" "rows_advance b c" for a b c
    using that row_advance_trans unfolding rows_advance_def by meson
qed (rule rows_step_advance)

section \<open>At most one external call\<close>

definition past_prepared :: "string \<Rightarrow> delivery list \<Rightarrow> bool" where
  "past_prepared lid rows \<longleftrightarrow> (\<exists>r. find_delivery lid rows = Some r \<and> dl_state r \<noteq> DPrepared)"

lemma past_prepared_stays: "rows_advance rows rows' \<Longrightarrow> past_prepared lid rows \<Longrightarrow> past_prepared lid rows'"
  using comes_after_facts(2) unfolding rows_advance_def past_prepared_def row_advance_def by metis

lemma find_delivery_unique:
  "distinct (map dl_id rows) \<Longrightarrow> find_delivery lid rows = Some r \<longleftrightarrow> r \<in> set rows \<and> dl_id r = lid"
  unfolding find_delivery_def by (induction rows) (auto simp: image_iff split: if_split_asm)

text \<open>A move finds its row in the state it starts from and leaves it moved.\<close>

lemma move_row:
  assumes "move lid pre upd rows = Inr (r, rows')" "\<And>x. dl_id (upd x) = dl_id x" "distinct (map dl_id rows)"
  shows "\<exists>x. find_delivery lid rows = Some x \<and> pre x \<and> r = upd x \<and> find_delivery lid rows' = Some (upd x)"
proof -
  from move_Inr [OF assms(1,2)] obtain x where x: "filter (\<lambda>r. dl_id r = lid \<and> pre r) rows = [x]"
    and rows': "rows' = map (\<lambda>r. if dl_id r = lid \<and> pre r then upd r else r) rows"
    and r: "find_delivery lid rows' = Some r" by blast
  have "x \<in> set (filter (\<lambda>r. dl_id r = lid \<and> pre r) rows)" unfolding x by simp
  then have x': "x \<in> set rows" "dl_id x = lid" "pre x" by auto
  have "map dl_id rows' = map dl_id rows" unfolding rows' using assms(2) by simp
  then have d: "distinct (map dl_id rows')" using assms(3) by metis
  have "upd x \<in> set rows'" unfolding rows' using x' by force
  then have "find_delivery lid rows' = Some (upd x)"
    using find_delivery_unique [OF d] x'(2) assms(2) by simp
  then show ?thesis using r x' find_delivery_unique [OF assms(3)] by auto
qed

lemma provider_started_Inr:
  assumes "mark_provider_started ro now lid a f = (Inr r, f')" "rows_ok (rows_of f)"
  shows "\<not> past_prepared lid (rows_of f)" "past_prepared lid (rows_of f')" "\<not> ro"
    "find_delivery lid (rows_of f') = Some r" "dl_state r = DStarted"
proof -
  let ?upd = "\<lambda>r. r\<lparr>dl_state := DStarted, dl_attempt := Some (ba_attempt a), dl_snapshot := Some (ba_snapshot a),
    dl_generation := Some (ba_generation a), dl_binding := Some (ba_binding a), dl_updated := now\<rparr>"
  have tx: "delivery_tx ro True (on_table (move lid (\<lambda>r. dl_state r = DPrepared) ?upd)) f = (Inr r, f')"
    using assms(1) by (auto simp: mark_provider_started_def split: sum.splits)
  obtain x where x: "find_delivery lid (rows_of f) = Some x" "dl_state x = DPrepared" "r = ?upd x"
      "find_delivery lid (rows_of f') = Some (?upd x)"
    using move_row [OF delivery_tx_Inr(2) [OF tx]] assms(2) by (auto simp: rows_ok_def)
  then show "\<not> past_prepared lid (rows_of f)" "past_prepared lid (rows_of f')"
    "find_delivery lid (rows_of f') = Some r" "dl_state r = DStarted"
    by (auto simp: past_prepared_def)
  show "\<not> ro" using delivery_tx_Inr(1) [OF tx] .
qed

lemma run_sender_once:
  assumes "world_in rows_run env"
  shows "run_sender env ro lid s n ok f = (r, n', ok', f') \<Longrightarrow> rows_ok (rows_of f) \<Longrightarrow>
    \<exists>new. ok' = ok @ new \<and> length new \<le> 1 \<and>
      (new \<noteq> [] \<longrightarrow> \<not> past_prepared lid (rows_of f) \<and> past_prepared lid (rows_of f'))"
proof (induction s arbitrary: n ok f)
  case (Starts a k)
  let ?g = "de_world env n f"
  have g: "rows_advance (rows_of f) (rows_of ?g)" "rows_ok (rows_of ?g)"
    using forward.world [OF forward.world_all [OF assms]] formed.world [OF formed.world_all [OF assms]] Starts.prems(2)
    by auto
  obtain x f1 where x: "mark_provider_started ro (de_clock env n) lid a ?g = (x, f1)" by force
  have f1: "rows_ok (rows_of f1)" "rows_advance (rows_of ?g) (rows_of f1)"
    using provider_started_step [OF x] rows_step_ok g(2) rows_step_advance by blast+
  have adv: "rows_advance (rows_of f) (rows_of f1)" using forward.run_trans g(1) f1(2) by blast
  show ?case
  proof (cases x)
    case (Inl e)
    then have "run_sender env ro lid (k (Inl e)) (Suc n) ok f1 = (r, n', ok', f')"
      using Starts.prems(1) x by simp
    from Starts.IH [OF rangeI this f1(1)] show ?thesis using past_prepared_stays [OF adv] by blast
  next
    case (Inr row)
    note started = provider_started_Inr [OF x [unfolded Inr] g(2)]
    have run: "run_sender env ro lid (k (Inr ())) (Suc n) (ok @ [a]) f1 = (r, n', ok', f')"
      using Starts.prems(1) x Inr by simp
    then have "ok' = ok @ [a]"
      using Starts.IH [OF rangeI run f1(1)] started(2) by auto
    moreover have "past_prepared lid (rows_of f')"
      using past_prepared_stays [OF forward.run_sender_keeps [OF forward.world_all [OF assms] run] started(2)] .
    ultimately show ?thesis using started(1) past_prepared_stays [OF g(1)] by auto
  qed
qed auto

lemma send_once:
  assumes "world_in rows_run env" "rows_ok (rows_of f)"
    and "send_delivery env ro s q n f = (r, n', started, f')"
  shows "length started \<le> 1"
    "started \<noteq> [] \<Longrightarrow> \<not> past_prepared (dr_id q) (rows_of f) \<and> past_prepared (dr_id q) (rows_of f')"
proof -
  obtain x n1 st f1 where run: "run_sender env ro (dr_id q) s n [] f = (x, n1, st, f1)" by (metis prod_cases4)
  have f': "started = st \<and> (f' = f1 \<or> rows_step (rows_of f1) (rows_of f'))"
    using assms(3) run
    by (auto simp: send_delivery_def dest: provider_result_step split: sum.splits if_split_asm prod.splits)
  note once = run_sender_once [OF assms(1) run assms(2)]
  show "length started \<le> 1" using once f' by auto
  assume "started \<noteq> []"
  then have "\<not> past_prepared (dr_id q) (rows_of f)" "past_prepared (dr_id q) (rows_of f1)" using once f' by auto
  then show "\<not> past_prepared (dr_id q) (rows_of f) \<and> past_prepared (dr_id q) (rows_of f')"
    using f' past_prepared_stays rows_step_advance by blast
qed

lemma send_stage_once:
  assumes "world_in rows_run env" "rows_ok (rows_of f)" "send_stage env ro s q row f = (r, n', started, f')"
  shows "length started \<le> 1"
    "started \<noteq> [] \<Longrightarrow> \<not> past_prepared (dr_id q) (rows_of f) \<and> past_prepared (dr_id q) (rows_of f')"
proof -
  have "send_delivery env ro s q 1 f = (r, n', started, f') \<or> started = []"
    using assms(3) by (auto simp: send_stage_def split: if_split_asm)
  then show "length started \<le> 1"
    "started \<noteq> [] \<Longrightarrow> \<not> past_prepared (dr_id q) (rows_of f) \<and> past_prepared (dr_id q) (rows_of f')"
    using send_once [OF assms(1,2)] by auto
qed

lemma submit_once:
  assumes "world_in rows_run env" "rows_ok (rows_of f)"
    and "submit env ro sender_of projector q f = (r, started, f')"
  shows "length started \<le> 1"
    "started \<noteq> [] \<Longrightarrow> \<not> past_prepared (dr_id q) (rows_of f) \<and> past_prepared (dr_id q) (rows_of f')"
proof -
  have "started = [] \<or> (\<exists>row f1 x n f2.
      prepare_delivery ro (de_clock env 0) (request_envelope q) (de_world env 0 f) = (Inr row, f1) \<and>
      send_stage env ro (sender_of q) q row f1 = (x, n, started, f2) \<and> rows_advance (rows_of f2) (rows_of f'))"
    using assms(3)
  proof (cases rule: submit_cases)
    case (unsent row f1 e n)
    then show ?thesis using forward.run_refl by blast
  next
    case (unrecovered row f1 row2 n f2 e)
    then show ?thesis using forward.recover_stage_keeps [OF forward.world_all [OF assms(1)]] by blast
  next
    case (projecting row f1 row2 n f2 row3 f3 x)
    then show ?thesis using forward.recover_stage_keeps [OF forward.world_all [OF assms(1)]]
      forward.project_stage_keeps [OF forward.world_all [OF assms(1)]] forward.run_trans by metis
  qed simp
  then consider "started = []" | row f1 x n f2 where
      "prepare_delivery ro (de_clock env 0) (request_envelope q) (de_world env 0 f) = (Inr row, f1)"
      "send_stage env ro (sender_of q) q row f1 = (x, n, started, f2)" "rows_advance (rows_of f2) (rows_of f')"
    by blast
  then have "length started \<le> 1 \<and> (started \<noteq> [] \<longrightarrow>
      \<not> past_prepared (dr_id q) (rows_of f) \<and> past_prepared (dr_id q) (rows_of f'))"
  proof cases
    case 2
    have "rows_advance (rows_of f) (rows_of f1)"
      using forward.world_then [OF forward.world_all [OF assms(1)] prepare_step [OF 2(1)]] .
    moreover have "rows_ok (rows_of f1)"
      using formed.world_then [OF formed.world_all [OF assms(1)] prepare_step [OF 2(1)]] assms(2) by simp
    ultimately show ?thesis
      using send_stage_once [OF assms(1) _ 2(2)] past_prepared_stays 2(3) by blast
  qed simp
  then show "length started \<le> 1"
    "started \<noteq> [] \<Longrightarrow> \<not> past_prepared (dr_id q) (rows_of f) \<and> past_prepared (dr_id q) (rows_of f')"
    by auto
qed

text \<open>Histories of the services on one file: the attempts that were committed, under the
  identity of their delivery, and whatever other writers did in between. A resumption is a
  submission of the request that its row came from.\<close>

inductive service_run :: "delivery_file \<Rightarrow> (string \<times> binding_attempt) list \<Rightarrow> delivery_file \<Rightarrow> bool" for f where
  run_nothing: "service_run f [] f"
| run_submit: "service_run f h f1 \<Longrightarrow> world_in rows_run env \<Longrightarrow>
    submit env ro sender_of projector q f1 = (r, started, f2) \<Longrightarrow>
    service_run f (h @ map (Pair (dr_id q)) started) f2"
| run_resume: "service_run f h f1 \<Longrightarrow> world_in rows_run env \<Longrightarrow>
    lookup_view ro session turn f1 = (Inr (Some v), f2) \<Longrightarrow>
    resume_delivery env ro sender_of projector session turn f1 = (r, started, f3) \<Longrightarrow>
    service_run f (h @ map (Pair (dl_id v)) started) f3"
| run_other: "service_run f h f1 \<Longrightarrow> rows_run (rows_of f1) (rows_of f2) \<Longrightarrow> service_run f h f2"

lemma view_request_id: "view_request v = Inr q \<Longrightarrow> dr_id q = dl_id v"
  by (auto simp: view_request_def check_request_def attempt_eq_Inr)

lemma service_run_facts:
  assumes "service_run f h f'" "rows_ok (rows_of f)"
  shows "rows_ok (rows_of f') \<and> distinct (map fst h) \<and> (\<forall>(lid, _) \<in> set h. past_prepared lid (rows_of f'))"
  using assms(1)
proof (induction rule: service_run.induct)
  case (run_submit h f1 env ro sender_of projector q r started f2)
  note once = submit_once [OF run_submit.hyps(2) _ run_submit.hyps(3)]
  have "rows_advance (rows_of f1) (rows_of f2)" "rows_ok (rows_of f1) \<longrightarrow> rows_ok (rows_of f2)"
    using forward.submit_keeps [OF forward.world_all] formed.submit_keeps [OF formed.world_all] run_submit.hyps by metis+
  then show ?case using run_submit.IH once past_prepared_stays
    by (cases started) (auto simp: image_iff split: prod.splits; fastforce)+
next
  case (run_resume h f1 env ro session turn v f2 sender_of projector r started f3)
  show ?case
  proof (cases "view_request v")
    case (Inl e)
    then have "started = []" "f3 = f2" using run_resume.hyps(3,4) by (auto simp: resume_delivery_def)
    then show ?thesis using run_resume.IH run.lookup_view_keeps [OF run_resume.hyps(3)] by simp
  next
    case (Inr q)
    then have s: "submit env ro sender_of projector q f2 = (r, started, f3)"
      using run_resume.hyps(3,4) by (simp add: resume_delivery_def)
    have eq: "rows_of f2 = rows_of f1" using run.lookup_view_keeps [OF run_resume.hyps(3)] .
    note once = submit_once [OF run_resume.hyps(2) _ s, unfolded eq]
    have "rows_advance (rows_of f1) (rows_of f3)" "rows_ok (rows_of f1) \<longrightarrow> rows_ok (rows_of f3)"
      using forward.submit_keeps [OF forward.world_all] formed.submit_keeps [OF formed.world_all]
        run_resume.hyps(2) s eq by metis+
    then show ?thesis using run_resume.IH once past_prepared_stays view_request_id [OF Inr]
      by (cases started) (auto simp: image_iff split: prod.splits; fastforce)+
  qed
next
  case (run_other h f1 f2)
  then show ?case using forward.run_all formed.run_all past_prepared_stays by (metis (no_types, lifting) case_prodD case_prodI2)
qed (use assms(2) in simp)

lemma service_run_advance:
  assumes "service_run f h f'"
  shows "rows_advance (rows_of f) (rows_of f')"
  using assms
proof (induction rule: service_run.induct)
  case (run_submit h f1 env ro sender_of projector q r started f2)
  then show ?case using forward.submit_keeps [OF forward.world_all] forward.run_trans by metis
next
  case (run_resume h f1 env ro session turn v f2 sender_of projector r started f3)
  then show ?case using forward.resume_keeps [OF forward.world_all] forward.run_trans by metis
next
  case (run_other h f1 f2)
  then show ?case using forward.run_all forward.run_trans by metis
qed (rule forward.run_refl)

section \<open>A sample submission\<close>

definition sample_request :: delivery_request where
  "sample_request = \<lparr>dr_id = ''d1'', dr_session = ''s'', dr_turn = ''t'', dr_target = ''mail'',
     dr_channel = ''telegram'', dr_recipient = ''42'', dr_projection = ''s'', dr_body = ''hello'',
     dr_metadata = [(''k'', JInt 1)]\<rparr>"

definition sample_attempt :: binding_attempt where
  "sample_attempt = \<lparr>ba_attempt = ''a1'', ba_snapshot = ''n1'', ba_generation = ''g1'', ba_binding = ''b1''\<rparr>"

definition sample_receipt :: channel_receipt where
  "sample_receipt = \<lparr>rc_delivery = ''d1'', rc_status = StatusDelivered, rc_providers = [''m7''], rc_error = None\<rparr>"

definition sample_sender :: "delivery_request \<Rightarrow> sender" where
  "sample_sender q = Starts sample_attempt (\<lambda>r. case r of Inl e \<Rightarrow> Breaks e | Inr _ \<Rightarrow> Receives sample_receipt)"

definition sample_projector :: "delivery_request \<Rightarrow> string res" where
  "sample_projector q = Inr ''m8''"

definition sample_moment :: moment where
  "sample_moment = \<lparr>mo_year = 1, mo_month = 1, mo_day = 1, mo_hour = 0, mo_minute = 0, mo_second = 0,
     mo_micro = 0, mo_offset = Some 0\<rparr>"

definition quiet_env :: delivery_env where
  "quiet_env = \<lparr>de_clock = (\<lambda>_. sample_moment), de_world = (\<lambda>_ f. f)\<rparr>"

lemma quiet_world: "world_in rows_run quiet_env"
  by (simp add: world_in_def quiet_env_def)

definition sample_submission :: "delivery res \<times> binding_attempt list \<times> delivery_file" where
  "sample_submission = submit quiet_env False sample_sender sample_projector sample_request None"

lemma sample_submission:
  "fst (snd sample_submission) = [sample_attempt] \<and>
   map (\<lambda>r. (dl_id r, dl_state r, dl_message r)) (rows_of (snd (snd sample_submission))) = [(''d1'', DProjected, Some ''m8'')]"
  by code_simp

text \<open>A file that the store has created, with these rows.\<close>

definition table_file :: "delivery list \<Rightarrow> delivery_file" where
  "table_file rows = Some ((create_schema empty_db)\<lparr>db_rows := rows\<rparr>)"

lemma table_file_rows [simp]: "rows_of (table_file rows) = rows"
  by (simp add: table_file_def rows_of_def create_schema_def)

lemma table_file_tx:
  "delivery_tx False w (on_table work) (table_file rows) =
     (case work rows of Inl e \<Rightarrow> (Inl e, table_file rows) | Inr (x, rows') \<Rightarrow> (Inr x, table_file rows'))"
  by (auto simp: delivery_tx_def table_file_def on_table_def validate_schema_admission_def ensure_schema_def
      create_schema_def delivery_schema_version_def empty_db_def split: sum.split prod.split)

lemma table_file_initialize: "initialize False (\<lambda>_. True) (table_file rows) = (Inr (), table_file rows)"
  by (simp add: initialize_def delivery_tx_def table_file_def validate_schema_admission_def ensure_schema_def
      create_schema_def delivery_schema_version_def empty_db_def validate_schema_def sqlite_name_def py_lower_def
      lower_char_def)

definition sample_row :: delivery where
  "sample_row = \<lparr>dl_id = ''d2'', dl_session = ''s'', dl_turn = ''t2'', dl_target = ''mail'',
     dl_channel = ''akashic'', dl_recipient = ''42'', dl_projection = ''s'', dl_body = ''hello'',
     dl_metadata = JObj [], dl_state = DStarted, dl_attempt = Some ''a'', dl_snapshot = Some ''n'',
     dl_generation = Some ''g'', dl_binding = Some ''b'', dl_receipt = None, dl_message = None,
     dl_domain = None, dl_created = sample_moment, dl_updated = sample_moment\<rparr>"

lemma sample_recovery:
  "\<exists>rows f1 f2. open_deliveries False (\<lambda>_. True) True sample_moment (table_file [sample_row]) = (Inr (), f1) \<and>
     recoverable False f1 = (Inr rows, f2) \<and> rows \<noteq> []"
  by (simp add: open_deliveries_def table_file_initialize recover_interrupted_provider_calls_def table_file_tx
      update_where_def recoverable_def sample_row_def kirakira_channel_def forward_progress_def)

section \<open>A submission on its own\<close>

lemma move_last:
  assumes "\<forall>r \<in> set rows. dl_id r \<noteq> dl_id x" "dl_id x = lid" "pre x" "dl_id (upd x) = dl_id x"
  shows "move lid pre upd (rows @ [x]) = Inr (upd x, rows @ [upd x])"
proof -
  have f: "filter (\<lambda>r. dl_id r = lid \<and> pre r) rows = []" using assms(1,2) by (auto simp: filter_empty_conv)
  have m: "map (\<lambda>r. if dl_id r = lid \<and> pre r then upd r else r) rows = rows"
    using assms(1,2) by (intro map_idI) auto
  have "find_delivery lid (rows @ [upd x]) = Some (upd x)"
    using assms unfolding find_delivery_def by (induction rows) auto
  then show ?thesis using f m assms(2,3) by (simp add: move_def update_where_def required_def)
qed

lemma move_tx_last:
  assumes "\<forall>r \<in> set rows. dl_id r \<noteq> dl_id x" "dl_id x = lid" "pre x" "dl_id (upd x) = dl_id x"
  shows "delivery_tx False True (on_table (move lid pre upd)) (table_file (rows @ [x])) =
    (Inr (upd x), table_file (rows @ [upd x]))"
  using move_last [of rows x lid pre upd, OF assms] by (simp add: table_file_tx)

lemma prepare_new:
  assumes "normalize_envelope now kvs = Inr e" "\<forall>r \<in> set rows. dl_id r \<noteq> dl_id e \<and> \<not> same_turn r e"
  shows "prepare_delivery False now kvs (table_file rows) = (Inr e, table_file (rows @ [e]))"
proof -
  have l: "lookup_identity e rows = Inr None"
    using assms(2) by (simp add: lookup_identity_def same_turn_def filter_False)
  have i: "insert_delivery e rows = Inr (rows @ [e])"
    using assms(2) by (auto simp: insert_delivery_def list_ex_iff same_turn_def)
  have "find_delivery (dl_id e) (rows @ [e]) = Some e"
    using assms(2) unfolding find_delivery_def by (induction rows) auto
  then show ?thesis using assms(1) l i by (simp add: prepare_delivery_def table_file_tx required_def)
qed

lemma envelope_facts:
  assumes "normalize_envelope now (request_envelope q) = Inr e"
  shows "dl_id e = dr_id q" "check_identity (dr_id q) = Inr (dr_id q)" "fresh_row e"
    "run_checks row_text [dl_id e, dl_session e, dl_turn e, dl_target e, dl_channel e, dl_recipient e,
      dl_projection e, dl_body e] = Inr ()" "\<exists>kvs. dl_metadata e = JObj kvs"
proof -
  have id: "x = y \<and> x \<noteq> []" if "check_identity y = Inr x" for x y
    using that by (auto simp: check_identity_def split: if_split_asm)
  have "\<exists>x. check_identity (dr_id q) = Inr x"
    using assms by (auto simp: normalize_envelope_def request_envelope_def field_identity_def attempt_eq_Inr)
  then show "check_identity (dr_id q) = Inr (dr_id q)" using id by metis
  from assms show "dl_id e = dr_id q" "fresh_row e"
    "run_checks row_text [dl_id e, dl_session e, dl_turn e, dl_target e, dl_channel e, dl_recipient e,
      dl_projection e, dl_body e] = Inr ()" "\<exists>kvs. dl_metadata e = JObj kvs"
    by (auto simp: normalize_envelope_def request_envelope_def field_identity_def envelope_body_def
        envelope_metadata_def attempt_eq_Inr fresh_row_def row_text_def dest!: id split: if_split_asm)
qed

lemma sent_receipt_status:
  "map_of (sort_fields (map (map_prod id json_norm) (receipt_value c))) ''status'' =
     Some (JStr (status_word (rc_status c)))"
proof -
  have "distinct (keys_of (receipt_value c))" by (simp add: receipt_value_def)
  from map_of_norm [OF this] show ?thesis by (simp add: receipt_value_def)
qed

definition sent_row :: "delivery_env \<Rightarrow> binding_attempt \<Rightarrow> channel_receipt \<Rightarrow> delivery \<Rightarrow> delivery" where
  "sent_row env a c e = e\<lparr>dl_state := result_state (rc_status c), dl_attempt := Some (ba_attempt a),
     dl_snapshot := Some (ba_snapshot a), dl_generation := Some (ba_generation a),
     dl_binding := Some (ba_binding a), dl_receipt := Some (json_norm (JObj (receipt_value c))),
     dl_updated := de_clock env 2\<rparr>"

lemma send_alone:
  assumes "normalize_envelope now (request_envelope q) = Inr e"
    and "\<forall>r \<in> set rows. dl_id r \<noteq> dl_id e \<and> \<not> same_turn r e" "de_world env = (\<lambda>_ f. f)"
    and "run_checks (\<lambda>v. attempt (check_identity v) (\<lambda>_. Inr ()))
      [ba_attempt a, ba_snapshot a, ba_generation a, ba_binding a] = Inr ()"
    and "k (Inr ()) = Receives c"
  shows "send_stage env False (Starts a k) q e (table_file (rows @ [e])) =
    (Inr (sent_row env a c e), 3, [a], table_file (rows @ [sent_row env a c e]))"
proof -
  note e = envelope_facts [OF assms(1)]
  have other: "\<forall>r \<in> set rows. dl_id r \<noteq> dl_id e" using assms(2) by blast
  have prepared: "dl_state e = DPrepared" using e(3) by (simp add: fresh_row_def)
  let ?started = "e\<lparr>dl_state := DStarted, dl_attempt := Some (ba_attempt a), dl_snapshot := Some (ba_snapshot a),
    dl_generation := Some (ba_generation a), dl_binding := Some (ba_binding a), dl_updated := de_clock env 1\<rparr>"
  have checks: "run_checks (\<lambda>v. attempt (check_identity v) (\<lambda>_. Inr ()))
      [dr_id q, ba_attempt a, ba_snapshot a, ba_generation a, ba_binding a] = Inr ()"
    using assms(4) e(2) by simp
  have 1: "mark_provider_started False (de_clock env 1) (dr_id q) a (table_file (rows @ [e])) =
      (Inr ?started, table_file (rows @ [?started]))"
    unfolding mark_provider_started_def checks
    using move_tx_last [where pre = "\<lambda>r. dl_state r = DPrepared", OF other e(1)] prepared by simp
  have 2: "mark_provider_result False (de_clock env 2) (dr_id q) (result_state (rc_status c)) (receipt_value c)
      (table_file (rows @ [?started])) = (Inr (sent_row env a c e), table_file (rows @ [sent_row env a c e]))"
    using move_tx_last [where pre = "\<lambda>r. dl_state r = DStarted" and x = ?started and rows = rows
        and upd = "\<lambda>r. r\<lparr>dl_state := result_state (rc_status c),
          dl_receipt := Some (json_norm (JObj (receipt_value c))), dl_updated := de_clock env 2\<rparr>"] other e(1,2)
    by (cases "rc_status c"; cases e) (simp_all add: mark_provider_result_def sent_row_def)
  show ?thesis
    using 1 2 assms(3,5) prepared
    by (simp add: send_stage_def send_delivery_def numeral_eq_Suc)
qed

section \<open>Properties\<close>

text \<open>
  C9. At most one external call: in any history of submissions and
  resumptions, with crashes, recoveries, cancellations and other writers between their steps,
  whatever the senders do, a delivery's provider is started at most once, so that no message
  goes out twice.
\<close>

theorem provider_called_once:
  assumes "service_run f h f'" "rows_ok (rows_of f)"
  shows "distinct (map fst h)"
  using service_run_facts [OF assms] by blast

theorem provider_called_once_witness:
  "\<exists>h f'. service_run None h f' \<and> h = [(''d1'', sample_attempt)] \<and> distinct (map fst h)"
proof -
  obtain r f' where s: "submit quiet_env False sample_sender sample_projector sample_request None = (r, [sample_attempt], f')"
    using sample_submission by (metis prod.collapse sample_submission_def)
  have "service_run None ([] @ map (Pair (dr_id sample_request)) [sample_attempt]) f'"
    by (rule run_submit [OF run_nothing quiet_world s])
  then have run: "service_run None [(''d1'', sample_attempt)] f'" by (simp add: sample_request_def)
  have "rows_ok (rows_of None)" by (simp add: rows_ok_def rows_of_def)
  then show ?thesis using provider_called_once [OF run] run by blast
qed

text \<open>
  C40. Over every history the state of a delivery says which of its
  columns are filled (a receipt exactly when there was a result, a message once projected, a
  domain receipt once settled, a binding whenever the provider may have been called), and
  identities and accepted Turns stay unique.
\<close>

theorem deliveries_well_formed:
  assumes "service_run f h f'" "rows_ok (rows_of f)"
  shows "rows_ok (rows_of f')"
  using service_run_facts [OF assms] by blast

theorem deliveries_well_formed_witness:
  "\<exists>h f'. service_run None h f' \<and> rows_of f' \<noteq> [] \<and> rows_ok (rows_of f')"
proof -
  obtain r h f' where s: "sample_submission = (r, h, f')" by (metis prod.collapse)
  have "service_run None ([] @ map (Pair (dr_id sample_request)) h) f'"
    by (rule run_submit [OF run_nothing quiet_world s [unfolded sample_submission_def]])
  moreover have "rows_ok (rows_of None)" by (simp add: rows_ok_def rows_of_def)
  moreover have "rows_of f' \<noteq> []" using sample_submission by (auto simp: s)
  ultimately show ?thesis using deliveries_well_formed by blast
qed

text \<open>
  C10. Deliveries are never lost, never change their envelope, and only
  move forward; what was committed in a state stays: the binding, the provider's receipt, the
  message and the whole row once it is settled, rejected or failed.
\<close>

theorem deliveries_move_forward:
  assumes "service_run f h f'" "find_delivery lid (rows_of f) = Some r"
  shows "\<exists>r'. find_delivery lid (rows_of f') = Some r' \<and> row_advance r r' \<and>
    (dl_state r \<in> {DSettled, DRejected, DFailed} \<longrightarrow> r' = r)"
proof -
  obtain r' where r': "find_delivery lid (rows_of f') = Some r'" "row_advance r r'"
    using service_run_advance [OF assms(1)] assms(2) unfolding rows_advance_def by blast
  moreover have "dl_state r \<in> {DSettled, DRejected, DFailed} \<longrightarrow> r' = r"
    using r'(2) by (auto simp: row_advance_def)
  ultimately show ?thesis by blast
qed

theorem deliveries_move_forward_witness:
  "\<exists>r. find_delivery ''d1'' (rows_of (snd (snd sample_submission))) = Some r \<and> row_advance r r"
proof -
  let ?f = "snd (snd sample_submission)"
  obtain r where r: "find_delivery ''d1'' (rows_of ?f) = Some r"
    using sample_submission by (cases "rows_of ?f") (auto simp: find_delivery_def)
  show ?thesis using deliveries_move_forward [OF run_nothing r] r by auto
qed

text \<open>
  C11. After the service was opened with recovery, no call to an
  external provider is left open, and what is offered for resumption is every delivery that
  is not settled, rejected or failed, in order of creation.
\<close>

theorem recovery_lists_unfinished:
  assumes "open_deliveries ro intact True now f = (Inr (), f1)" "recoverable ro f1 = (Inr rows, f2)"
  shows "rows = sort_key (\<lambda>r. [iso_text (dl_created r), dl_id r])
      (filter (\<lambda>r. dl_state r \<notin> {DSettled, DRejected, DFailed}) (rows_of f1)) \<and>
    (\<forall>r \<in> set (rows_of f1). dl_state r = DStarted \<longrightarrow> dl_channel r = kirakira_channel)"
proof -
  let ?sel = "\<lambda>r. dl_state r = DStarted \<and> dl_channel r \<noteq> kirakira_channel"
  let ?upd = "\<lambda>r. r\<lparr>dl_state := DFailed, dl_receipt := Some interrupted_receipt, dl_updated := now\<rparr>"
  from assms(1) obtain g n where rec: "recover_interrupted_provider_calls ro now g = (Inr n, f1)"
    by (auto simp: open_deliveries_def split: prod.splits sum.splits)
  note tx = rec [unfolded recover_interrupted_provider_calls_def]
  have ro: "\<not> ro" using delivery_tx_Inr(1) [OF tx] .
  have "rows_of f1 = map (\<lambda>r. if ?sel r then ?upd r else r) (rows_of g)"
    using delivery_tx_Inr(2) [OF tx] by (simp add: update_where_def)
  then have closed: "\<forall>r \<in> set (rows_of f1). dl_state r = DStarted \<longrightarrow> dl_channel r = kirakira_channel"
    by auto
  have "delivery_tx ro True (on_table (\<lambda>rows. Inr (sort_key (\<lambda>r. [iso_text (dl_created r), dl_id r])
      (filter forward_progress rows), rows))) f1 = (Inr rows, f2)"
    using assms(2) ro by (simp add: recoverable_def delivery_tx_def)
  from delivery_tx_Inr(2) [OF this]
  have rows: "rows = sort_key (\<lambda>r. [iso_text (dl_created r), dl_id r]) (filter forward_progress (rows_of f1))"
    by (metis (lifting) Pair_inject sum.inject(2))
  have "forward_progress r \<longleftrightarrow> dl_state r \<notin> {DSettled, DRejected, DFailed}" if "r \<in> set (rows_of f1)" for r
    using closed that by (cases "dl_state r") (auto simp: forward_progress_def)
  then have "filter forward_progress (rows_of f1) =
      filter (\<lambda>r. dl_state r \<notin> {DSettled, DRejected, DFailed}) (rows_of f1)"
    by (intro filter_cong refl)
  then show ?thesis using rows closed by simp
qed

theorem recovery_lists_unfinished_witness:
  "\<exists>rows f1 f2. open_deliveries False (\<lambda>_. True) True sample_moment (table_file [sample_row]) = (Inr (), f1) \<and>
     recoverable False f1 = (Inr rows, f2) \<and> rows \<noteq> [] \<and>
     set rows = {r \<in> set (rows_of f1). dl_state r \<notin> {DSettled, DRejected, DFailed}}"
proof -
  obtain f1 rows f2 where run: "open_deliveries False (\<lambda>_. True) True sample_moment (table_file [sample_row]) = (Inr (), f1)"
      "recoverable False f1 = (Inr rows, f2)" "rows \<noteq> []"
    using sample_recovery by blast
  show ?thesis using recovery_lists_unfinished [OF run(1,2)] run by auto
qed

text \<open>
  C12. A new delivery is completed when its parts do their work: the envelope is
  valid and its identity and Turn are new, the sender commits a binding and reports delivery,
  and the projector returns a message. The answer is the projected row with that message and
  the provider's receipt, and it is what the table holds.
\<close>

theorem submit_completes:
  assumes "normalize_envelope (de_clock env 0) (request_envelope q) = Inr e"
    and "\<forall>r \<in> set rows. dl_id r \<noteq> dl_id e \<and> \<not> same_turn r e" "de_world env = (\<lambda>_ f. f)"
    and "sender_of q = Starts a k" "k (Inr ()) = Receives c" "rc_status c = StatusDelivered"
    and "run_checks (\<lambda>v. attempt (check_identity v) (\<lambda>_. Inr ()))
      [ba_attempt a, ba_snapshot a, ba_generation a, ba_binding a] = Inr ()"
    and "projector q = Inr mid" "check_identity mid = Inr mid"
  shows "\<exists>row. submit env False sender_of projector q (table_file rows) =
      (Inr row, [a], table_file (rows @ [row])) \<and> same_envelope row e \<and> dl_state row = DProjected \<and>
    dl_message row = Some mid \<and> dl_attempt row = Some (ba_attempt a) \<and>
    dl_receipt row = Some (json_norm (JObj (receipt_value c)))"
proof -
  let ?sent = "sent_row env a c e"
  let ?row = "?sent\<lparr>dl_state := DProjected, dl_message := Some mid, dl_updated := de_clock env 4\<rparr>"
  note e = envelope_facts [OF assms(1)]
  have sent: "dl_state ?sent = DDelivered" "dl_id ?sent = dr_id q" "\<forall>r \<in> set rows. dl_id r \<noteq> dl_id ?sent"
    using assms(2,6) e(1) by (simp_all add: sent_row_def)
  have 1: "prepare_delivery False (de_clock env 0) (request_envelope q) (table_file rows) =
      (Inr e, table_file (rows @ [e]))"
    by (rule prepare_new [OF assms(1,2)])
  have 2: "send_stage env False (sender_of q) q e (table_file (rows @ [e])) =
      (Inr ?sent, 3, [a], table_file (rows @ [?sent]))"
    unfolding assms(4) by (rule send_alone [where k = k, OF assms(1,2,3,7,5)])
  have 3: "recover_stage env False projector q 3 ?sent f = (Inr ?sent, f)" for f
    using sent(1) by (simp add: recover_stage_def)
  have 4: "project_stage env False projector q 4 ?sent (table_file (rows @ [?sent])) =
      (Inr ?row, table_file (rows @ [?row]))"
    using sent assms(3,8,9) e(2)
      move_tx_last [of rows ?sent "dr_id q" "\<lambda>r. dl_state r = DDelivered"
        "\<lambda>r. r\<lparr>dl_state := DProjected, dl_message := Some mid, dl_updated := de_clock env 4\<rparr>"]
    by (simp add: project_stage_def mark_projected_def)
  have "mid \<noteq> [] \<and> (\<forall>t \<in> set [ba_attempt a, ba_snapshot a, ba_generation a, ba_binding a]. t \<noteq> [])"
    using assms(7,9) by (auto simp: run_checks_Inr check_identity_def attempt_eq_Inr split: if_split_asm)
  then have 5: "view_delivery ?row = Inr ?row"
    using e(3,4,5) sent_receipt_status [of c] assms(6)
    by (auto simp: view_delivery_def sent_row_def public_receipt_def row_optional_text_def row_text_def
        fresh_row_def attempt_eq_Inr)
  have "submit env False sender_of projector q (table_file rows) = (Inr ?row, [a], table_file (rows @ [?row]))"
    using 1 2 3 4 5 assms(3) by (simp add: submit_def)
  then show ?thesis by (intro exI conjI) (assumption, simp_all add: same_envelope_def sent_row_def)
qed

theorem submit_completes_witness:
  "\<exists>row. submit quiet_env False sample_sender sample_projector sample_request (table_file [sample_row]) =
      (Inr row, [sample_attempt], table_file [sample_row, row]) \<and> dl_state row = DProjected \<and>
    dl_message row = Some ''m8''"
proof -
  have "\<exists>e. normalize_envelope sample_moment (request_envelope sample_request) = Inr e \<and>
      dl_id e = ''d1'' \<and> dl_turn e = ''t''"
    by (simp add: normalize_envelope_def request_envelope_def sample_request_def field_identity_def
        check_identity_def py_strip_def py_space_def envelope_metadata_def envelope_body_def)
  then obtain e where e: "normalize_envelope (de_clock quiet_env 0) (request_envelope sample_request) = Inr e"
      "dl_id e = ''d1''" "dl_turn e = ''t''" by (auto simp: quiet_env_def)
  have new: "\<forall>r \<in> set [sample_row]. dl_id r \<noteq> dl_id e \<and> \<not> same_turn r e"
    using e by (simp add: sample_row_def same_turn_def)
  have "run_checks (\<lambda>v. attempt (check_identity v) (\<lambda>_. Inr ())) [ba_attempt sample_attempt,
      ba_snapshot sample_attempt, ba_generation sample_attempt, ba_binding sample_attempt] = Inr ()"
    "check_identity ''m8'' = Inr ''m8''" by code_simp+
  note run = submit_completes [where k = "\<lambda>r. case r of Inl e \<Rightarrow> Breaks e | Inr _ \<Rightarrow> Receives sample_receipt"
      and c = sample_receipt and sender_of = sample_sender and projector = sample_projector,
      OF e(1) new _ sample_sender_def _ _ this(1) sample_projector_def this(2)]
  have "de_world quiet_env = (\<lambda>_ f. f)" "rc_status sample_receipt = StatusDelivered"
    by (simp_all add: quiet_env_def sample_receipt_def)
  then show ?thesis using run by auto
qed

end
