(* ===== verification/Inbound_Store.thy ===== *)
theory Inbound_Store
  imports Json "HOL-Library.AList"
begin

text \<open>
  \<open>InboundHandoffStore\<close> of \<open>plugins/ledger/inbound_store.py\<close>: the inputs that a channel has
  handed over and that are not yet in the message log. A row is kept under its own identity,
  under a key that removes duplicates, and under the provider's message identity in its
  metadata. Statements of one operation see the table as other writers leave it between them,
  up to the insertion, which takes the write lock.

  A stored JSON text is the tree it is read as, or a text that is no JSON. Objects do not
  repeat a key.
\<close>

section \<open>Python values\<close>

text \<open>\<open>d[k] = v\<close> and \<open>d.pop(k)\<close>.\<close>

abbreviation dict_put :: "'k \<Rightarrow> 'v \<Rightarrow> ('k \<times> 'v) list \<Rightarrow> ('k \<times> 'v) list" where
  "dict_put \<equiv> AList.update"

abbreviation dict_remove :: "'k \<Rightarrow> ('k \<times> 'v) list \<Rightarrow> ('k \<times> 'v) list" where
  "dict_remove \<equiv> AList.delete"

text \<open>\<open>==\<close>: numbers are equal across their types. (From \<open>10 ^ 16\<close> on \<open>repr\<close> writes a float
  with an exponent; such a float is told apart from the integer here.)\<close>

definition float_zero :: "string \<Rightarrow> bool" where
  "float_zero f \<longleftrightarrow> f = ''0.0'' \<or> f = ''-0.0''"

definition int_equals_float :: "int \<Rightarrow> string \<Rightarrow> bool" where
  "int_equals_float i f \<longleftrightarrow> f = int_text i @ ''.0'' \<or> i = 0 \<and> float_zero f"

fun int_value :: "json \<Rightarrow> int option" where
  "int_value (JInt i) = Some i"
| "int_value (JBool b) = Some (if b then 1 else 0)"
| "int_value _ = None"

fun py_equal :: "json \<Rightarrow> json \<Rightarrow> bool" where
  "py_equal (JFloat f) (JFloat g) = (f = g \<or> float_zero f \<and> float_zero g)"
| "py_equal (JFloat f) w = (case int_value w of None \<Rightarrow> False | Some i \<Rightarrow> int_equals_float i f)"
| "py_equal JNull w = (w = JNull)"
| "py_equal (JStr s) w = (w = JStr s)"
| "py_equal (JInt i) (JFloat f) = int_equals_float i f"
| "py_equal (JInt i) w = (int_value w = Some i)"
| "py_equal (JBool b) (JFloat f) = int_equals_float (if b then 1 else 0) f"
| "py_equal (JBool b) w = (int_value w = Some (if b then 1 else 0))"
| "py_equal (JArr vs) (JArr ws) = list_all2 py_equal vs ws"
| "py_equal (JArr vs) w = False"
| "py_equal (JObj kvs) (JObj kws) =
     (length kvs = length kws \<and>
      (\<forall>(k, v) \<in> set kvs. case map_of kws k of None \<Rightarrow> False | Some w \<Rightarrow> py_equal v w))"
| "py_equal (JObj kvs) w = False"

text \<open>A stored text.\<close>

datatype stored_json = Tree json | NoJson string

section \<open>The provider's identity in the metadata\<close>

definition identity_key :: string where "identity_key = ''_akashic_durable_provider_identity''"

definition text_null :: "string option \<Rightarrow> json" where
  "text_null v = (case v of None \<Rightarrow> JNull | Some t \<Rightarrow> JStr t)"

definition add_handoff_provider_identity ::
  "(string \<times> json) list \<Rightarrow> string option \<Rightarrow> string option \<Rightarrow> (string \<times> json) list res" where
  "add_handoff_provider_identity metadata identity recipient =
     (if map_of metadata identity_key \<noteq> None then Inl ValueError
      else Inr (dict_put identity_key (JObj [(''version'', JInt 1), (''provider_identity'', text_null identity),
        (''recipient'', text_null recipient)]) metadata))"

definition read_optional_string :: "json option \<Rightarrow> string option res" where
  "read_optional_string v = (case v of
     Some JNull \<Rightarrow> Inr None | Some (JStr t) \<Rightarrow> Inr (Some t) | _ \<Rightarrow> Inl ValueError)"

definition read_handoff_provider_identity ::
  "(string \<times> json) list \<Rightarrow> (string option \<times> string option) option res" where
  "read_handoff_provider_identity metadata = (case map_of metadata identity_key of
     None \<Rightarrow> Inr None
   | Some (JObj kvs) \<Rightarrow>
       if set (keys_of kvs) \<noteq> {''version'', ''provider_identity'', ''recipient''} then Inl ValueError
       else if map_of kvs ''version'' \<noteq> Some (JInt 1) then Inl ValueError
       else attempt (read_optional_string (map_of kvs ''provider_identity'')) (\<lambda>identity.
         attempt (read_optional_string (map_of kvs ''recipient'')) (\<lambda>recipient.
         if (identity = None) \<noteq> (recipient = None) then Inl ValueError
         else Inr (Some (identity, recipient))))
   | Some _ \<Rightarrow> Inl ValueError)"

definition strip_handoff_provider_identity :: "(string \<times> json) list \<Rightarrow> (string \<times> json) list" where
  "strip_handoff_provider_identity metadata = dict_remove identity_key metadata"

section \<open>Projecting old metadata\<close>

text \<open>One step of \<open>_project_handoff_metadata\<close>: a missing key is taken from its old name when
  the old value has the right type.\<close>

definition take_alias ::
  "string \<Rightarrow> string \<Rightarrow> (json \<Rightarrow> bool) \<Rightarrow> (string \<times> json) list \<Rightarrow> (string \<times> json) list" where
  "take_alias new old fits kvs = (case (map_of kvs new, map_of kvs old) of
     (None, Some v) \<Rightarrow> if fits v then dict_put new v kvs else kvs
   | _ \<Rightarrow> kvs)"

fun is_text :: "json \<Rightarrow> bool" where
  "is_text (JStr _) = True" | "is_text _ = False"

fun is_array :: "json \<Rightarrow> bool" where
  "is_array (JArr _) = True" | "is_array _ = False"

definition project_fields :: "(string \<times> json) list \<Rightarrow> (string \<times> json) list" where
  "project_fields kvs =
     (let marked = (if map_of kvs ''durable_inbound'' \<noteq> Some (JBool True) \<and>
            map_of kvs ''mobile_v3_handoff'' = Some (JBool True)
          then dict_put ''durable_inbound'' (JBool True) kvs else kvs)
      in take_alias ''durable_attachment_refs'' ''mobile_v3_attachment_refs'' is_array
          (take_alias ''provider_message_id'' ''client_message_id'' is_text
          (take_alias ''durable_handoff_id'' ''mobile_handoff_id'' is_text marked)))"

definition project_handoff_metadata :: "stored_json \<Rightarrow> stored_json res" where
  "project_handoff_metadata m = (case m of
     Tree (JObj kvs) \<Rightarrow> attempt (read_handoff_provider_identity kvs) (\<lambda>_.
       Inr (Tree (json_norm (JObj (project_fields kvs)))))
   | _ \<Rightarrow> Inr m)"

definition handoff_metadata_matches ::
  "stored_json \<Rightarrow> stored_json \<Rightarrow> string \<Rightarrow> string \<Rightarrow> bool res" where
  "handoff_metadata_matches stored requested sender chat =
     attempt (project_handoff_metadata stored) (\<lambda>s.
     attempt (project_handoff_metadata requested) (\<lambda>r. case (s, r) of
       (Tree (JObj ss), Tree (JObj rs)) \<Rightarrow>
         (let stored_has = map_of ss identity_key \<noteq> None; requested_has = map_of rs identity_key \<noteq> None in
          if stored_has = requested_has then Inr (py_equal (JObj ss) (JObj rs))
          else if stored_has \<or> \<not> requested_has then Inr False
          else attempt (read_handoff_provider_identity rs) (\<lambda>identity.
            if identity \<noteq> Some (Some sender, Some chat) then Inr False
            else Inr (py_equal (JObj ss) (JObj (dict_remove identity_key rs)))))
     | (Tree sv, Tree rv) \<Rightarrow> Inr (py_equal sv rv)
     | _ \<Rightarrow> Inr (s = r)))"

text \<open>\<open>_row_provider_message_id\<close> and \<open>_provider_message_id_from_json\<close>.\<close>

definition projected_message_id :: "stored_json \<Rightarrow> string option res" where
  "projected_message_id m = attempt (project_handoff_metadata m) (\<lambda>p. Inr (case p of
     Tree (JObj kvs) \<Rightarrow> (case map_of kvs ''provider_message_id'' of
         Some (JStr t) \<Rightarrow> if t = [] then None else Some t | _ \<Rightarrow> None)
   | _ \<Rightarrow> None))"

section \<open>The table\<close>

record handoff =
  ho_id :: string
  ho_dedupe :: "string option"
  ho_channel :: string
  ho_sender :: string
  ho_chat :: string
  ho_session :: string
  ho_content :: string
  ho_timestamp :: string
  ho_media :: stored_json
  ho_metadata :: stored_json
  ho_created :: string

text \<open>\<open>SELECT \<dots> WHERE handoff_id = ?\<close> and \<open>WHERE dedupe_key = ?\<close>.\<close>

definition handoff_by_id :: "string \<Rightarrow> handoff list \<Rightarrow> handoff option" where
  "handoff_by_id i rows = find (\<lambda>r. ho_id r = i) rows"

definition handoff_by_dedupe :: "string option \<Rightarrow> handoff list \<Rightarrow> handoff option" where
  "handoff_by_dedupe key rows = (case key of None \<Rightarrow> None | Some k \<Rightarrow> find (\<lambda>r. ho_dedupe r = Some k) rows)"

definition arrival_key :: "handoff \<Rightarrow> string list" where
  "arrival_key r = [ho_created r, ho_id r]"

definition dedupe_text :: "string \<Rightarrow> string \<Rightarrow> string \<Rightarrow> string" where
  "dedupe_text channel session mid = channel @ '':'' @ session @ '':'' @ mid"

text \<open>The rows whose projected metadata carry a message identity; \<open>ValueError\<close> where the
  metadata cannot be projected.\<close>

fun matching_rows :: "string \<Rightarrow> handoff list \<Rightarrow> handoff list res" where
  "matching_rows mid [] = Inr []"
| "matching_rows mid (r # rs) = attempt (projected_message_id (ho_metadata r)) (\<lambda>found.
     attempt (matching_rows mid rs) (\<lambda>ms. Inr (if found = Some mid then r # ms else ms)))"

definition unique_match :: "handoff list \<Rightarrow> handoff option res" where
  "unique_match ms = (case ms of [] \<Rightarrow> Inr None | [r] \<Rightarrow> Inr (Some r) | _ \<Rightarrow> Inl RuntimeError)"

text \<open>\<open>_find_identity_locked\<close>: by the derived key in the first table, else by the metadata of
  the channel's rows in the second.\<close>

definition find_identity ::
  "string \<Rightarrow> string \<Rightarrow> string option \<Rightarrow> handoff list \<Rightarrow> handoff list \<Rightarrow> handoff option res" where
  "find_identity channel session mid rows1 rows2 = (case mid of
     None \<Rightarrow> Inr None
   | Some m \<Rightarrow> (case handoff_by_dedupe (Some (dedupe_text channel session m)) rows1 of
       Some r \<Rightarrow> Inr (Some r)
     | None \<Rightarrow> attempt (matching_rows m (sort_key arrival_key
         (filter (\<lambda>r. ho_channel r = channel \<and> ho_session r = session) rows2))) unique_match))"

section \<open>The schema\<close>

text \<open>\<open>init_inbound_handoffs\<close> and \<open>init_session_admissions\<close> (\<open>plugins/ledger/admissions.py\<close>): an
  existing table or index has to be the expected one, up to white space, case and
  \<open>IF NOT EXISTS\<close>; both exist or none. The names and texts of \<open>sqlite_master\<close> are a list.\<close>

function without_sub :: "string \<Rightarrow> string \<Rightarrow> string" where
  "without_sub p s = (if p = [] \<or> s = [] then s
     else if take (length p) s = p then without_sub p (drop (length p) s)
     else hd s # without_sub p (tl s))"
  by auto
termination by (relation "measure (length \<circ> snd)") (auto simp: neq_Nil_conv)

declare without_sub.simps [simp del]

definition sql_norm :: "string \<Rightarrow> string" where
  "sql_norm s = rev (dropWhile (\<lambda>c. c = CHR '';'')
     (rev (filter (\<lambda>c. \<not> py_space c) (without_sub ''if not exists'' (py_lower s)))))"

definition init_schema :: "(string \<times> string) list \<Rightarrow> (string \<times> string) list \<Rightarrow> (string \<times> string) list res" where
  "init_schema schema master =
     attempt (run_checks (\<lambda>(name, statement). case map_of master name of
         None \<Rightarrow> Inr () | Some found \<Rightarrow> fail_if (sql_norm found \<noteq> sql_norm statement) RuntimeError) schema) (\<lambda>_.
     let missing = filter (\<lambda>(name, _). map_of master name = None) schema in
     attempt (fail_if (missing \<noteq> [] \<and> length missing \<noteq> length schema) RuntimeError) (\<lambda>_. Inr (master @ missing)))"

definition nl :: string where "nl = [CHR 10]"

definition inbound_schema :: "(string \<times> string) list" where
  "inbound_schema =
     [(''inbound_handoffs'', ''CREATE TABLE IF NOT EXISTS inbound_handoffs ('' @ nl @
       ''    handoff_id TEXT PRIMARY KEY, dedupe_key TEXT UNIQUE,'' @ nl @
       ''    channel TEXT NOT NULL, sender TEXT NOT NULL, chat_id TEXT NOT NULL,'' @ nl @
       ''    session_key TEXT NOT NULL, content TEXT NOT NULL, timestamp TEXT NOT NULL,'' @ nl @
       ''    media_json TEXT NOT NULL, metadata_json TEXT NOT NULL, created_at TEXT NOT NULL'' @ nl @ '')''),
      (''idx_inbound_handoffs_session'',
       ''CREATE INDEX IF NOT EXISTS idx_inbound_handoffs_session ON inbound_handoffs(session_key, created_at)'')]"

definition admissions_schema :: "(string \<times> string) list" where
  "admissions_schema =
     [(''session_admissions'', ''CREATE TABLE IF NOT EXISTS session_admissions ('' @ nl @
       ''    admission_id TEXT PRIMARY KEY, session_key TEXT NOT NULL, created_at TEXT NOT NULL'' @ nl @ '')''),
      (''idx_session_admissions_session'',
       ''CREATE INDEX IF NOT EXISTS idx_session_admissions_session ON session_admissions(session_key)'')]"

text \<open>An initialized schema is accepted as it is.\<close>

lemma init_schema_again:
  assumes "distinct (map fst schema)" "init_schema schema master = Inr master'"
  shows "init_schema schema master' = Inr master'"
proof -
  let ?missing = "filter (\<lambda>(name, _). map_of master name = None) schema"
  have m: "master' = master @ ?missing" using assms(2) by (auto simp: init_schema_def Let_def attempt_eq_Inr)
  have find: "map_of master' n = Some (case map_of master n of None \<Rightarrow> s | Some found \<Rightarrow> found)" if "(n, s) \<in> set schema" for n s
  proof (cases "map_of master n")
    case None
    have "distinct (map fst ?missing)" using assms(1) by (rule distinct_map_filter)
    moreover have "(n, s) \<in> set ?missing" using that None by simp
    ultimately have "map_of ?missing n = Some s" by (rule map_of_is_SomeI)
    then show ?thesis using None by (simp add: m map_add_def)
  next
    case (Some found)
    then have "n \<notin> fst ` set ?missing" by auto
    then have "map_of ?missing n = None" by (simp only: map_of_eq_None_iff not_False_eq_True)
    then show ?thesis using Some by (simp add: m map_add_def)
  qed
  have "run_checks (\<lambda>(name, statement). case map_of master name of
      None \<Rightarrow> Inr () | Some found \<Rightarrow> fail_if (sql_norm found \<noteq> sql_norm statement) RuntimeError) schema = Inr ()"
    using assms(2) by (auto simp: init_schema_def attempt_eq_Inr)
  then have "run_checks (\<lambda>(name, statement). case map_of master' name of
      None \<Rightarrow> Inr () | Some found \<Rightarrow> fail_if (sql_norm found \<noteq> sql_norm statement) RuntimeError) schema = Inr ()"
    unfolding run_checks_Inr using find by (fastforce split: option.split_asm)
  moreover have "filter (\<lambda>(name, _). map_of master' name = None) schema = []"
    using find by (auto simp: filter_empty_conv)
  ultimately show ?thesis by (simp add: init_schema_def Let_def fail_if_def)
qed

section \<open>Reserving\<close>

definition all_fields_present :: "handoff \<Rightarrow> bool" where
  "all_fields_present q \<longleftrightarrow> ho_id q \<noteq> [] \<and> ho_dedupe q \<noteq> Some [] \<and> ho_channel q \<noteq> [] \<and> ho_sender q \<noteq> [] \<and>
     ho_chat q \<noteq> [] \<and> ho_session q \<noteq> [] \<and> ho_content q \<noteq> [] \<and> ho_timestamp q \<noteq> [] \<and>
     ho_media q \<noteq> NoJson [] \<and> ho_metadata q \<noteq> NoJson [] \<and> ho_created q \<noteq> []"

text \<open>\<open>validate_existing\<close>: the row holds what is requested; the creation time is never
  compared. Media are compared as text, of which equal trees have one canonical form here.\<close>

definition validate_existing :: "handoff \<Rightarrow> bool \<Rightarrow> bool \<Rightarrow> handoff \<Rightarrow> unit res" where
  "validate_existing q include_timestamp allow_legacy r =
     attempt (fail_if (\<not> allow_legacy \<and> ho_dedupe r \<noteq> ho_dedupe q) RuntimeError) (\<lambda>_.
     attempt (fail_if (ho_channel r \<noteq> ho_channel q \<or> ho_sender r \<noteq> ho_sender q \<or> ho_chat r \<noteq> ho_chat q \<or>
       ho_session r \<noteq> ho_session q \<or> ho_content r \<noteq> ho_content q) RuntimeError) (\<lambda>_.
     attempt (fail_if (include_timestamp \<and> ho_timestamp r \<noteq> ho_timestamp q) RuntimeError) (\<lambda>_.
     attempt (fail_if (ho_media r \<noteq> ho_media q) RuntimeError) (\<lambda>_.
     attempt (handoff_metadata_matches (ho_metadata r) (ho_metadata q) (ho_sender r) (ho_chat r)) (\<lambda>same.
     fail_if (\<not> same) RuntimeError)))))"

text \<open>The row that is already there under one of the three identities.\<close>

definition existing_handoff ::
  "handoff \<Rightarrow> handoff option \<Rightarrow> handoff option \<Rightarrow> handoff option \<Rightarrow> handoff option res" where
  "existing_handoff q by_id by_dedupe legacy =
     attempt (case (by_id, by_dedupe) of
         (Some a, Some b) \<Rightarrow> fail_if (ho_id a \<noteq> ho_id b) RuntimeError | _ \<Rightarrow> Inr ()) (\<lambda>_.
     Inr (case by_id of Some a \<Rightarrow> Some a | None \<Rightarrow> (case by_dedupe of Some b \<Rightarrow> Some b | None \<Rightarrow> legacy)))"

definition allow_legacy_dedupe :: "handoff \<Rightarrow> handoff option \<Rightarrow> handoff option \<Rightarrow> bool" where
  "allow_legacy_dedupe q by_id by_dedupe = (case by_id of
     Some a \<Rightarrow> ho_dedupe a \<noteq> ho_dedupe q | None \<Rightarrow> by_dedupe = None)"

text \<open>\<open>INSERT \<dots> ON CONFLICT DO NOTHING\<close>.\<close>

definition insert_handoff :: "handoff \<Rightarrow> handoff list \<Rightarrow> bool \<times> handoff list" where
  "insert_handoff q rows =
     (if handoff_by_id (ho_id q) rows \<noteq> None \<or> handoff_by_dedupe (ho_dedupe q) rows \<noteq> None
      then (False, rows) else (True, rows @ [q]))"

definition winning_row :: "handoff \<Rightarrow> string option \<Rightarrow> handoff list \<Rightarrow> handoff res" where
  "winning_row q mid rows = (case handoff_by_id (ho_id q) rows of
     Some r \<Rightarrow> Inr r
   | None \<Rightarrow> (case handoff_by_dedupe (ho_dedupe q) rows of
       Some r \<Rightarrow> Inr r
     | None \<Rightarrow> attempt (find_identity (ho_channel q) (ho_session q) mid rows rows) (\<lambda>found.
         case found of None \<Rightarrow> Inl RuntimeError | Some r \<Rightarrow> Inr r)))"

definition insert_stage ::
  "handoff \<Rightarrow> string option \<Rightarrow> handoff list \<Rightarrow> (string \<times> bool) res \<times> handoff list" where
  "insert_stage q mid rows = (case insert_handoff q rows of (inserted, rows') \<Rightarrow>
     (case attempt (winning_row q mid rows') (\<lambda>r.
         attempt (validate_existing q (ho_id r = ho_id q) (ho_dedupe r \<noteq> ho_dedupe q) r) (\<lambda>_. Inr r)) of
        Inl e \<Rightarrow> (Inl e, rows)
      | Inr r \<Rightarrow> (Inr (ho_id r, inserted), rows')))"

text \<open>\<open>reserve_inbound_handoff\<close>: the four looks at the table and the insertion, with what other
  writers do before each.\<close>

definition reserve_handoff ::
  "(nat \<Rightarrow> handoff list \<Rightarrow> handoff list) \<Rightarrow> handoff \<Rightarrow> handoff list \<Rightarrow> (string \<times> bool) res \<times> handoff list" where
  "reserve_handoff world q rows =
     (if \<not> all_fields_present q then (Inl ValueError, rows)
      else
        let rows0 = world 0 rows; rows1 = world 1 rows0;
            by_id = handoff_by_id (ho_id q) rows0; by_dedupe = handoff_by_dedupe (ho_dedupe q) rows1 in
        case projected_message_id (ho_metadata q) of
          Inl e \<Rightarrow> (Inl e, rows1)
        | Inr mid \<Rightarrow>
        let rows2 = world 2 rows1; rows3 = world 3 rows2 in
        (case attempt (find_identity (ho_channel q) (ho_session q) mid rows2 rows3)
            (\<lambda>legacy. existing_handoff q by_id by_dedupe legacy) of
           Inl e \<Rightarrow> (Inl e, rows3)
         | Inr (Some r) \<Rightarrow>
             (case validate_existing q (by_id \<noteq> None) (allow_legacy_dedupe q by_id by_dedupe) r of
                Inl e \<Rightarrow> (Inl e, rows3)
              | Inr _ \<Rightarrow> (Inr (ho_id r, False), rows3))
         | Inr None \<Rightarrow> insert_stage q mid (world 4 rows3)))"

section \<open>Reading and completing\<close>

definition project_handoff_row :: "handoff \<Rightarrow> handoff res" where
  "project_handoff_row r = attempt (project_handoff_metadata (ho_metadata r)) (\<lambda>m. Inr (r\<lparr>ho_metadata := m\<rparr>))"

definition list_handoffs ::
  "int option \<Rightarrow> (string \<times> string) option \<Rightarrow> handoff list \<Rightarrow> handoff list res" where
  "list_handoffs limit after rows =
     (if (case limit of None \<Rightarrow> False | Some n \<Rightarrow> n < 1) then Inl ValueError
      else
        let later = (case after of None \<Rightarrow> rows
              | Some (created, i) \<Rightarrow> filter (\<lambda>r. arrival_key r > [created, i]) rows);
            ordered = sort_key arrival_key later in
        traverse project_handoff_row (case limit of None \<Rightarrow> ordered | Some n \<Rightarrow> take (nat n) ordered))"

definition read_handoff ::
  "string \<Rightarrow> string \<Rightarrow> string \<Rightarrow> handoff list \<Rightarrow> handoff list \<Rightarrow> handoff option res" where
  "read_handoff channel session mid rows1 rows2 =
     attempt (find_identity channel session (Some mid) rows1 rows2) (\<lambda>found. case found of
       None \<Rightarrow> Inr None | Some r \<Rightarrow> attempt (project_handoff_row r) (\<lambda>p. Inr (Some p)))"

definition has_handoff :: "string \<Rightarrow> string \<Rightarrow> string \<Rightarrow> handoff list \<Rightarrow> handoff list \<Rightarrow> bool res" where
  "has_handoff channel session mid rows1 rows2 =
     attempt (read_handoff channel session mid rows1 rows2) (\<lambda>found. Inr (found \<noteq> None))"

definition complete_handoff :: "string \<Rightarrow> handoff list \<Rightarrow> unit res \<times> handoff list" where
  "complete_handoff i rows =
     (if i = [] then (Inl ValueError, rows)
      else if length (filter (\<lambda>r. ho_id r = i) rows) \<noteq> 1 then (Inl RuntimeError, rows)
      else (Inr (), filter (\<lambda>r. ho_id r \<noteq> i) rows))"

end
