(* ===== verification/Inbound_Message.thy ===== *)
theory Inbound_Message
  imports Inbound_Store Iso_Time
begin

text \<open>
  Channel messages on their way in, as \<open>plugins/ledger/custody.py\<close> writes them to the table of
  handoffs and reads them back: the durable identity in the metadata, references to
  attachments (\<open>plugins/ledger/contract.py\<close>), times in UTC.
\<close>

section \<open>Attachments\<close>

datatype attachment_kind = FileKind | ImageKind

record attachment_ref =
  at_id :: string
  at_kind :: attachment_kind
  at_filename :: "string option"
  at_media :: "string option"
  at_size :: int
  at_sha :: string

definition ascii_in :: "nat \<Rightarrow> nat \<Rightarrow> char \<Rightarrow> bool" where
  "ascii_in a b c \<longleftrightarrow> a \<le> of_char c \<and> (of_char c :: nat) \<le> b"

definition alphanumeric :: "char \<Rightarrow> bool" where
  "alphanumeric c \<longleftrightarrow> ascii_in 65 90 c \<or> ascii_in 97 122 c \<or> ascii_in 48 57 c"

text \<open>\<open>^[A-Za-z0-9][A-Za-z0-9._-]{0,255}$\<close>.\<close>

definition artifact_id_ok :: "string \<Rightarrow> bool" where
  "artifact_id_ok v = (case v of [] \<Rightarrow> False
     | c # s \<Rightarrow> alphanumeric c \<and> length s \<le> 255 \<and> list_all (\<lambda>c. alphanumeric c \<or> c \<in> set ''._-'') s)"

definition filename_ok :: "string \<Rightarrow> bool" where
  "filename_ok v \<longleftrightarrow> v \<noteq> [] \<and> py_strip v = v \<and> length v \<le> 255 \<and>
     list_all (\<lambda>c. c \<noteq> CHR ''/'' \<and> c \<noteq> CHR 92 \<and> \<not> ascii_in 0 31 c \<and> \<not> ascii_in 127 127 c) v"

text \<open>\<open>^[0-9a-f]{64}$\<close>.\<close>

definition sha256_ok :: "string \<Rightarrow> bool" where
  "sha256_ok v \<longleftrightarrow> length v = 64 \<and> list_all (\<lambda>c. ascii_in 48 57 c \<or> ascii_in 97 102 c) v"

text \<open>\<open>^[A-Za-z0-9!#$&^_.+-]+/[A-Za-z0-9!#$&^_.+-]+$\<close>.\<close>

definition media_char :: "char \<Rightarrow> bool" where
  "media_char c \<longleftrightarrow> alphanumeric c \<or> c \<in> set ''!#$&^_.+-''"

definition media_type_ok :: "string \<Rightarrow> bool" where
  "media_type_ok v \<longleftrightarrow> length v \<le> 255 \<and> takeWhile media_char v \<noteq> [] \<and>
     (case dropWhile media_char v of
        c # s \<Rightarrow> c = CHR ''/'' \<and> s \<noteq> [] \<and> list_all media_char s | [] \<Rightarrow> False)"

definition attachment_ref_ok :: "attachment_ref \<Rightarrow> bool" where
  "attachment_ref_ok a \<longleftrightarrow> artifact_id_ok (at_id a) \<and>
     (case at_filename a of None \<Rightarrow> True | Some f \<Rightarrow> filename_ok f) \<and>
     (case at_media a of None \<Rightarrow> True | Some m \<Rightarrow> media_type_ok m) \<and> 0 \<le> at_size a \<and> sha256_ok (at_sha a)"

fun kind_word :: "attachment_kind \<Rightarrow> string" where
  "kind_word FileKind = ''file''"
| "kind_word ImageKind = ''image''"

definition kind_of_word :: "string \<Rightarrow> attachment_kind option" where
  "kind_of_word w = (if w = ''file'' then Some FileKind else if w = ''image'' then Some ImageKind else None)"

definition ref_value :: "attachment_ref \<Rightarrow> json" where
  "ref_value a = JObj [(''artifact_id'', JStr (at_id a)), (''kind'', JStr (kind_word (at_kind a))),
     (''filename'', text_null (at_filename a)), (''media_type'', text_null (at_media a)),
     (''size_bytes'', JInt (at_size a)), (''sha256'', JStr (at_sha a))]"

text \<open>One item of \<open>durable_attachment_refs\<close>; a missing filename or media type is \<open>None\<close>.\<close>

definition opt_text :: "json option \<Rightarrow> string option res" where
  "opt_text v = (case v of None \<Rightarrow> Inr None | Some JNull \<Rightarrow> Inr None | Some (JStr t) \<Rightarrow> Inr (Some t)
     | Some _ \<Rightarrow> Inl ValueError)"

definition text_field :: "json option \<Rightarrow> string res" where
  "text_field v = (case v of Some (JStr t) \<Rightarrow> Inr t | _ \<Rightarrow> Inl ValueError)"

definition int_field :: "json option \<Rightarrow> int res" where
  "int_field v = (case v of Some (JInt i) \<Rightarrow> Inr i | _ \<Rightarrow> Inl ValueError)"

definition read_ref :: "json \<Rightarrow> attachment_ref res" where
  "read_ref item = (case item of
     JObj kvs \<Rightarrow>
       attempt (text_field (map_of kvs ''artifact_id'')) (\<lambda>i.
       attempt (text_field (map_of kvs ''kind'')) (\<lambda>k.
       attempt (opt_text (map_of kvs ''filename'')) (\<lambda>f.
       attempt (opt_text (map_of kvs ''media_type'')) (\<lambda>m.
       attempt (int_field (map_of kvs ''size_bytes'')) (\<lambda>n.
       attempt (text_field (map_of kvs ''sha256'')) (\<lambda>h.
       (case kind_of_word k of
          None \<Rightarrow> Inl ValueError
        | Some kind \<Rightarrow>
            (let a = \<lparr>at_id = i, at_kind = kind, at_filename = f, at_media = m, at_size = n, at_sha = h\<rparr> in
             if attachment_ref_ok a then Inr a else Inl ValueError))))))))
   | _ \<Rightarrow> Inl ValueError)"

section \<open>Times in UTC\<close>

definition next_day :: "nat \<times> nat \<times> nat \<Rightarrow> nat \<times> nat \<times> nat" where
  "next_day = (\<lambda>(y, m, d). if d < days_in_month y m then (y, m, d + 1)
     else if m < 12 then (y, m + 1, 1) else (y + 1, 1, 1))"

definition prev_day :: "nat \<times> nat \<times> nat \<Rightarrow> nat \<times> nat \<times> nat" where
  "prev_day = (\<lambda>(y, m, d). if 1 < d then (y, m, d - 1)
     else if 1 < m then (y, m - 1, days_in_month y (m - 1)) else (y - 1, 12, 31))"

text \<open>\<open>astimezone(timezone.utc)\<close> of an aware time: an offset is less than a day. Leaving the
  years 1 to 9999 raises.\<close>

definition to_utc :: "moment \<Rightarrow> moment res" where
  "to_utc t =
     (let minutes = int (mo_hour t) * 60 + int (mo_minute t) - (case mo_offset t of None \<Rightarrow> 0 | Some z \<Rightarrow> z);
          today = (mo_year t, mo_month t, mo_day t);
          (y, m, d) = (if minutes < 0 then prev_day today else if minutes < 1440 then today else next_day today);
          clock = nat (minutes mod 1440)
      in if y < 1 \<or> 9999 < y then Inl OverflowError
         else Inr (t\<lparr>mo_year := y, mo_month := m, mo_day := d, mo_hour := clock div 60, mo_minute := clock mod 60,
           mo_offset := Some 0\<rparr>))"

section \<open>Messages\<close>

record raw_inbound =
  ri_id :: string
  ri_identity :: "string option"
  ri_recipient :: "string option"
  ri_channel :: string
  ri_sender :: string
  ri_chat :: string
  ri_content :: string
  ri_timestamp :: moment
  ri_metadata :: "(string \<times> json) list"
  ri_attachments :: "attachment_ref list"

text \<open>The checks of \<open>ChannelInboundMessage\<close> and \<open>RawInbound\<close> (\<open>plugins/channels/contract.py\<close>).\<close>

definition channel_text_ok :: "string \<Rightarrow> bool" where
  "channel_text_ok v \<longleftrightarrow> v \<noteq> [] \<and> py_strip v = v \<and> \<not> list_ex (ascii_in 0 31) v"

definition content_ok :: "string \<Rightarrow> bool" where
  "content_ok v \<longleftrightarrow> list_all (\<lambda>c. \<not> ascii_in 0 31 c \<or> c \<in> {CHR 9, CHR 10, CHR 13}) v"

definition optional_ok :: "string option \<Rightarrow> bool" where
  "optional_ok v = (case v of None \<Rightarrow> True | Some t \<Rightarrow> channel_text_ok t)"

definition raw_ok :: "raw_inbound \<Rightarrow> bool" where
  "raw_ok r \<longleftrightarrow> channel_text_ok (ri_id r) \<and> length (ri_id r) \<le> 256 \<and> channel_text_ok (ri_channel r) \<and>
     channel_text_ok (ri_sender r) \<and> channel_text_ok (ri_chat r) \<and> content_ok (ri_content r) \<and>
     mo_offset (ri_timestamp r) \<noteq> None \<and> optional_ok (ri_identity r) \<and> optional_ok (ri_recipient r) \<and>
     (ri_identity r = None) = (ri_recipient r = None)"

definition metadata_text :: "(string \<times> json) list \<Rightarrow> string \<Rightarrow> string option" where
  "metadata_text kvs k = (case map_of kvs k of Some (JStr t) \<Rightarrow> if t = [] then None else Some t | _ \<Rightarrow> None)"

definition has_durable_marker :: "(string \<times> json) list \<Rightarrow> bool" where
  "has_durable_marker kvs \<longleftrightarrow> map_of kvs ''durable_inbound'' = Some (JBool True)"

text \<open>\<open>_durable_identity\<close>: the handoff and the Session.\<close>

definition durable_identity :: "raw_inbound \<Rightarrow> (string \<times> string) res" where
  "durable_identity r = (let kvs = ri_metadata r in
     if \<not> has_durable_marker kvs \<or> metadata_text kvs ''provider_message_id'' \<noteq> Some (ri_id r) then Inl RuntimeError
     else (case (metadata_text kvs ''durable_handoff_id'', map_of kvs ''session_key_override'') of
         (Some h, Some (JStr s)) \<Rightarrow> if py_strip s = [] then Inl RuntimeError else Inr (h, py_strip s)
       | _ \<Rightarrow> Inl RuntimeError))"

text \<open>\<open>_reserve_durable_handoff\<close> up to the store: the row that is asked for.\<close>

definition persisted_metadata :: "raw_inbound \<Rightarrow> (string \<times> json) list res" where
  "persisted_metadata r =
     attempt (add_handoff_provider_identity (ri_metadata r) (ri_identity r) (ri_recipient r)) (\<lambda>kvs.
     Inr (dict_put ''durable_attachment_refs'' (JArr (map ref_value (ri_attachments r)))
       (dict_put ''provider_message_id'' (JStr (ri_id r)) kvs)))"

definition requested_handoff :: "string \<Rightarrow> raw_inbound \<Rightarrow> handoff res" where
  "requested_handoff created r =
     attempt (durable_identity r) (\<lambda>(h, s).
     attempt (persisted_metadata r) (\<lambda>kvs.
     attempt (to_utc (ri_timestamp r)) (\<lambda>t.
     Inr \<lparr>ho_id = h, ho_dedupe = Some (dedupe_text (ri_channel r) s (ri_id r)), ho_channel = ri_channel r,
       ho_sender = ri_sender r, ho_chat = ri_chat r, ho_session = s, ho_content = ri_content r,
       ho_timestamp = iso_text t, ho_media = Tree (JArr []), ho_metadata = Tree (json_norm (JObj kvs)),
       ho_created = created\<rparr>)))"

text \<open>\<open>_raw_durable_from_handoff\<close>: \<open>None\<close> for an old row without the marker.\<close>

definition media_list :: "stored_json \<Rightarrow> unit res" where
  "media_list m = (case m of Tree (JArr vs) \<Rightarrow> fail_if (\<not> list_all is_text vs) ValueError | _ \<Rightarrow> Inl ValueError)"

definition row_refs :: "(string \<times> json) list \<Rightarrow> attachment_ref list res" where
  "row_refs kvs = (case map_of kvs ''durable_attachment_refs'' of
     None \<Rightarrow> Inr [] | Some (JArr items) \<Rightarrow> traverse read_ref items | Some _ \<Rightarrow> Inl ValueError)"

definition row_identity :: "handoff \<Rightarrow> (string \<times> json) list \<Rightarrow> (string option \<times> string option) res" where
  "row_identity r kvs = attempt (read_handoff_provider_identity kvs) (\<lambda>found.
     Inr (case found of None \<Rightarrow> (Some (ho_sender r), Some (ho_chat r)) | Some pair \<Rightarrow> pair))"

definition marked_raw :: "handoff \<Rightarrow> (string \<times> json) list \<Rightarrow> moment \<Rightarrow> raw_inbound res" where
  "marked_raw r kvs t = (case metadata_text kvs ''provider_message_id'' of
     None \<Rightarrow> Inl ValueError
   | Some mid \<Rightarrow>
       if map_of kvs ''durable_handoff_id'' \<noteq> Some (JStr (ho_id r)) then Inl ValueError
       else attempt (row_refs kvs) (\<lambda>refs. attempt (row_identity r kvs) (\<lambda>(identity, recipient).
         let raw = \<lparr>ri_id = mid, ri_identity = identity, ri_recipient = recipient, ri_channel = ho_channel r,
               ri_sender = ho_sender r, ri_chat = ho_chat r, ri_content = ho_content r, ri_timestamp = t,
               ri_metadata = strip_handoff_provider_identity kvs, ri_attachments = refs\<rparr>
         in if raw_ok raw then Inr raw else Inl ValueError)))"

definition raw_of_handoff :: "handoff \<Rightarrow> raw_inbound option res" where
  "raw_of_handoff r =
     (if [] \<in> set [ho_id r, ho_channel r, ho_sender r, ho_chat r, ho_content r, ho_timestamp r]
      then Inl ValueError
      else attempt (media_list (ho_media r)) (\<lambda>_. case ho_metadata r of
        Tree (JObj kvs) \<Rightarrow> (case parse_iso (ho_timestamp r) of
            None \<Rightarrow> Inl ValueError
          | Some t \<Rightarrow> if mo_offset t = None then Inl ValueError
              else if \<not> has_durable_marker kvs then Inr None
              else attempt (marked_raw r kvs t) (\<lambda>raw. Inr (Some raw)))
      | _ \<Rightarrow> Inl ValueError))"

end
