(* ===== verification/Custody.thy ===== *)
theory Custody
  imports Inbound_Message
begin

text \<open>
  \<open>InboundCustody\<close> of \<open>plugins/ledger/custody.py\<close> with the leases of \<open>SessionAdmissions\<close>
  (\<open>plugins/ledger/admissions.py\<close>): who owns an input between its arrival and its commit to the
  message log. Every operation runs under one lock, so that operations follow one another;
  the table of handoffs has no other writer.

  What SQLite raises is given with the operations that write, an envelope's identity is
  \<open>en_key\<close>, and closing an envelope does not fail. A retry of a cleanup is one round of its
  loop; its waiting is not modelled.
\<close>

section \<open>State\<close>

record admission =
  ad_id :: string
  ad_channel :: string
  ad_owner :: "nat option"
  ad_cleanup :: bool
  ad_recoverable :: bool

record custody =
  cu_rows :: "handoff list"
  cu_leases :: "(string \<times> string) list"
  cu_sessions :: "string list"
  cu_closed :: "nat list"
  cu_claimed :: "string list"
  cu_handoffs :: "(nat \<times> string) list"
  cu_admissions :: "(string \<times> admission) list"
  cu_shut :: bool
  cu_failed :: bool
  cu_retries :: "nat list"

record envelope =
  en_key :: nat
  en_message :: string
  en_session :: string
  en_channel :: string
  en_metadata :: "(string \<times> json) list"

definition close_envelope :: "nat \<Rightarrow> custody \<Rightarrow> custody" where
  "close_envelope k c = c\<lparr>cu_closed := List.insert k (cu_closed c)\<rparr>"

definition discard_claim :: "string \<Rightarrow> custody \<Rightarrow> custody" where
  "discard_claim h c = c\<lparr>cu_claimed := removeAll h (cu_claimed c)\<rparr>"

section \<open>Leases\<close>

text \<open>\<open>SessionAdmissions.acquire\<close> with the identity that \<open>uuid4\<close> gives.\<close>

definition acquire :: "string \<Rightarrow> string \<Rightarrow> json \<Rightarrow> custody \<Rightarrow> string res \<times> custody" where
  "acquire new key require c =
     (case require of
        JBool needed \<Rightarrow>
          if key = [] then (Inl ValueError, c)
          else if needed \<and> key \<notin> set (cu_sessions c) then (Inl KeyError, c)
          else if new \<in> set (map fst (cu_leases c)) then (Inl IntegrityError, c)
          else (Inr new, c\<lparr>cu_leases := cu_leases c @ [(new, key)]\<rparr>)
      | _ \<Rightarrow> (Inl ValueError, c))"

definition release_admission :: "string \<Rightarrow> custody \<Rightarrow> unit res \<times> custody" where
  "release_admission i c =
     (if i \<notin> set (map fst (cu_leases c)) then (Inl RuntimeError, c)
      else (Inr (), c\<lparr>cu_leases := dict_remove i (cu_leases c)\<rparr>))"

definition clear_stale :: "custody \<Rightarrow> custody" where
  "clear_stale c = c\<lparr>cu_leases := []\<rparr>"

text \<open>\<open>_ensure_durable_admission\<close> and \<open>_release_new_durable_admission\<close>.\<close>

definition ensure_admission ::
  "string \<Rightarrow> string \<Rightarrow> string \<Rightarrow> string \<Rightarrow> json \<Rightarrow> custody \<Rightarrow> (admission \<times> bool) res \<times> custody" where
  "ensure_admission new h session channel require c = (case map_of (cu_admissions c) h of
     Some a \<Rightarrow> if ad_channel a \<noteq> channel then (Inl RuntimeError, c) else (Inr (a, False), c)
   | None \<Rightarrow> (case acquire new session require c of
       (Inl e, c') \<Rightarrow> (Inl e, c')
     | (Inr i, c') \<Rightarrow>
         (let a = \<lparr>ad_id = i, ad_channel = channel, ad_owner = None, ad_cleanup = False, ad_recoverable = False\<rparr>
          in (Inr (a, True), c'\<lparr>cu_admissions := dict_put h a (cu_admissions c')\<rparr>))))"

definition release_new :: "string \<Rightarrow> custody \<Rightarrow> unit res \<times> custody" where
  "release_new h c = (case map_of (cu_admissions c) h of
     None \<Rightarrow> (Inl KeyError, c)
   | Some a \<Rightarrow>
       (let c' = c\<lparr>cu_admissions := dict_remove h (cu_admissions c)\<rparr> in
        if ad_owner a \<noteq> None then (Inl RuntimeError, c') else release_admission (ad_id a) c'))"

definition require_existing :: "(string \<times> json) list \<Rightarrow> json" where
  "require_existing kvs = (case map_of kvs ''require_existing_session'' of None \<Rightarrow> JBool True | Some v \<Rightarrow> v)"

section \<open>Reserving and deferring\<close>

text \<open>The call of the store, which raises what SQLite raises.\<close>

definition store_reserve :: "py_error option \<Rightarrow> handoff res \<Rightarrow> custody \<Rightarrow> (string \<times> bool) res \<times> custody" where
  "store_reserve fault q c = (case q of
     Inl e \<Rightarrow> (Inl e, c)
   | Inr r \<Rightarrow> (case fault of
       Some e \<Rightarrow> (Inl e, c)
     | None \<Rightarrow> (case reserve_handoff (\<lambda>_ rows. rows) r (cu_rows c) of
         (x, rows) \<Rightarrow> (x, c\<lparr>cu_rows := rows\<rparr>))))"

definition store_complete :: "py_error option \<Rightarrow> string \<Rightarrow> custody \<Rightarrow> unit res \<times> custody" where
  "store_complete fault h c = (case fault of
     Some e \<Rightarrow> (Inl e, c)
   | None \<Rightarrow> (case complete_handoff h (cu_rows c) of (x, rows) \<Rightarrow> (x, c\<lparr>cu_rows := rows\<rparr>)))"

definition after_reserve ::
  "string \<Rightarrow> bool \<Rightarrow> (string \<times> bool) res \<Rightarrow> custody \<Rightarrow> bool res \<times> custody" where
  "after_reserve h acquired outcome c = (case outcome of
     Inl e \<Rightarrow> if acquired then (case release_new h c of (Inl e', c') \<Rightarrow> (Inl e', c') | (Inr _, c') \<Rightarrow> (Inl e, c'))
       else (Inl e, c)
   | Inr (found, created) \<Rightarrow>
       if \<not> created \<and> found \<noteq> h
       then (if acquired then (case release_new h c of (Inl e', c') \<Rightarrow> (Inl e', c') | (Inr _, c') \<Rightarrow> (Inr False, c'))
         else (Inr False, c))
       else (case map_of (cu_admissions c) h of
           None \<Rightarrow> (Inl KeyError, c)
         | Some a \<Rightarrow> (Inr True, discard_claim h (c\<lparr>cu_admissions :=
             dict_put h (a\<lparr>ad_recoverable := False\<rparr>) (cu_admissions c)\<rparr>))))"

definition reserve_durable_inbound ::
  "py_error option \<Rightarrow> string \<Rightarrow> string \<Rightarrow> raw_inbound \<Rightarrow> custody \<Rightarrow> bool res \<times> custody" where
  "reserve_durable_inbound fault new created raw c =
     (if \<not> has_durable_marker (ri_metadata raw) then (Inl ValueError, c)
      else if cu_shut c then (Inl RuntimeError, c)
      else case durable_identity raw of
        Inl e \<Rightarrow> (Inl e, c)
      | Inr (h, session) \<Rightarrow>
        (case ensure_admission new h session (ri_channel raw) (require_existing (ri_metadata raw)) c of
           (Inl e, c1) \<Rightarrow> (Inl e, c1)
         | (Inr (a, acquired), c1) \<Rightarrow>
             if ad_owner a \<noteq> None then (Inr False, c1)
             else (case store_reserve fault (requested_handoff created raw) c1 of
               (outcome, c2) \<Rightarrow> after_reserve h acquired outcome c2)))"

definition defer_durable_inbound :: "string \<Rightarrow> custody \<Rightarrow> bool res \<times> custody" where
  "defer_durable_inbound h c =
     (if cu_shut c then (Inl RuntimeError, c)
      else case map_of (cu_admissions c) h of
        None \<Rightarrow> (Inr True, c)
      | Some a \<Rightarrow>
          if ad_owner a \<noteq> None then (Inr False, c)
          else (Inr True, discard_claim h (c\<lparr>cu_admissions :=
            dict_put h (a\<lparr>ad_recoverable := True\<rparr>) (cu_admissions c)\<rparr>)))"

definition settle_rejected_inbound ::
  "py_error option \<Rightarrow> string \<Rightarrow> string \<Rightarrow> string \<Rightarrow> custody \<Rightarrow> unit res \<times> custody" where
  "settle_rejected_inbound fault channel session mid c =
     (if cu_shut c then (Inl RuntimeError, c)
      else case read_handoff channel session mid (cu_rows c) (cu_rows c) of
        Inl e \<Rightarrow> (Inl e, c)
      | Inr None \<Rightarrow> (Inr (), c)
      | Inr (Some r) \<Rightarrow>
          (let adm = map_of (cu_admissions c) (ho_id r) in
           if (case adm of None \<Rightarrow> False | Some a \<Rightarrow> ad_owner a \<noteq> None) then (Inl RuntimeError, c)
           else (case store_complete fault (ho_id r) c of
               (Inl e, c1) \<Rightarrow> (Inl e, c1)
             | (Inr _, c1) \<Rightarrow>
                 (case (if adm = None then (Inr (), c1) else release_new (ho_id r) c1) of
                    (Inl e, c2) \<Rightarrow> (Inl e, c2)
                  | (Inr _, c2) \<Rightarrow> (Inr (), discard_claim (ho_id r) c2)))))"

section \<open>Owning, completing and retaining an envelope\<close>

definition set_owner :: "string \<Rightarrow> admission \<Rightarrow> nat \<Rightarrow> custody \<Rightarrow> custody" where
  "set_owner h a k c = c\<lparr>cu_admissions := dict_put h (a\<lparr>ad_owner := Some k, ad_recoverable := False\<rparr>) (cu_admissions c),
     cu_handoffs := dict_put k h (cu_handoffs c)\<rparr>"

text \<open>The last part of \<open>_reserve_durable_input\<close>, with the admission at hand: the row has to
  be the envelope's.\<close>

definition bind_envelope :: "envelope \<Rightarrow> string \<Rightarrow> admission \<Rightarrow> custody \<Rightarrow> unit res \<times> custody" where
  "bind_envelope e h a c =
     (if ad_owner a \<noteq> None then (Inl RuntimeError, close_envelope (en_key e) c)
      else case read_handoff (en_channel e) (en_session e) (en_message e) (cu_rows c) (cu_rows c) of
        Inl err \<Rightarrow> (Inl err, c)
      | Inr row \<Rightarrow>
          if (case row of None \<Rightarrow> True | Some r \<Rightarrow> ho_id r \<noteq> h)
          then (Inl RuntimeError, close_envelope (en_key e) c)
          else (Inr (), set_owner h a (en_key e) c))"

definition envelope_handoff :: "envelope \<Rightarrow> string option" where
  "envelope_handoff e =
     (if has_durable_marker (en_metadata e) \<and> metadata_text (en_metadata e) ''provider_message_id'' \<noteq> None \<and>
         map_of (en_metadata e) ''session_key_override'' = Some (JStr (en_session e))
      then metadata_text (en_metadata e) ''durable_handoff_id'' else None)"

definition reserve_durable_input :: "string \<Rightarrow> envelope \<Rightarrow> custody \<Rightarrow> unit res \<times> custody" where
  "reserve_durable_input new e c = (case envelope_handoff e of
     None \<Rightarrow> (Inl RuntimeError, close_envelope (en_key e) c)
   | Some h \<Rightarrow>
       if cu_shut c then (Inl RuntimeError, close_envelope (en_key e) c)
       else (case map_of (cu_admissions c) h of
           None \<Rightarrow>
             if h \<notin> set (cu_claimed c) then (Inl RuntimeError, close_envelope (en_key e) c)
             else (case ensure_admission new h (en_session e) (en_channel e) (require_existing (en_metadata e)) c of
                 (Inl err, c1) \<Rightarrow> (Inl err, c1)
               | (Inr (a, _), c1) \<Rightarrow> bind_envelope e h a c1)
         | Some a \<Rightarrow>
             if ad_channel a \<noteq> en_channel e then (Inl RuntimeError, close_envelope (en_key e) c)
             else bind_envelope e h a c))"

definition prepare_channel_input :: "string \<Rightarrow> envelope \<Rightarrow> custody \<Rightarrow> unit res \<times> custody" where
  "prepare_channel_input new e c =
     (if cu_failed c then (Inl RuntimeError, c)
      else if cu_shut c then (Inl RuntimeError, c)
      else if en_key e \<in> set (cu_closed c) then (Inl RuntimeError, c)
      else if has_durable_marker (en_metadata e) then reserve_durable_input new e c
      else (Inr (), c))"

text \<open>\<open>_finalize_durable_owner_locked\<close>: after the row is gone, the envelope is closed, the
  lease released and the owner forgotten.\<close>

definition finalize_owner :: "nat \<Rightarrow> string \<Rightarrow> admission \<Rightarrow> custody \<Rightarrow> unit res \<times> custody" where
  "finalize_owner k h a c =
     (if map_of (cu_admissions c) h \<noteq> Some a then (Inl RuntimeError, c)
      else if map_of (cu_handoffs c) k \<noteq> Some h then (Inl RuntimeError, c)
      else (case release_admission (ad_id a) (close_envelope k c) of
          (Inl e, c1) \<Rightarrow> (Inl e, c1)
        | (Inr _, c1) \<Rightarrow> (Inr (), discard_claim h (c1\<lparr>cu_handoffs := dict_remove k (cu_handoffs c1),
            cu_admissions := dict_remove h (cu_admissions c1)\<rparr>))))"

definition complete_durable_inbound ::
  "py_error option \<Rightarrow> nat \<Rightarrow> string \<Rightarrow> custody \<Rightarrow> unit res \<times> custody" where
  "complete_durable_inbound fault k h c = (case map_of (cu_admissions c) h of
     None \<Rightarrow> (Inl RuntimeError, c)
   | Some a \<Rightarrow>
       if ad_owner a \<noteq> Some k then (Inl RuntimeError, c)
       else if ad_cleanup a then (Inl RuntimeError, c)
       else (case store_complete fault h c of
           (Inl e, c1) \<Rightarrow>
             if e = OSError
             then (let c2 = c1\<lparr>cu_admissions := dict_put h (a\<lparr>ad_cleanup := True\<rparr>) (cu_admissions c1)\<rparr> in
               if k \<in> set (cu_retries c2) then (Inl RuntimeError, c2)
               else (Inr (), c2\<lparr>cu_retries := k # cu_retries c2\<rparr>))
             else (Inl e, c1\<lparr>cu_failed := True\<rparr>)
         | (Inr _, c1) \<Rightarrow> finalize_owner k h a c1))"

definition complete_channel_input :: "py_error option \<Rightarrow> nat \<Rightarrow> custody \<Rightarrow> unit res \<times> custody" where
  "complete_channel_input fault k c = (case map_of (cu_handoffs c) k of
     None \<Rightarrow> (Inr (), close_envelope k c)
   | Some h \<Rightarrow> complete_durable_inbound fault k h c)"

definition retain_channel_input :: "nat \<Rightarrow> custody \<Rightarrow> unit res \<times> custody" where
  "retain_channel_input k c = (case map_of (cu_handoffs c) k of
     None \<Rightarrow> (Inr (), close_envelope k c)
   | Some h \<Rightarrow> (case map_of (cu_admissions c) h of
         None \<Rightarrow> (Inl RuntimeError, c)
       | Some a \<Rightarrow>
           if ad_owner a \<noteq> Some k then (Inl RuntimeError, c)
           else (Inr (), discard_claim h ((close_envelope k c)\<lparr>cu_admissions := dict_put h
               (a\<lparr>ad_owner := None, ad_cleanup := False, ad_recoverable := True\<rparr>) (cu_admissions c),
             cu_handoffs := dict_remove k (cu_handoffs c)\<rparr>))))"

text \<open>One round of \<open>_retry_inbound_cleanup\<close>: it goes on after \<open>OSError\<close>, ends after the
  row is gone, and ends the custody's cleanup for good after anything else.\<close>

definition end_retry :: "nat \<Rightarrow> custody \<Rightarrow> custody" where
  "end_retry k c = c\<lparr>cu_retries := removeAll k (cu_retries c)\<rparr>"

definition fail_retry :: "nat \<Rightarrow> custody \<Rightarrow> custody" where
  "fail_retry k c = (end_retry k c)\<lparr>cu_failed := True\<rparr>"

definition retry_cleanup :: "py_error option \<Rightarrow> nat \<Rightarrow> custody \<Rightarrow> custody" where
  "retry_cleanup fault k c =
     (if k \<notin> set (cu_retries c) then c
      else case map_of (cu_handoffs c) k of
        None \<Rightarrow> fail_retry k c
      | Some h \<Rightarrow> (case map_of (cu_admissions c) h of
          None \<Rightarrow> fail_retry k c
        | Some a \<Rightarrow> (case ad_owner a of
            None \<Rightarrow> fail_retry k c
          | Some owner \<Rightarrow>
              if \<not> ad_cleanup a then fail_retry k c
              else (case store_complete fault h c of
                  (Inl e, c1) \<Rightarrow> if e = OSError then c1 else fail_retry k c1
                | (Inr _, c1) \<Rightarrow> (case finalize_owner owner h a c1 of
                    (Inl e, c2) \<Rightarrow> fail_retry k c2
                  | (Inr _, c2) \<Rightarrow> end_retry k c2)))))"

text \<open>\<open>pending_durable_attachment_refs\<close>: the attachments of an input that is still in the table.\<close>

definition pending_attachment_refs ::
  "string \<Rightarrow> string \<Rightarrow> string \<Rightarrow> handoff list \<Rightarrow> attachment_ref list option res" where
  "pending_attachment_refs channel session mid rows =
     attempt (read_handoff channel session mid rows rows) (\<lambda>found. case found of
       None \<Rightarrow> Inr None
     | Some r \<Rightarrow> attempt (raw_of_handoff r) (\<lambda>raw. case raw of
         None \<Rightarrow> Inl RuntimeError | Some m \<Rightarrow> Inr (Some (ri_attachments m))))"

section \<open>Recovery\<close>

definition recovery_page_size :: int where "recovery_page_size = 256"

definition in_flight :: "custody \<Rightarrow> string list" where
  "in_flight c = map snd (cu_handoffs c) @ map fst (filter (\<lambda>(h, a). \<not> ad_recoverable a) (cu_admissions c))"

text \<open>The rows of a page that are handed out, claimed one by one; a row that cannot be read
  ends the page.\<close>

fun claim_rows ::
  "string list \<Rightarrow> string list \<Rightarrow> handoff list \<Rightarrow> ((string \<times> raw_inbound) list) res \<times> string list" where
  "claim_rows busy claimed [] = (Inr [], claimed)"
| "claim_rows busy claimed (r # rs) =
     (if ho_id r \<in> set claimed \<or> ho_id r \<in> set busy then claim_rows busy claimed rs
      else case raw_of_handoff r of
        Inl e \<Rightarrow> (Inl e, claimed)
      | Inr None \<Rightarrow> claim_rows busy claimed rs
      | Inr (Some raw) \<Rightarrow>
          (case claim_rows busy (ho_id r # claimed) rs of
             (Inl e, claimed') \<Rightarrow> (Inl e, removeAll (ho_id r) claimed')
           | (Inr out, claimed') \<Rightarrow> (Inr ((ho_id r, raw) # out), claimed')))"

text \<open>One page of \<open>recover_durable_inbounds\<close>: its rows, for the cursor, and what is handed out.\<close>

definition recover_page ::
  "(string \<times> string) option \<Rightarrow> custody \<Rightarrow> (handoff list \<times> (string \<times> raw_inbound) list) res \<times> custody" where
  "recover_page after c = (case list_handoffs (Some recovery_page_size) after (cu_rows c) of
     Inl e \<Rightarrow> (Inl e, c)
   | Inr rows \<Rightarrow> (case claim_rows (in_flight c) (cu_claimed c) rows of
       (Inl e, claimed) \<Rightarrow> (Inl e, c\<lparr>cu_claimed := claimed\<rparr>)
     | (Inr out, claimed) \<Rightarrow> (Inr (rows, out), c\<lparr>cu_claimed := claimed\<rparr>)))"

text \<open>The end of a page: what it claimed is free again.\<close>

definition release_claims :: "string list \<Rightarrow> custody \<Rightarrow> custody" where
  "release_claims hs c = c\<lparr>cu_claimed := filter (\<lambda>h. h \<notin> set hs) (cu_claimed c)\<rparr>"

definition start_recovery :: "custody \<Rightarrow> unit res" where
  "start_recovery c = (if cu_shut c then Inl RuntimeError else if cu_failed c then Inl RuntimeError else Inr ())"

section \<open>Shutting down\<close>

text \<open>\<open>_release_durable_admissions_for_shutdown\<close>: up to the first lease that is missing.\<close>

fun release_all :: "(string \<times> admission) list \<Rightarrow> custody \<Rightarrow> unit res \<times> custody" where
  "release_all [] c = (Inr (), c)"
| "release_all ((h, a) # rest) c =
     (let c1 = (case ad_owner a of
          None \<Rightarrow> c
        | Some k \<Rightarrow> (close_envelope k c)\<lparr>cu_handoffs := dict_remove k (cu_handoffs c)\<rparr>) in
      case release_admission (ad_id a) c1 of
        (Inl e, c2) \<Rightarrow> (Inl e, c2)
      | (Inr _, c2) \<Rightarrow> release_all rest
          (discard_claim h (c2\<lparr>cu_admissions := dict_remove h (cu_admissions c2)\<rparr>)))"

definition close_custody :: "custody \<Rightarrow> unit res \<times> custody" where
  "close_custody c = (case release_all (cu_admissions c) (c\<lparr>cu_shut := True, cu_retries := []\<rparr>) of
     (Inl e, c1) \<Rightarrow> (Inl e, c1)
   | (Inr _, c1) \<Rightarrow> if cu_failed c1 then (Inl RuntimeError, c1) else (Inr (), c1))"

end
