(* ===== verification/Inbound_Properties.thy ===== *)
theory Inbound_Properties
  imports Inbound_Message
begin

text \<open>
  Properties of the table of handoffs and of its rows: a reservation that is repeated finds the
  first one, and a message is read back as it was written.
\<close>

section \<open>Looking for a message identity\<close>

lemma matching_rows_filter:
  "matching_rows m rows = Inr ms \<longleftrightarrow> (\<forall>r \<in> set rows. \<not> isl (projected_message_id (ho_metadata r))) \<and>
     ms = filter (\<lambda>r. projected_message_id (ho_metadata r) = Inr (Some m)) rows"
proof (induction rows arbitrary: ms)
  case (Cons r rows)
  then show ?case by (cases "projected_message_id (ho_metadata r)") (auto simp: attempt_eq_Inr)
qed auto

lemma find_dedupe_append:
  assumes "handoff_by_dedupe key rows = None"
  shows "handoff_by_dedupe key (rows @ [q]) = (if ho_dedupe q = key \<and> key \<noteq> None then Some q else None)"
proof (cases key)
  case (Some k)
  have "find P xs = None \<Longrightarrow> find P (xs @ [q]) = (if P q then Some q else None)" for P and xs :: "handoff list"
    by (induction xs) (simp_all split: if_split_asm)
  then show ?thesis using assms Some by (auto simp: handoff_by_dedupe_def)
qed (simp add: handoff_by_dedupe_def)

lemma find_id_append:
  assumes "handoff_by_id i rows = None"
  shows "handoff_by_id i (rows @ [q]) = (if ho_id q = i then Some q else None)"
  using assms unfolding handoff_by_id_def by (induction rows) (simp_all split: if_split_asm)

text \<open>A table without the identity still gives an answer when a row is added.\<close>

lemma find_identity_append:
  assumes "find_identity channel session mid rows rows = Inr None"
    and "\<not> isl (projected_message_id (ho_metadata q))"
  shows "\<not> isl (find_identity channel session mid (rows @ [q]) (rows @ [q]))"
proof (cases mid)
  case (Some m)
  let ?here = "\<lambda>r. ho_channel r = channel \<and> ho_session r = session"
  let ?match = "\<lambda>r. projected_message_id (ho_metadata r) = Inr (Some m)"
  have none: "handoff_by_dedupe (Some (dedupe_text channel session m)) rows = None"
    using assms(1) Some by (auto simp: find_identity_def split: option.split_asm)
  then obtain ms where ms: "matching_rows m (sort_key arrival_key (filter ?here rows)) = Inr ms" "unique_match ms = Inr None"
    using assms(1) Some by (auto simp: find_identity_def attempt_eq_Inr)
  have empty: "ms = []" using ms(2) by (auto simp: unique_match_def split: list.splits)
  have clean: "\<forall>r \<in> set (filter ?here rows). \<not> isl (projected_message_id (ho_metadata r))" "filter ?match (filter ?here rows) = []"
  proof -
    have "filter ?match (sort_key arrival_key (filter ?here rows)) = []"
      using ms(1) empty unfolding matching_rows_filter by simp
    then show "filter ?match (filter ?here rows) = []" unfolding filter_empty_conv by simp
    show "\<forall>r \<in> set (filter ?here rows). \<not> isl (projected_message_id (ho_metadata r))"
      using ms(1) unfolding matching_rows_filter by simp
  qed
  let ?all = "sort_key arrival_key (filter ?here (rows @ [q]))"
  have "filter ?match ?all = sort_key arrival_key (filter ?match (filter ?here (rows @ [q])))" by (rule filter_sort)
  also have "filter ?match (filter ?here (rows @ [q])) = filter ?match (filter ?here [q])" using clean(2) by simp
  also have "sort_key arrival_key (filter ?match (filter ?here [q])) = filter ?match (filter ?here [q])" by simp
  finally have "matching_rows m ?all = Inr (filter ?match (filter ?here [q]))"
    using clean(1) assms(2) unfolding matching_rows_filter by auto
  moreover have "\<not> isl (unique_match (filter ?match (filter ?here [q])))" by (simp add: unique_match_def)
  ultimately show ?thesis using Some none find_dedupe_append[OF none, of q] by (simp add: find_identity_def)
qed (simp add: find_identity_def)

section \<open>A reservation that is repeated\<close>

lemma first_reservation:
  assumes "reserve_handoff (\<lambda>_ rows. rows) q rows = (Inr (i, True), rows')"
  shows "all_fields_present q" "i = ho_id q" "rows' = rows @ [q]" "handoff_by_id (ho_id q) rows = None"
    "handoff_by_dedupe (ho_dedupe q) rows = None" "validate_existing q True False q = Inr ()"
    "\<exists>mid. projected_message_id (ho_metadata q) = Inr mid \<and>
       find_identity (ho_channel q) (ho_session q) mid rows rows = Inr None"
proof -
  show a: "all_fields_present q" using assms by (simp add: reserve_handoff_def split: if_split_asm)
  obtain mid where mid: "projected_message_id (ho_metadata q) = Inr mid"
    using assms a by (cases "projected_message_id (ho_metadata q)") (simp_all add: reserve_handoff_def Let_def)
  have stage: "insert_stage q mid rows = (Inr (i, True), rows')"
    and none: "attempt (find_identity (ho_channel q) (ho_session q) mid rows rows) (\<lambda>legacy.
       existing_handoff q (handoff_by_id (ho_id q) rows) (handoff_by_dedupe (ho_dedupe q) rows) legacy) = Inr None"
    using assms a mid by (simp_all add: reserve_handoff_def Let_def split: sum.split_asm option.split_asm)
  then show "\<exists>mid. projected_message_id (ho_metadata q) = Inr mid \<and> find_identity (ho_channel q) (ho_session q) mid rows rows = Inr None"
    using mid by (auto simp: attempt_eq_Inr existing_handoff_def fail_if_def split: option.split_asm if_split_asm)
  show free: "handoff_by_id (ho_id q) rows = None" "handoff_by_dedupe (ho_dedupe q) rows = None"
    using none by (auto simp: attempt_eq_Inr existing_handoff_def split: option.split_asm)
  have ins: "insert_handoff q rows = (True, rows @ [q])" by (simp add: insert_handoff_def free)
  have win: "winning_row q mid (rows @ [q]) = Inr q" by (simp add: winning_row_def find_id_append[OF free(1)])
  show "i = ho_id q" "rows' = rows @ [q]" "validate_existing q True False q = Inr ()"
    using stage by (auto simp: insert_stage_def ins win attempt_eq_Inr attempt_eq_Inl split: sum.split_asm)
qed

lemma reserved_again:
  assumes "reserve_handoff (\<lambda>_ rows. rows) q rows = (Inr (i, True), rows')"
  shows "reserve_handoff (\<lambda>_ rows. rows) q rows' = (Inr (i, False), rows')"
proof -
  note f = first_reservation[OF assms]
  obtain mid where mid: "projected_message_id (ho_metadata q) = Inr mid"
      "find_identity (ho_channel q) (ho_session q) mid rows rows = Inr None" using f(7) by blast
  have id: "handoff_by_id (ho_id q) rows' = Some q" by (simp add: f(3) find_id_append[OF f(4)])
  have dd: "handoff_by_dedupe (ho_dedupe q) rows' = (if ho_dedupe q = None then None else Some q)"
    by (simp add: f(3) find_dedupe_append[OF f(5)])
  obtain legacy where leg: "find_identity (ho_channel q) (ho_session q) mid rows' rows' = Inr legacy"
    using find_identity_append[OF mid(2), of q] mid(1) f(3)
    by (cases "find_identity (ho_channel q) (ho_session q) mid rows' rows'") auto
  have same: "existing_handoff q (Some q) (handoff_by_dedupe (ho_dedupe q) rows') legacy = Inr (Some q)"
    by (simp add: existing_handoff_def dd fail_if_def)
  show ?thesis using f(1,2,6) by (simp add: reserve_handoff_def Let_def id mid(1) leg same allow_legacy_dedupe_def)
qed

section \<open>Times\<close>

lemma days_positive: "1 \<le> m \<Longrightarrow> m \<le> 12 \<Longrightarrow> 1 \<le> days_in_month y m"
proof -
  assume m: "1 \<le> m" "m \<le> 12"
  have "\<forall>k < 12. 1 \<le> month_lengths y ! k" by (simp add: month_lengths_def All_less_Suc2 eval_nat_numeral)
  then show "1 \<le> days_in_month y m" using m by (auto simp: days_in_month_def)
qed

lemma december: "days_in_month y 12 = 31" by (simp add: days_in_month_def month_lengths_def)

abbreviation date_ok :: "nat \<times> nat \<times> nat \<Rightarrow> bool" where
  "date_ok \<equiv> (\<lambda>(y, m, d). 1 \<le> m \<and> m \<le> 12 \<and> 1 \<le> d \<and> d \<le> days_in_month y m)"

lemma neighbour_days_ok: "date_ok day \<Longrightarrow> date_ok (next_day day)" "date_ok day \<Longrightarrow> date_ok (prev_day day)"
proof -
  obtain y m d where day: "day = (y, m, d)" by (metis surj_pair)
  show "date_ok day \<Longrightarrow> date_ok (next_day day)"
    unfolding day next_day_def using days_positive[of "m + 1" y] days_positive[of 1 "y + 1"] by auto
  show "date_ok day \<Longrightarrow> date_ok (prev_day day)"
    unfolding day prev_day_def using days_positive[of "m - 1" y] by (auto simp: december)
qed

text \<open>The day after has the next ordinal, the day before the previous one.\<close>

lemma leap_days: "Suc n div 4 + Suc n div 400 + n div 100 = n div 4 + n div 400 + Suc n div 100 + (if leap_year (Suc n) then 1 else 0)"
proof -
  have "400 dvd Suc n \<Longrightarrow> 100 dvd Suc n" "100 dvd Suc n \<Longrightarrow> 4 dvd Suc n" by (auto elim: dvd_trans[rotated])
  moreover have "Suc n div k = n div k + (if k dvd Suc n then 1 else 0)" for k
    by (simp add: div_Suc dvd_eq_mod_eq_0)
  moreover have "leap_year (Suc n) \<longleftrightarrow> 4 dvd Suc n \<and> (\<not> 100 dvd Suc n \<or> 400 dvd Suc n)"
    by (simp add: leap_year_def dvd_eq_mod_eq_0)
  ultimately show ?thesis by (cases "4 dvd Suc n"; cases "100 dvd Suc n"; cases "400 dvd Suc n") (simp_all only: if_True if_False simp_thms add_0_right ac_simps)
qed

lemma year_arith:
  fixes a a' c c' e e' l n :: nat
  assumes "c \<le> a" "c' \<le> a'" "a' + e' + c = a + e + c' + l"
  shows "Suc n * 365 + a' - c' + e' + 1 = Suc (n * 365 + a - c + e + (334 + l) + 31)"
  using assms by simp

lemma ordinal_next_year: "1 \<le> y \<Longrightarrow> ordinal (y + 1) 1 1 = Suc (ordinal y 12 31)"
proof -
  assume "1 \<le> y"
  then obtain n where y: "y = Suc n" by (cases y) auto
  have le: "n div 100 \<le> n div 4" "Suc n div 100 \<le> Suc n div 4" by (rule div_le_mono2; simp)+
  have days: "sum_list (take 11 (month_lengths (Suc n))) = 334 + (if leap_year (Suc n) then 1 else 0)"
    by (simp add: month_lengths_def)
  have "ordinal (y + 1) 1 1 = Suc n * 365 + Suc n div 4 - Suc n div 100 + Suc n div 400 + 1"
    by (simp add: ordinal_def y)
  also have "\<dots> = Suc (n * 365 + n div 4 - n div 100 + n div 400 + (334 + (if leap_year (Suc n) then 1 else 0)) + 31)"
    by (rule year_arith[OF le leap_days])
  also have "\<dots> = Suc (ordinal y 12 31)" unfolding days[symmetric] by (simp add: ordinal_def y)
  finally show ?thesis .
qed

lemma ordinal_next:
  assumes "date_ok (y, m, d)" "1 \<le> y" "next_day (y, m, d) = (y', m', d')"
  shows "ordinal y' m' d' = Suc (ordinal y m d)" "1 \<le> y'"
proof -
  consider "d < days_in_month y m" | "d = days_in_month y m" "m < 12" | "d = days_in_month y m" "m = 12"
    using assms(1) by (auto simp: le_less)
  then show "ordinal y' m' d' = Suc (ordinal y m d)"
  proof cases
    case 2
    have "sum_list (take m (month_lengths y)) = sum_list (take (m - 1) (month_lengths y)) + month_lengths y ! (m - 1)"
      using take_Suc_conv_app_nth[of "m - 1" "month_lengths y"] assms(1) 2 by (simp add: month_lengths_def del: take_Suc_Cons)
    then show ?thesis using assms(1,3) 2 by (auto simp: next_day_def ordinal_def days_in_month_def)
  next
    case 3
    then have "y' = y + 1" "m' = 1" "d' = 1" using assms(3) by (auto simp: next_day_def december)
    then show ?thesis using ordinal_next_year[OF assms(2)] 3 by (simp add: december)
  next
    case 1
    have le: "(y - 1) div 100 \<le> (y - 1) div 4" by (rule div_le_mono2) simp_all
    have "y' = y" "m' = m" "d' = d + 1" using assms(3) 1 by (auto simp: next_day_def)
    then show ?thesis using le by (simp add: ordinal_def)
  qed
  show "1 \<le> y'" using assms(2,3) by (auto simp: next_day_def split: if_split_asm)
qed

lemma next_of_prev:
  assumes "date_ok (y, m, d)" "prev_day (y, m, d) = (y', m', d')" "1 \<le> y'"
  shows "next_day (y', m', d') = (y, m, d)"
  using assms days_positive[of "m - 1" y] by (auto simp: prev_day_def next_day_def december split: if_split_asm)

lemma to_utc_ok:
  assumes "to_utc t = Inr u" "moment_ok t"
  shows "moment_ok u" "mo_offset u = Some 0" "instant u = instant t"
proof -
  define minutes where "minutes = int (mo_hour t) * 60 + int (mo_minute t) - (case mo_offset t of None \<Rightarrow> 0 | Some z \<Rightarrow> z)"
  define today where "today = (mo_year t, mo_month t, mo_day t)"
  define day where "day = (if minutes < 0 then prev_day today else if minutes < 1440 then today else next_day today)"
  obtain y m d where ymd: "day = (y, m, d)" by (metis surj_pair)
  have u: "u = t\<lparr>mo_year := y, mo_month := m, mo_day := d, mo_hour := nat (minutes mod 1440) div 60,
      mo_minute := nat (minutes mod 1440) mod 60, mo_offset := Some 0\<rparr>" and y: "1 \<le> y" "y \<le> 9999"
    using assms(1) ymd unfolding to_utc_def minutes_def[symmetric] today_def[symmetric] day_def[symmetric] Let_def
    by (auto split: if_split_asm)
  have today: "date_ok today" using assms(2) moment_ok_month[OF assms(2)] by (simp add: moment_ok_def today_def)
  then have ok: "date_ok (y, m, d)" unfolding ymd[symmetric] day_def using neighbour_days_ok by simp
  have clock: "nat (minutes mod 1440) div 60 < 24" by (simp add: nat_less_iff less_mult_imp_div_less)
  then show "moment_ok u" "mo_offset u = Some 0" using assms(2) y ok unfolding u by (auto simp: moment_ok_def)
  have range: "-1440 \<le> minutes" "minutes < 2880"
    using assms(2) by (auto simp: minutes_def moment_ok_def split: option.splits)
  have year: "1 \<le> mo_year t" using assms(2) by (simp add: moment_ok_def)
  have shift: "int (ordinal y m d) = int (ordinal (mo_year t) (mo_month t) (mo_day t)) + minutes div 1440"
  proof -
    consider "minutes < 0" | "0 \<le> minutes" "minutes < 1440" | "1440 \<le> minutes" by linarith
    then show ?thesis
    proof cases
      case 1
      then have p: "prev_day (mo_year t, mo_month t, mo_day t) = (y, m, d)" using ymd by (simp add: day_def today_def)
      have "minutes div 1440 = -1" using 1 range by (intro int_div_pos_eq[where r = "minutes + 1440"]) simp_all
      then show ?thesis
        using ordinal_next(1)[OF ok y(1) next_of_prev[OF today[unfolded today_def] p y(1)]] by simp
    next
      case 3
      then have n: "next_day (mo_year t, mo_month t, mo_day t) = (y, m, d)" using ymd by (simp add: day_def today_def)
      have "minutes div 1440 = 1" using 3 range by (intro int_div_pos_eq[where r = "minutes - 1440"]) simp_all
      then show ?thesis using ordinal_next(1)[OF today[unfolded today_def] year n] by simp
    next
      case 2
      then show ?thesis using ymd by (simp add: day_def today_def)
    qed
  qed
  have hm: "int (nat (minutes mod 1440) div 60) * 60 + int (nat (minutes mod 1440) mod 60) = minutes mod 1440"
    by (simp add: zdiv_int zmod_int)
  have "instant u = ((int (ordinal y m d) * 1440 + minutes mod 1440) * 60 + int (mo_second t)) * 1000000 + int (mo_micro t)"
    unfolding u instant_def using hm by (simp add: algebra_simps)
  also have "int (ordinal y m d) * 1440 + minutes mod 1440 = int (ordinal (mo_year t) (mo_month t) (mo_day t)) * 1440 + minutes"
    unfolding shift using div_mult_mod_eq[of minutes 1440] by (simp add: algebra_simps)
  finally show "instant u = instant t" by (simp add: instant_def minutes_def algebra_simps)
qed

section \<open>Attachments\<close>

lemma kind_of_kind_word [simp]: "kind_of_word (kind_word k) = Some k"
  by (cases k) (simp_all add: kind_of_word_def)

lemma opt_text_null [simp]: "opt_text (Some (json_norm (text_null v))) = Inr v"
  by (cases v) (simp_all add: opt_text_def text_null_def)

lemma read_ref_value:
  assumes "attachment_ref_ok a"
  shows "read_ref (json_norm (ref_value a)) = Inr a"
proof -
  let ?kvs = "[(''artifact_id'', JStr (at_id a)), (''kind'', JStr (kind_word (at_kind a))),
     (''filename'', text_null (at_filename a)), (''media_type'', text_null (at_media a)),
     (''size_bytes'', JInt (at_size a)), (''sha256'', JStr (at_sha a))]"
  have get: "map_of (sort_fields (map (map_prod id json_norm) ?kvs)) k = map_option json_norm (map_of ?kvs k)" for k
    by (rule map_of_norm) simp
  have same: "\<lparr>at_id = at_id a, at_kind = at_kind a, at_filename = at_filename a, at_media = at_media a,
      at_size = at_size a, at_sha = at_sha a\<rparr> = a" by simp
  show ?thesis using assms unfolding ref_value_def json_norm.simps
    by (simp add: same read_ref_def get text_field_def int_field_def Let_def del: list.map)
qed

lemma read_refs:
  "list_all attachment_ref_ok as \<Longrightarrow> traverse read_ref (map json_norm (map ref_value as)) = Inr as"
  by (induction as) (simp_all add: read_ref_value)
section \<open>Rows\<close>

abbreviation fixed_keys :: "string set" where
  "fixed_keys \<equiv> {identity_key, ''provider_message_id'', ''durable_attachment_refs''}"

text \<open>What the metadata of a row hold.\<close>

lemma persisted_metadata_get:
  assumes "persisted_metadata r = Inr kvs"
  shows "map_of kvs identity_key = Some (JObj [(''version'', JInt 1), (''provider_identity'', text_null (ri_identity r)),
      (''recipient'', text_null (ri_recipient r))])"
    "map_of kvs ''provider_message_id'' = Some (JStr (ri_id r))"
    "map_of kvs ''durable_attachment_refs'' = Some (JArr (map ref_value (ri_attachments r)))"
    "k \<notin> fixed_keys \<Longrightarrow> map_of kvs k = map_of (ri_metadata r) k"
    "distinct (keys_of (ri_metadata r)) \<Longrightarrow> distinct (keys_of kvs)"
    "map_of (ri_metadata r) identity_key = None"
proof -
  have kvs: "map_of (ri_metadata r) identity_key = None" "kvs =
      dict_put ''durable_attachment_refs'' (JArr (map ref_value (ri_attachments r)))
       (dict_put ''provider_message_id'' (JStr (ri_id r)) (dict_put identity_key
         (JObj [(''version'', JInt 1), (''provider_identity'', text_null (ri_identity r)),
           (''recipient'', text_null (ri_recipient r))]) (ri_metadata r)))"
    using assms by (auto simp: persisted_metadata_def add_handoff_provider_identity_def attempt_eq_Inr split: if_split_asm)
  show "map_of (ri_metadata r) identity_key = None" by (rule kvs(1))
  show "map_of kvs identity_key = Some (JObj [(''version'', JInt 1), (''provider_identity'', text_null (ri_identity r)),
      (''recipient'', text_null (ri_recipient r))])"
    "map_of kvs ''provider_message_id'' = Some (JStr (ri_id r))"
    "map_of kvs ''durable_attachment_refs'' = Some (JArr (map ref_value (ri_attachments r)))"
    by (simp_all add: kvs(2) update_conv' identity_key_def)
  show "k \<notin> fixed_keys \<Longrightarrow> map_of kvs k = map_of (ri_metadata r) k" by (simp add: kvs(2) update_conv')
  show "distinct (keys_of (ri_metadata r)) \<Longrightarrow> distinct (keys_of kvs)" by (simp add: kvs(2) distinct_update)
qed

lemma text_null_norm [simp]: "json_norm (text_null v) = text_null v"
  by (cases v) (simp_all add: text_null_def)

lemma read_optional_null [simp]: "read_optional_string (Some (text_null v)) = Inr v"
  by (cases v) (simp_all add: read_optional_string_def text_null_def)

lemma read_identity_back:
  assumes "map_of kvs identity_key = Some (json_norm (JObj [(''version'', JInt 1), (''provider_identity'', text_null i),
      (''recipient'', text_null t)]))" "(i = None) = (t = None)"
  shows "read_handoff_provider_identity kvs = Inr (Some (i, t))"
proof -
  let ?kvs = "[(''version'', JInt 1), (''provider_identity'', text_null i), (''recipient'', text_null t)]"
  let ?ns = "sort_fields (map (map_prod id json_norm) ?kvs)"
  have get: "map_of ?ns k = map_option json_norm (map_of ?kvs k)" for k by (rule map_of_norm) simp
  have keys: "set (keys_of ?ns) = {''version'', ''provider_identity'', ''recipient''}" by simp
  show ?thesis using assms get keys unfolding read_handoff_provider_identity_def json_norm.simps
    by (simp del: list.map)
qed

lemma requested_row:
  assumes "requested_handoff created r = Inr q"
  obtains h s kvs t where "durable_identity r = Inr (h, s)" "persisted_metadata r = Inr kvs" "to_utc (ri_timestamp r) = Inr t"
    "q = \<lparr>ho_id = h, ho_dedupe = Some (dedupe_text (ri_channel r) s (ri_id r)), ho_channel = ri_channel r,
       ho_sender = ri_sender r, ho_chat = ri_chat r, ho_session = s, ho_content = ri_content r,
       ho_timestamp = iso_text t, ho_media = Tree (JArr []), ho_metadata = Tree (json_norm (JObj kvs)),
       ho_created = created\<rparr>"
  using assms by (auto simp: requested_handoff_def attempt_eq_Inr)

lemma durable_identity_parts:
  assumes "durable_identity r = Inr (h, s)"
  shows "has_durable_marker (ri_metadata r)" "metadata_text (ri_metadata r) ''durable_handoff_id'' = Some h" "h \<noteq> []"
  using assms by (auto simp: durable_identity_def metadata_text_def Let_def split: if_split_asm option.split_asm json.split_asm)

lemma iso_text_nonempty: "moment_ok t \<Longrightarrow> iso_text t \<noteq> []"
  using length_pad[of 4 "mo_year t"] by (auto simp: iso_text_def)
text \<open>A row that was written is read back.\<close>

lemma row_read_back:
  assumes "requested_handoff created r = Inr q" "raw_ok r" "moment_ok (ri_timestamp r)" "ri_content r \<noteq> []"
    and "distinct (keys_of (ri_metadata r))" "list_all attachment_ref_ok (ri_attachments r)"
  shows "\<exists>raw. raw_of_handoff q = Inr (Some raw) \<and> ri_id raw = ri_id r \<and> ri_identity raw = ri_identity r \<and>
    ri_recipient raw = ri_recipient r \<and> ri_channel raw = ri_channel r \<and> ri_sender raw = ri_sender r \<and>
    ri_chat raw = ri_chat r \<and> ri_content raw = ri_content r \<and> instant (ri_timestamp raw) = instant (ri_timestamp r) \<and>
    ri_attachments raw = ri_attachments r \<and> map_of (ri_metadata raw) identity_key = None \<and>
    (\<forall>k. k \<notin> fixed_keys \<longrightarrow> map_of (ri_metadata raw) k = map_option json_norm (map_of (ri_metadata r) k))"
proof -
  obtain h s kvs t where d: "durable_identity r = Inr (h, s)" and p: "persisted_metadata r = Inr kvs"
    and t: "to_utc (ri_timestamp r) = Inr t" and q: "q = \<lparr>ho_id = h, ho_dedupe = Some (dedupe_text (ri_channel r) s (ri_id r)),
       ho_channel = ri_channel r, ho_sender = ri_sender r, ho_chat = ri_chat r, ho_session = s, ho_content = ri_content r,
       ho_timestamp = iso_text t, ho_media = Tree (JArr []), ho_metadata = Tree (json_norm (JObj kvs)), ho_created = created\<rparr>"
    using requested_row[OF assms(1)] by blast
  note dp = durable_identity_parts[OF d] and pm = persisted_metadata_get[OF p] and utc = to_utc_ok[OF t assms(3)]
  let ?ns = "sort_fields (map (map_prod id json_norm) kvs)"
  have get: "map_of ?ns k = map_option json_norm (map_of kvs k)" for k by (rule map_of_norm) (rule pm(5)[OF assms(5)])
  have ok: "ri_channel r \<noteq> []" "ri_sender r \<noteq> []" "ri_chat r \<noteq> []" "ri_id r \<noteq> []" "(ri_identity r = None) = (ri_recipient r = None)"
    using assms(2) by (auto simp: raw_ok_def channel_text_ok_def)
  have marker: "has_durable_marker ?ns" using dp(1) by (simp add: has_durable_marker_def get pm(4) identity_key_def)
  have mid: "metadata_text ?ns ''provider_message_id'' = Some (ri_id r)" using ok(4) by (simp add: metadata_text_def get pm(2))
  have hid: "map_of ?ns ''durable_handoff_id'' = Some (JStr h)"
    using dp(2) by (auto simp: metadata_text_def get pm(4) identity_key_def split: option.split_asm json.split_asm if_split_asm)
  have refs: "row_refs ?ns = Inr (ri_attachments r)" using read_refs[OF assms(6)] by (simp add: row_refs_def get pm(3))
  have "read_handoff_provider_identity ?ns = Inr (Some (ri_identity r, ri_recipient r))"
    by (rule read_identity_back) (use ok(5) in \<open>simp_all add: get pm(1) del: json_norm.simps\<close>)
  then have ident: "row_identity q ?ns = Inr (ri_identity r, ri_recipient r)" by (simp add: row_identity_def)
  let ?raw = "\<lparr>ri_id = ri_id r, ri_identity = ri_identity r, ri_recipient = ri_recipient r, ri_channel = ri_channel r,
     ri_sender = ri_sender r, ri_chat = ri_chat r, ri_content = ri_content r, ri_timestamp = t,
     ri_metadata = strip_handoff_provider_identity ?ns, ri_attachments = ri_attachments r\<rparr>"
  have "raw_ok ?raw" using assms(2) utc(2) by (simp add: raw_ok_def)
  then have "marked_raw q ?ns t = Inr ?raw" using refs ident mid hid q by (simp add: marked_raw_def Let_def)
  then have "raw_of_handoff q = Inr (Some ?raw)"
    using ok dp(3) assms(4) iso_text_nonempty[OF utc(1)] utc(2) marker parse_iso_text[OF utc(1)]
    by (simp add: raw_of_handoff_def q media_list_def fail_if_def)
  moreover have "map_of (ri_metadata ?raw) k = (if k = identity_key then None else map_option json_norm (map_of kvs k))" for k
    by (simp add: strip_handoff_provider_identity_def delete_conv' get)
  ultimately show ?thesis using utc(3) pm(4) by (intro exI[of _ ?raw]) simp
qed

text \<open>An attachment without words is a valid channel message, and the table refuses it.\<close>

lemma wordless_row_refused:
  assumes "requested_handoff created r = Inr q" "ri_content r = []"
  shows "reserve_handoff world q rows = (Inl ValueError, rows)"
proof -
  have "ho_content q = []" by (rule requested_row[OF assms(1)]) (simp add: assms(2))
  then show ?thesis by (simp add: reserve_handoff_def all_fields_present_def)
qed


section \<open>Claims\<close>

definition arriving :: raw_inbound where
  "arriving = \<lparr>ri_id = ''m'', ri_identity = Some ''p'', ri_recipient = Some ''c'', ri_channel = ''ch'', ri_sender = ''s'',
     ri_chat = ''c'', ri_content = ''hi'', ri_timestamp = \<lparr>mo_year = 2024, mo_month = 1, mo_day = 1, mo_hour = 0,
       mo_minute = 30, mo_second = 0, mo_micro = 0, mo_offset = Some 60\<rparr>,
     ri_metadata = [(''durable_inbound'', JBool True), (''durable_handoff_id'', JStr ''h''),
       (''provider_message_id'', JStr ''m''), (''session_key_override'', JStr ''S'')],
     ri_attachments = [\<lparr>at_id = ''a'', at_kind = ImageKind, at_filename = None, at_media = None, at_size = 1,
       at_sha = replicate 64 CHR ''0''\<rparr>]\<rparr>"

lemma arriving_ok:
  "raw_ok arriving" "moment_ok (ri_timestamp arriving)" "ri_content arriving \<noteq> []"
  "distinct (keys_of (ri_metadata arriving))" "list_all attachment_ref_ok (ri_attachments arriving)"
proof -
  show "raw_ok arriving" by code_simp
  show "moment_ok (ri_timestamp arriving)" by (simp add: moment_ok_def arriving_def days_in_month_def month_lengths_def)
  have "list_all (\<lambda>c. ascii_in 48 57 c \<or> ascii_in 97 102 c) (replicate 64 CHR ''0'')" by (simp add: list_all_iff ascii_in_def)
  moreover have "artifact_id_ok ''a''" by code_simp
  ultimately show "list_all attachment_ref_ok (ri_attachments arriving)"
    by (simp add: arriving_def attachment_ref_ok_def sha256_ok_def)
qed (simp_all add: arriving_def)

lemma arriving_requested: "\<exists>q. requested_handoff ''t'' arriving = Inr q"
proof -
  have "\<exists>kvs. persisted_metadata arriving = Inr kvs"
    by (simp add: persisted_metadata_def add_handoff_provider_identity_def arriving_def identity_key_def)
  moreover have "durable_identity arriving = Inr (''h'', ''S'')" by code_simp
  moreover have "\<exists>t. to_utc (ri_timestamp arriving) = Inr t" by (simp add: to_utc_def arriving_def prev_day_def Let_def)
  ultimately show ?thesis by (auto simp: requested_handoff_def)
qed

definition arrived :: handoff where
  "arrived = \<lparr>ho_id = ''h'', ho_dedupe = Some ''k'', ho_channel = ''ch'', ho_sender = ''s'', ho_chat = ''c'',
     ho_session = ''S'', ho_content = ''hi'', ho_timestamp = ''t'', ho_media = Tree (JArr []),
     ho_metadata = Tree (JObj [(''provider_message_id'', JStr ''m'')]), ho_created = ''t''\<rparr>"

lemma arrived_reserved: "reserve_handoff (\<lambda>_ rows. rows) arrived [] = (Inr (''h'', True), [arrived])"
proof -
  let ?kvs = "[(''provider_message_id'', JStr ''m'')]"
  have p: "project_handoff_metadata (Tree (JObj ?kvs)) = Inr (Tree (JObj ?kvs))"
    by (simp add: project_handoff_metadata_def read_handoff_provider_identity_def identity_key_def project_fields_def
      take_alias_def sort_fields_def)
  have mid: "projected_message_id (ho_metadata arrived) = Inr (Some ''m'')"
    by (simp add: projected_message_id_def arrived_def p)
  have none: "find_identity (ho_channel arrived) (ho_session arrived) (Some ''m'') [] [] = Inr None"
    by (simp add: find_identity_def handoff_by_dedupe_def unique_match_def)
  have "handoff_metadata_matches (Tree (JObj ?kvs)) (Tree (JObj ?kvs)) s c = Inr True" for s c
    by (simp add: handoff_metadata_matches_def p Let_def)
  then have same: "validate_existing arrived True False arrived = Inr ()"
    by (simp add: validate_existing_def arrived_def fail_if_def)
  have all: "all_fields_present arrived" by (simp add: all_fields_present_def arrived_def)
  show ?thesis
    by (simp add: reserve_handoff_def Let_def all mid none existing_handoff_def handoff_by_id_def handoff_by_dedupe_def
      insert_stage_def insert_handoff_def winning_row_def same split: option.split) (simp add: arrived_def)
qed

text \<open>C22. The row that is written for a message is read back as the same message:
  identities, addresses, text and attachments are the same, the metadata are the same but for the
  keys that the row itself sets, and the time is the same instant, now in UTC.\<close>

theorem handoff_row_roundtrip:
  assumes "requested_handoff created r = Inr q" "raw_ok r" "moment_ok (ri_timestamp r)" "ri_content r \<noteq> []"
    and "distinct (keys_of (ri_metadata r))" "list_all attachment_ref_ok (ri_attachments r)"
  shows "\<exists>raw. raw_of_handoff q = Inr (Some raw) \<and> ri_id raw = ri_id r \<and> ri_identity raw = ri_identity r \<and>
    ri_recipient raw = ri_recipient r \<and> ri_channel raw = ri_channel r \<and> ri_sender raw = ri_sender r \<and>
    ri_chat raw = ri_chat r \<and> ri_content raw = ri_content r \<and> instant (ri_timestamp raw) = instant (ri_timestamp r) \<and>
    ri_attachments raw = ri_attachments r \<and> map_of (ri_metadata raw) identity_key = None \<and>
    (\<forall>k. k \<notin> fixed_keys \<longrightarrow> map_of (ri_metadata raw) k = map_option json_norm (map_of (ri_metadata r) k))"
  by (rule row_read_back[OF assms])

theorem handoff_row_witness:
  "\<exists>q raw. requested_handoff ''t'' arriving = Inr q \<and> raw_of_handoff q = Inr (Some raw) \<and>
     ri_attachments raw = ri_attachments arriving \<and> instant (ri_timestamp raw) = instant (ri_timestamp arriving)"
proof -
  obtain q where q: "requested_handoff ''t'' arriving = Inr q" using arriving_requested by blast
  show ?thesis using handoff_row_roundtrip[OF q arriving_ok] q by blast
qed

text \<open>A reservation that is repeated finds the row of the first, reports that it
  created nothing, and leaves the table as it is.\<close>

theorem reservation_repeated:
  assumes "reserve_handoff (\<lambda>_ rows. rows) q rows = (Inr (i, True), rows')"
  shows "rows' = rows @ [q] \<and> i = ho_id q \<and> reserve_handoff (\<lambda>_ rows. rows) q rows' = (Inr (i, False), rows')"
  using first_reservation(2,3)[OF assms] reserved_again[OF assms] by blast

theorem reservation_witness:
  "reserve_handoff (\<lambda>_ rows. rows) arrived [arrived] = (Inr (''h'', False), [arrived])"
  using reservation_repeated[OF arrived_reserved] by blast

end
