(* ===== verification/Custody_Properties.thy ===== *)
theory Custody_Properties
  imports Custody Inbound_Properties
begin

text \<open>
  Properties of the custody of inputs: one owner per input, a lease as long as there is an
  owner or a reservation, and no input lost on its way to the message log. They are invariants
  of every sequence of operations.
\<close>

section \<open>Sequences of operations\<close>

datatype custody_event =
    Reserve "py_error option" string string raw_inbound
  | Defer string
  | SettleRejected "py_error option" string string string
  | Prepare string nat
  | Finish "py_error option" nat
  | Retain nat
  | RetryCleanup "py_error option" nat
  | Page "(string \<times> string) option"
  | Unclaim "string list"
  | ShutDown
  | OtherSessions "string list"

text \<open>An envelope does not change while it lives: \<open>env_of\<close> gives the envelope of an identity.\<close>

fun custody_apply :: "(nat \<Rightarrow> envelope) \<Rightarrow> custody_event \<Rightarrow> custody \<Rightarrow> custody" where
  "custody_apply env_of (Reserve fault new created raw) c = snd (reserve_durable_inbound fault new created raw c)"
| "custody_apply env_of (Defer h) c = snd (defer_durable_inbound h c)"
| "custody_apply env_of (SettleRejected fault channel session mid) c =
     snd (settle_rejected_inbound fault channel session mid c)"
| "custody_apply env_of (Prepare new k) c = snd (prepare_channel_input new (env_of k) c)"
| "custody_apply env_of (Finish fault k) c = snd (complete_channel_input fault k c)"
| "custody_apply env_of (Retain k) c = snd (retain_channel_input k c)"
| "custody_apply env_of (RetryCleanup fault k) c = retry_cleanup fault k c"
| "custody_apply env_of (Page after) c = snd (recover_page after c)"
| "custody_apply env_of (Unclaim hs) c = release_claims hs c"
| "custody_apply env_of ShutDown c = snd (close_custody c)"
| "custody_apply env_of (OtherSessions ss) c = c\<lparr>cu_sessions := ss\<rparr>"

abbreviation custody_run :: "(nat \<Rightarrow> envelope) \<Rightarrow> custody_event list \<Rightarrow> custody \<Rightarrow> custody" where
  "custody_run env_of evs c \<equiv> fold (custody_apply env_of) evs c"

definition faithful :: "(nat \<Rightarrow> envelope) \<Rightarrow> bool" where
  "faithful env_of \<longleftrightarrow> (\<forall>k. en_key (env_of k) = k)"

section \<open>The invariant\<close>

abbreviation adm :: "custody \<Rightarrow> string \<Rightarrow> admission option" where
  "adm c \<equiv> map_of (cu_admissions c)"

abbreviation hand :: "custody \<Rightarrow> nat \<Rightarrow> string option" where
  "hand c \<equiv> map_of (cu_handoffs c)"

abbreviation row_ids :: "custody \<Rightarrow> string set" where
  "row_ids c \<equiv> ho_id ` set (cu_rows c)"

abbreviation lease_ids :: "custody \<Rightarrow> string set" where
  "lease_ids c \<equiv> fst ` set (cu_leases c)"

text \<open>Owners and admissions name each other, an envelope only its own input; every admission
  holds a lease of its own and there are no others; an owned input is still in the table.\<close>

definition owners_agree :: "(nat \<Rightarrow> envelope) \<Rightarrow> custody \<Rightarrow> bool" where
  "owners_agree env_of c \<longleftrightarrow>
     (\<forall>k h. hand c k = Some h \<longleftrightarrow> (\<exists>a. adm c h = Some a \<and> ad_owner a = Some k)) \<and>
     (\<forall>k h. hand c k = Some h \<longrightarrow> envelope_handoff (env_of k) = Some h \<and> h \<in> row_ids c)"

definition leases_held :: "custody \<Rightarrow> bool" where
  "leases_held c \<longleftrightarrow> (\<forall>h a. adm c h = Some a \<longrightarrow> ad_id a \<in> lease_ids c) \<and>
     (\<forall>h h' a a'. adm c h = Some a \<longrightarrow> adm c h' = Some a' \<longrightarrow> ad_id a = ad_id a' \<longrightarrow> h = h') \<and>
     (\<forall>i \<in> lease_ids c. \<exists>h a. adm c h = Some a \<and> ad_id a = i)"

definition tables_distinct :: "custody \<Rightarrow> bool" where
  "tables_distinct c \<longleftrightarrow> distinct (map ho_id (cu_rows c)) \<and> distinct (map fst (cu_leases c)) \<and>
     distinct (map fst (cu_admissions c)) \<and> distinct (map fst (cu_handoffs c))"

definition custody_ok :: "(nat \<Rightarrow> envelope) \<Rightarrow> custody \<Rightarrow> bool" where
  "custody_ok env_of c \<longleftrightarrow> owners_agree env_of c \<and> leases_held c \<and> tables_distinct c"

lemmas custody_defs = custody_ok_def owners_agree_def leases_held_def tables_distinct_def

lemmas dict_simps = update_conv' delete_conv' distinct_update distinct_delete

lemma owners_agreeI:
  assumes "\<And>k h. hand c k = Some h \<Longrightarrow> \<exists>a. adm c h = Some a \<and> ad_owner a = Some k"
    and "\<And>k h a. adm c h = Some a \<Longrightarrow> ad_owner a = Some k \<Longrightarrow> hand c k = Some h"
    and "\<And>k h. hand c k = Some h \<Longrightarrow> envelope_handoff (env_of k) = Some h \<and> h \<in> row_ids c"
  shows "owners_agree env_of c"
  using assms unfolding owners_agree_def by blast

lemma owners_agreeD:
  assumes "owners_agree env_of c"
  shows "hand c k = Some h \<Longrightarrow> \<exists>a. adm c h = Some a \<and> ad_owner a = Some k"
    and "adm c h = Some a \<Longrightarrow> ad_owner a = Some k \<Longrightarrow> hand c k = Some h"
    and "hand c k = Some h \<Longrightarrow> envelope_handoff (env_of k) = Some h"
    and "hand c k = Some h \<Longrightarrow> h \<in> row_ids c"
  using assms unfolding owners_agree_def by blast+

lemma leases_heldI:
  assumes "\<And>h a. adm c h = Some a \<Longrightarrow> ad_id a \<in> lease_ids c"
    and "\<And>h h' a a'. adm c h = Some a \<Longrightarrow> adm c h' = Some a' \<Longrightarrow> ad_id a = ad_id a' \<Longrightarrow> h = h'"
    and "\<And>i. i \<in> lease_ids c \<Longrightarrow> \<exists>h a. adm c h = Some a \<and> ad_id a = i"
  shows "leases_held c"
  using assms unfolding leases_held_def by blast

lemma leases_heldD:
  assumes "leases_held c"
  shows "adm c h = Some a \<Longrightarrow> ad_id a \<in> lease_ids c"
    and "adm c h = Some a \<Longrightarrow> adm c h' = Some a' \<Longrightarrow> ad_id a = ad_id a' \<Longrightarrow> h = h'"
    and "i \<in> lease_ids c \<Longrightarrow> \<exists>h a. adm c h = Some a \<and> ad_id a = i"
  using assms unfolding leases_held_def by blast+

lemma removed_keys: "fst ` set (dict_remove i al) = fst ` set al - {i}"
  by (auto simp: AList.delete_eq image_iff)

lemma custody_okD [dest]:
  assumes "custody_ok env_of c"
  shows "owners_agree env_of c" "leases_held c" "tables_distinct c"
  using assms unfolding custody_ok_def by blast+

text \<open>What does not touch owners, leases and rows keeps the invariant.\<close>

lemma custody_ok_cong:
  assumes "cu_rows c' = cu_rows c" "cu_leases c' = cu_leases c" "cu_admissions c' = cu_admissions c"
    and "cu_handoffs c' = cu_handoffs c"
  shows "custody_ok env_of c' = custody_ok env_of c"
  using assms by (simp add: custody_defs)

lemma small_changes [simp]:
  "custody_ok env_of (close_envelope k c) = custody_ok env_of c"
  "custody_ok env_of (discard_claim h c) = custody_ok env_of c"
  "custody_ok env_of (c\<lparr>cu_claimed := hs\<rparr>) = custody_ok env_of c"
  "custody_ok env_of (c\<lparr>cu_failed := b\<rparr>) = custody_ok env_of c"
  "custody_ok env_of (c\<lparr>cu_shut := b\<rparr>) = custody_ok env_of c"
  "custody_ok env_of (c\<lparr>cu_retries := ks\<rparr>) = custody_ok env_of c"
  "custody_ok env_of (c\<lparr>cu_sessions := ss\<rparr>) = custody_ok env_of c"
  "custody_ok env_of (c\<lparr>cu_shut := b, cu_retries := ks\<rparr>) = custody_ok env_of c"
  "custody_ok env_of (release_claims hs c) = custody_ok env_of c"
  "custody_ok env_of (end_retry k c) = custody_ok env_of c"
  "custody_ok env_of (fail_retry k c) = custody_ok env_of c"
  by (rule custody_ok_cong; simp add: close_envelope_def discard_claim_def release_claims_def
    end_retry_def fail_retry_def)+

text \<open>An admission that changes keeps its lease.\<close>

lemma leases_touch:
  assumes "leases_held c" "adm c h = Some a" "ad_id a' = ad_id a"
    and "cu_leases c' = cu_leases c" "cu_admissions c' = dict_put h a' (cu_admissions c)"
  shows "leases_held c'"
proof -
  have adms: "adm c' h' = (if h' = h then Some a' else adm c h')" for h' by (simp add: assms(5) update_conv')
  have same: "adm c' h' = Some x \<Longrightarrow> \<exists>y. adm c h' = Some y \<and> ad_id y = ad_id x" for h' x
    using assms(2,3) by (auto simp only: adms split: if_split_asm)
  have kept: "adm c h' = Some y \<Longrightarrow> \<exists>x. adm c' h' = Some x \<and> ad_id y = ad_id x" for h' y
    using assms(2,3) by (cases "h' = h") (simp_all only: adms if_True if_False, auto)
  show ?thesis
  proof (rule leases_heldI)
    show "ad_id x \<in> lease_ids c'" if "adm c' h' = Some x" for h' x
      using leases_heldD(1)[OF assms(1), of h'] same[OF that] assms(4) by fastforce
    show "h1 = h2" if "adm c' h1 = Some x1" "adm c' h2 = Some x2" "ad_id x1 = ad_id x2" for h1 h2 x1 x2
      using leases_heldD(2)[OF assms(1), of h1] same[OF that(1)] same[OF that(2)] that(3) by fastforce
    show "\<exists>h' x. adm c' h' = Some x \<and> ad_id x = i" if "i \<in> lease_ids c'" for i
      using leases_heldD(3)[OF assms(1), of i] kept that assms(4) by fastforce
  qed
qed

text \<open>An admission may change its flags, get an owner and lose it.\<close>

lemma touch_ok:
  assumes "custody_ok env_of c" "adm c h = Some a" "ad_id a' = ad_id a" "ad_owner a' = ad_owner a"
  shows "custody_ok env_of (c\<lparr>cu_admissions := dict_put h a' (cu_admissions c)\<rparr>)" (is "custody_ok env_of ?c")
proof -
  note * = custody_okD[OF assms(1)]
  have adms: "adm ?c h' = (if h' = h then Some a' else adm c h')" for h' by (simp add: update_conv')
  have same: "adm ?c h' = Some x \<Longrightarrow> \<exists>y. adm c h' = Some y \<and> ad_owner y = ad_owner x" for h' x
    using assms(2-4) by (auto simp only: adms split: if_split_asm)
  have kept: "adm c h' = Some y \<Longrightarrow> \<exists>x. adm ?c h' = Some x \<and> ad_owner y = ad_owner x" for h' y
    using assms(2-4) by (cases "h' = h") (simp_all only: adms if_True if_False, auto)
  have "owners_agree env_of ?c"
  proof (rule owners_agreeI)
    show "\<exists>a. adm ?c h' = Some a \<and> ad_owner a = Some k" if "hand ?c k = Some h'" for k h'
      using owners_agreeD(1)[OF *(1), of k h'] kept[of h'] that by fastforce
    show "hand ?c k = Some h'" if "adm ?c h' = Some x" "ad_owner x = Some k" for k h' x
      using owners_agreeD(2)[OF *(1), of h'] same[OF that(1)] that(2) by fastforce
  qed (use owners_agreeD(3,4)[OF *(1)] in simp)
  moreover have "leases_held ?c" by (rule leases_touch[OF *(2) assms(2,3)]) simp_all
  moreover have "tables_distinct ?c" using *(3) by (simp add: tables_distinct_def distinct_update)
  ultimately show ?thesis by (simp add: custody_ok_def)
qed

lemma own_ok:
  assumes "custody_ok env_of c" "adm c h = Some a" "ad_owner a = None"
    and "envelope_handoff (env_of k) = Some h" "h \<in> row_ids c"
  shows "custody_ok env_of (set_owner h a k c)" (is "custody_ok env_of ?c")
proof -
  note * = custody_okD[OF assms(1)]
  have adms: "adm ?c h' = (if h' = h then Some (a\<lparr>ad_owner := Some k, ad_recoverable := False\<rparr>) else adm c h')" for h'
    by (simp add: set_owner_def update_conv')
  have hands: "hand ?c k' = (if k' = k then Some h else hand c k')" for k' by (simp add: set_owner_def update_conv')
  have free: "hand c k = None"
  proof (cases "hand c k")
    case (Some h')
    then show ?thesis using owners_agreeD(1,3)[OF *(1) Some] assms(2-4) by auto
  qed
  have "owners_agree env_of ?c"
  proof (rule owners_agreeI)
    show "\<exists>a. adm ?c h' = Some a \<and> ad_owner a = Some k'" if "hand ?c k' = Some h'" for k' h'
      using that owners_agreeD(1)[OF *(1), of k' h'] assms(2,3) unfolding hands adms by (cases "k' = k") force+
    show "hand ?c k' = Some h'" if "adm ?c h' = Some x" "ad_owner x = Some k'" for k' h' x
      using that owners_agreeD(2)[OF *(1), of h' x k'] free unfolding hands adms by (cases "h' = h") force+
    show "envelope_handoff (env_of k') = Some h' \<and> h' \<in> row_ids ?c" if "hand ?c k' = Some h'" for k' h'
      using that owners_agreeD(3,4)[OF *(1), of k' h'] assms(4,5) unfolding hands
      by (cases "k' = k") (simp_all add: set_owner_def del: map_of_eq_Some_iff Some_eq_map_of_iff)
  qed
  moreover have "leases_held ?c" by (rule leases_touch[OF *(2) assms(2)]) (simp_all add: set_owner_def)
  moreover have "tables_distinct ?c" using *(3) by (simp add: tables_distinct_def set_owner_def distinct_update)
  ultimately show ?thesis by (simp add: custody_ok_def)
qed

lemma disown_ok:
  assumes "custody_ok env_of c" "adm c h = Some a" "ad_owner a = Some k" "ad_id a' = ad_id a" "ad_owner a' = None"
  shows "custody_ok env_of (c\<lparr>cu_admissions := dict_put h a' (cu_admissions c),
    cu_handoffs := dict_remove k (cu_handoffs c)\<rparr>)" (is "custody_ok env_of ?c")
proof -
  note * = custody_okD[OF assms(1)]
  have adms: "adm ?c h' = (if h' = h then Some a' else adm c h')" for h' by (simp add: update_conv')
  have hands: "hand ?c k' = (if k' = k then None else hand c k')" for k' by (simp add: delete_conv')
  have own: "hand c k = Some h" by (rule owners_agreeD(2)[OF *(1) assms(2,3)])
  have "owners_agree env_of ?c"
  proof (rule owners_agreeI)
    fix k' h' assume "hand ?c k' = Some h'"
    then have k': "k' \<noteq> k" "hand c k' = Some h'" unfolding hands by (simp_all split: if_split_asm)
    then show "\<exists>a. adm ?c h' = Some a \<and> ad_owner a = Some k'"
      using owners_agreeD(1)[OF *(1) k'(2)] assms(2,3) unfolding adms by (cases "h' = h") force+
    show "envelope_handoff (env_of k') = Some h' \<and> h' \<in> row_ids ?c"
      using owners_agreeD(3,4)[OF *(1) k'(2)] by simp
  next
    fix k' h' x assume x: "adm ?c h' = Some x" "ad_owner x = Some k'"
    have h': "h' \<noteq> h" "adm c h' = Some x" using x assms(5) unfolding adms by (force split: if_split_asm)+
    have "hand c k' = Some h'" by (rule owners_agreeD(2)[OF *(1) h'(2) x(2)])
    then show "hand ?c k' = Some h'" using own h'(1) unfolding hands by (cases "k' = k") force+
  qed
  moreover have "leases_held ?c" by (rule leases_touch[OF *(2) assms(2,4)]) simp_all
  moreover have "tables_distinct ?c" using *(3) by (simp add: tables_distinct_def distinct_update distinct_delete)
  ultimately show ?thesis by (simp add: custody_ok_def)
qed

text \<open>Rows may be added, or removed when nobody owns them.\<close>

lemma rows_change_ok:
  assumes "custody_ok env_of c" "distinct (map ho_id rows)" "\<And>k h. hand c k = Some h \<Longrightarrow> h \<in> ho_id ` set rows"
  shows "custody_ok env_of (c\<lparr>cu_rows := rows\<rparr>)"
proof -
  note * = custody_okD[OF assms(1)]
  have "owners_agree env_of (c\<lparr>cu_rows := rows\<rparr>)"
    by (rule owners_agreeI) (use owners_agreeD[OF *(1)] assms(3) in simp_all)
  then show ?thesis using *(2,3) assms(2) by (simp add: custody_ok_def leases_held_def tables_distinct_def)
qed

text \<open>A new lease comes with its admission.\<close>

definition new_admission :: "string \<Rightarrow> string \<Rightarrow> admission \<Rightarrow> custody \<Rightarrow> custody" where
  "new_admission h session a c = c\<lparr>cu_leases := cu_leases c @ [(ad_id a, session)],
     cu_admissions := dict_put h a (cu_admissions c)\<rparr>"

lemma new_admission_ok:
  assumes "custody_ok env_of c" "adm c h = None" "ad_id a \<notin> lease_ids c" "ad_owner a = None"
  shows "custody_ok env_of (new_admission h session a c)" (is "custody_ok env_of ?c")
proof -
  note * = custody_okD[OF assms(1)]
  have adms: "adm ?c h' = (if h' = h then Some a else adm c h')" for h' by (simp add: new_admission_def update_conv')
  have rest: "hand ?c = hand c" "row_ids ?c = row_ids c" "lease_ids ?c = insert (ad_id a) (lease_ids c)"
    by (simp_all add: new_admission_def)
  have "owners_agree env_of ?c"
  proof (rule owners_agreeI)
    show "\<exists>a. adm ?c h' = Some a \<and> ad_owner a = Some k" if "hand ?c k = Some h'" for k h'
      using owners_agreeD(1)[OF *(1) that[unfolded rest]] assms(2) by (cases "h' = h") (force simp: adms)+
    show "hand ?c k = Some h'" if "adm ?c h' = Some x" "ad_owner x = Some k" for k h' x
      using owners_agreeD(2)[OF *(1), of h' x k] that assms(4) by (simp only: adms rest split: if_split_asm) auto
  qed (use owners_agreeD(3,4)[OF *(1)] rest in simp)
  moreover have "leases_held ?c"
  proof (rule leases_heldI)
    show "ad_id x \<in> lease_ids ?c" if "adm ?c h' = Some x" for h' x
      using leases_heldD(1)[OF *(2), of h' x] that by (simp only: adms rest split: if_split_asm) auto
    show "h1 = h2" if "adm ?c h1 = Some x1" "adm ?c h2 = Some x2" "ad_id x1 = ad_id x2" for h1 h2 x1 x2
      using leases_heldD(1,2)[OF *(2)] that assms(3) by (simp only: adms split: if_split_asm) (auto, metis)
    show "\<exists>h' x. adm ?c h' = Some x \<and> ad_id x = i" if "i \<in> lease_ids ?c" for i
      using leases_heldD(3)[OF *(2), of i] that assms(2) unfolding rest adms
      by (cases "i = ad_id a") (auto, metis option.distinct(1))
  qed
  moreover have "tables_distinct ?c" using *(3) assms(3)
    by (simp add: tables_distinct_def new_admission_def distinct_update)
  ultimately show ?thesis by (simp add: custody_ok_def)
qed

lemma acquire_cases:
  assumes "acquire new session require c = (x, c')"
  shows "(\<exists>e. x = Inl e) \<and> c' = c \<or>
    x = Inr new \<and> new \<notin> lease_ids c \<and> c' = c\<lparr>cu_leases := cu_leases c @ [(new, session)]\<rparr>"
  using assms unfolding acquire_def by (cases require) (force split: if_split_asm)+

lemma lease_given:
  assumes "custody_ok env_of c" "adm c h = Some a" "cu_leases c' = cu_leases c"
  shows "release_admission (ad_id a) c' = (Inr (), c'\<lparr>cu_leases := dict_remove (ad_id a) (cu_leases c')\<rparr>)"
  using leases_heldD(1)[OF custody_okD(2)[OF assms(1)] assms(2)] assms(3) by (simp add: release_admission_def)

text \<open>The end of an admission: its lease goes, and its owner when it has one.\<close>

definition drop_admission :: "string \<Rightarrow> admission \<Rightarrow> custody \<Rightarrow> custody" where
  "drop_admission h a c = c\<lparr>cu_admissions := dict_remove h (cu_admissions c),
     cu_leases := dict_remove (ad_id a) (cu_leases c),
     cu_handoffs := (case ad_owner a of None \<Rightarrow> cu_handoffs c | Some k \<Rightarrow> dict_remove k (cu_handoffs c))\<rparr>"

lemma drop_admission_ok:
  assumes "custody_ok env_of c" "adm c h = Some a"
  shows "custody_ok env_of (drop_admission h a c)" (is "custody_ok env_of ?c")
proof -
  note * = custody_okD[OF assms(1)]
  have hands: "hand ?c k = (if ad_owner a = Some k then None else hand c k)" for k
    by (cases "ad_owner a") (simp_all add: drop_admission_def delete_conv')
  have adms: "adm ?c h' = (if h' = h then None else adm c h')" for h'
    by (simp add: drop_admission_def delete_conv')
  have rest: "row_ids ?c = row_ids c" "lease_ids ?c = lease_ids c - {ad_id a}"
    by (simp_all add: drop_admission_def removed_keys)
  have "owners_agree env_of ?c"
  proof (rule owners_agreeI)
    fix k h' assume k: "hand ?c k = Some h'"
    then have k': "ad_owner a \<noteq> Some k" "hand c k = Some h'" by (simp_all add: hands split: if_split_asm del: map_of_eq_Some_iff Some_eq_map_of_iff)
    obtain x where x: "adm c h' = Some x" "ad_owner x = Some k" using owners_agreeD(1)[OF *(1) k'(2)] by blast
    have "h' \<noteq> h" using x k'(1) assms(2) by force
    then show "\<exists>a. adm ?c h' = Some a \<and> ad_owner a = Some k"
      using x by (intro exI[of _ x]) (simp only: adms if_False simp_thms)
    show "envelope_handoff (env_of k) = Some h' \<and> h' \<in> row_ids ?c"
      using owners_agreeD(3,4)[OF *(1) k'(2)] by (simp only: rest)
  next
    fix k h' a' assume h: "adm ?c h' = Some a'" "ad_owner a' = Some k"
    then have h': "h' \<noteq> h" "adm c h' = Some a'" by (simp_all add: adms split: if_split_asm del: map_of_eq_Some_iff Some_eq_map_of_iff)
    have k: "hand c k = Some h'" by (rule owners_agreeD(2)[OF *(1) h'(2) h(2)])
    have "hand c k = Some h" if "ad_owner a = Some k" by (rule owners_agreeD(2)[OF *(1) assms(2) that])
    then have "ad_owner a \<noteq> Some k" using k h'(1) by force
    then show "hand ?c k = Some h'" using k by (simp only: hands if_False)
  qed
  moreover have "leases_held ?c"
  proof (rule leases_heldI)
    have kept: "h' \<noteq> h" "adm c h' = Some x" if "adm ?c h' = Some x" for h' x
      using that unfolding adms by (simp_all split: if_split_asm)
    show "ad_id x \<in> lease_ids ?c" if "adm ?c h' = Some x" for h' x
      using leases_heldD(1)[OF *(2) kept(2)[OF that]] leases_heldD(2)[OF *(2) kept(2)[OF that] assms(2)] kept(1)[OF that]
      unfolding rest by blast
    show "h1 = h2" if "adm ?c h1 = Some x1" "adm ?c h2 = Some x2" "ad_id x1 = ad_id x2" for h1 h2 x1 x2
      by (rule leases_heldD(2)[OF *(2) kept(2)[OF that(1)] kept(2)[OF that(2)] that(3)])
    show "\<exists>h' x. adm ?c h' = Some x \<and> ad_id x = i" if i: "i \<in> lease_ids ?c" for i
    proof -
      have i': "i \<in> lease_ids c" "i \<noteq> ad_id a" using i[unfolded rest] by blast+
      obtain h' x where x: "adm c h' = Some x" "ad_id x = i" using leases_heldD(3)[OF *(2) i'(1)] by blast
      have "h' \<noteq> h" using x i'(2) assms(2) by force
      then show ?thesis using x by (intro exI[of _ h'] exI[of _ x]) (simp only: adms if_False simp_thms)
    qed
  qed
  moreover have "tables_distinct ?c"
    using *(3) by (cases "ad_owner a") (simp_all add: tables_distinct_def drop_admission_def distinct_delete)
  ultimately show ?thesis by (simp add: custody_ok_def)
qed

section \<open>Every operation\<close>

lemma ensure_cases:
  assumes "ensure_admission new h session channel require c = (x, c')"
  shows "(\<exists>e. x = Inl e) \<and> c' = c \<or>
    (\<exists>a. x = Inr (a, False) \<and> c' = c \<and> adm c h = Some a) \<or>
    (\<exists>a. x = Inr (a, True) \<and> c' = new_admission h session a c \<and> adm c h = None \<and> ad_id a \<notin> lease_ids c \<and>
       ad_owner a = None)"
proof (cases "adm c h")
  case None
  obtain y d where y: "acquire new session require c = (y, d)" by fastforce
  show ?thesis using assms None acquire_cases[OF y]
    by (cases y) (simp_all add: ensure_admission_def y Let_def new_admission_def split: prod.split_asm, auto)
next
  case (Some a)
  then show ?thesis using assms by (auto simp: ensure_admission_def split: if_split_asm)
qed

lemma new_admission_adm: "adm (new_admission h session a c) h = Some a"
  by (simp add: new_admission_def update_conv')

lemma ensure_ok:
  assumes "custody_ok env_of c" "ensure_admission new h session channel require c = (x, c')"
  shows "custody_ok env_of c'" "x = Inr (a, acquired) \<Longrightarrow> adm c' h = Some a"
    "x = Inr (a, True) \<Longrightarrow> ad_owner a = None" "cu_rows c' = cu_rows c"
  using ensure_cases[OF assms(2)] assms(1)
  by (auto simp: new_admission_adm new_admission_ok new_admission_def[THEN arg_cong, of cu_rows]
    simp del: map_of_eq_Some_iff Some_eq_map_of_iff)

lemma release_new_drops:
  assumes "custody_ok env_of c" "adm c h = Some a" "ad_owner a = None"
  shows "release_new h c = (Inr (), drop_admission h a c)"
  using assms(2,3) lease_given[OF assms(1,2), of "c\<lparr>cu_admissions := dict_remove h (cu_admissions c)\<rparr>"]
  by (simp add: release_new_def Let_def drop_admission_def del: map_of_eq_Some_iff)

lemma insert_handoff_cases:
  assumes "insert_handoff q rows = (inserted, rows')"
  shows "\<not> inserted \<and> rows' = rows \<or> inserted \<and> rows' = rows @ [q] \<and> ho_id q \<notin> ho_id ` set rows"
  using assms by (auto simp: insert_handoff_def handoff_by_id_def find_None_iff split: if_split_asm)

lemma winning_row_id:
  assumes "insert_handoff q rows = (True, rows')" "winning_row q mid rows' = Inr r"
  shows "r = q"
proof -
  have rows': "rows' = rows @ [q]" "ho_id q \<notin> ho_id ` set rows" using insert_handoff_cases[OF assms(1)] by simp_all
  then have "find (\<lambda>r. ho_id r = ho_id q) rows = None" unfolding find_None_iff by (metis imageI)
  then have "handoff_by_id (ho_id q) rows' = Some q" unfolding rows'(1) handoff_by_id_def
    by (induction rows) (simp_all split: if_split_asm)
  then show ?thesis using assms(2) by (simp add: winning_row_def)
qed

lemma insert_stage_rows:
  assumes "insert_stage q mid rows = (x, rows')"
  shows "rows' = rows \<or> rows' = rows @ [q] \<and> ho_id q \<notin> ho_id ` set rows \<and> x = Inr (ho_id q, True)"
proof -
  obtain inserted new where i: "insert_handoff q rows = (inserted, new)" by fastforce
  show ?thesis using assms insert_handoff_cases[OF i] winning_row_id[of q rows new] i
    by (auto simp: insert_stage_def attempt_def split: sum.split_asm)
qed

lemma reserve_rows:
  assumes "reserve_handoff (\<lambda>_ rows. rows) q rows = (x, rows')"
  shows "rows' = rows \<or> rows' = rows @ [q] \<and> ho_id q \<notin> ho_id ` set rows \<and> x = Inr (ho_id q, True)"
  using assms by (auto simp: reserve_handoff_def Let_def split: if_split_asm sum.split_asm option.split_asm
    dest!: insert_stage_rows)

lemma store_reserve_rows:
  assumes "store_reserve fault q c = (x, c')"
  obtains "c' = c" | r where "q = Inr r" "fault = None" "ho_id r \<notin> row_ids c" "x = Inr (ho_id r, True)"
    "c' = c\<lparr>cu_rows := cu_rows c @ [r]\<rparr>"
  using assms by (auto simp: store_reserve_def split: sum.split_asm option.split_asm prod.split_asm dest!: reserve_rows)

lemma filter_length_one: "length (filter (\<lambda>r. ho_id r = h) rows) = Suc 0 \<Longrightarrow> h \<in> ho_id ` set rows"
  by (cases "filter (\<lambda>r. ho_id r = h) rows") (auto simp: filter_eq_Cons_iff)

lemma store_complete_cases:
  assumes "store_complete fault h c = (x, c')"
  shows "(\<exists>e. x = Inl e) \<and> c' = c \<or>
    x = Inr () \<and> fault = None \<and> h \<in> row_ids c \<and> c' = c\<lparr>cu_rows := filter (\<lambda>r. ho_id r \<noteq> h) (cu_rows c)\<rparr>"
proof (cases fault)
  case None
  show ?thesis using assms None
    by (auto simp: store_complete_def complete_handoff_def split: if_split_asm dest!: filter_length_one)
qed (use assms in \<open>auto simp: store_complete_def\<close>)


lemma after_reserve_ok:
  assumes "custody_ok env_of c" "adm c h = Some a" "acquired \<Longrightarrow> ad_owner a = None"
  shows "custody_ok env_of (snd (after_reserve h acquired outcome c))"
proof -
  have dropped: "custody_ok env_of (drop_admission h a c)" by (rule drop_admission_ok[OF assms(1,2)])
  have touched: "custody_ok env_of (c\<lparr>cu_admissions := dict_put h (a\<lparr>ad_recoverable := False\<rparr>) (cu_admissions c)\<rparr>)"
    using touch_ok[OF assms(1,2)] by simp
  show ?thesis
  proof (cases acquired)
    case True
    note gives = release_new_drops[OF assms(1,2) assms(3)[OF True]]
    show ?thesis using True assms(1,2) dropped touched
      by (simp add: after_reserve_def gives split: sum.split del: map_of_eq_Some_iff)
  qed (use assms(1,2) touched in \<open>simp add: after_reserve_def split: sum.split del: map_of_eq_Some_iff\<close>)
qed

lemma reserve_durable_ok:
  assumes "custody_ok env_of c"
  shows "custody_ok env_of (snd (reserve_durable_inbound fault new created raw c))"
proof (cases "\<exists>h session a acquired c1. durable_identity raw = Inr (h, session) \<and> ad_owner a = None \<and>
    ensure_admission new h session (ri_channel raw) (require_existing (ri_metadata raw)) c = (Inr (a, acquired), c1)")
  case True
  then obtain h session a acquired c1 where h: "durable_identity raw = Inr (h, session)" "ad_owner a = None"
    and e: "ensure_admission new h session (ri_channel raw) (require_existing (ri_metadata raw)) c = (Inr (a, acquired), c1)"
    by blast
  obtain outcome c2 where r: "store_reserve fault (requested_handoff created raw) c1 = (outcome, c2)" by fastforce
  note ok = ensure_ok[OF assms e]
  have c2: "custody_ok env_of c2 \<and> cu_admissions c2 = cu_admissions c1"
    using ok(1) custody_okD(3)[OF ok(1)] owners_agreeD(4)[OF custody_okD(1)[OF ok(1)]]
    by (rule_tac store_reserve_rows[OF r]) (auto simp: tables_distinct_def intro!: rows_change_ok
      simp del: map_of_eq_Some_iff Some_eq_map_of_iff)
  have "custody_ok env_of (snd (after_reserve h acquired outcome c2))"
    by (rule after_reserve_ok[where a = a]) (use c2 ok(2) h(2) in simp_all)
  then show ?thesis using assms by (simp add: reserve_durable_inbound_def h e r)
next
  case False
  then show ?thesis using assms ensure_ok(1)[OF assms]
    by (auto simp: reserve_durable_inbound_def split: sum.split prod.split)
qed

lemma defer_ok:
  assumes "custody_ok env_of c"
  shows "custody_ok env_of (snd (defer_durable_inbound h c))"
  using assms by (auto simp: defer_durable_inbound_def split: option.split intro: touch_ok)

lemma matching_rows_subset: "matching_rows m rows = Inr ms \<Longrightarrow> set ms \<subseteq> set rows"
  by (induction rows arbitrary: ms) (auto simp: attempt_eq_Inr split: if_split_asm)

lemma find_identity_in:
  assumes "find_identity channel session mid rows1 rows2 = Inr (Some r)"
  shows "r \<in> set rows1 \<union> set rows2"
proof -
  obtain m where m: "mid = Some m" using assms by (cases mid) (simp_all add: find_identity_def)
  show ?thesis
  proof (cases "handoff_by_dedupe (Some (dedupe_text channel session m)) rows1")
    case (Some s)
    then have "s \<in> set rows1" by (auto simp: handoff_by_dedupe_def find_Some_iff)
    then show ?thesis using assms m Some by (simp add: find_identity_def)
  next
    case None
    then obtain ms where ms: "matching_rows m (sort_key arrival_key
        (filter (\<lambda>r. ho_channel r = channel \<and> ho_session r = session) rows2)) = Inr ms" "unique_match ms = Inr (Some r)"
      using assms m by (auto simp: find_identity_def attempt_eq_Inr)
    then have "r \<in> set ms" by (auto simp: unique_match_def split: list.splits)
    then show ?thesis using matching_rows_subset[OF ms(1)] by auto
  qed
qed

lemma read_handoff_id:
  assumes "read_handoff channel session mid rows rows = Inr (Some r)"
  shows "ho_id r \<in> ho_id ` set rows"
  using assms by (auto simp: read_handoff_def project_handoff_row_def attempt_eq_Inr
    split: option.split_asm dest!: find_identity_in)

lemma bind_ok:
  assumes "custody_ok env_of c" "adm c h = Some a" "envelope_handoff e = Some h" "env_of (en_key e) = e"
  shows "custody_ok env_of (snd (bind_envelope e h a c))"
  using assms by (auto simp: bind_envelope_def split: sum.split option.split dest!: read_handoff_id intro!: own_ok
    simp del: map_of_eq_Some_iff)

lemma prepare_ok:
  assumes "custody_ok env_of c" "env_of (en_key e) = e"
  shows "custody_ok env_of (snd (prepare_channel_input new e c))"
proof -
  have "custody_ok env_of (snd (reserve_durable_input new e c))"
    using assms ensure_ok(1,2)[OF assms(1)] bind_ok[where e = e and env_of = env_of]
    by (auto simp: reserve_durable_input_def split: sum.split option.split prod.split
      simp del: map_of_eq_Some_iff Some_eq_map_of_iff)
  then show ?thesis using assms(1) by (simp add: prepare_channel_input_def)
qed

text \<open>The end of an input: its row goes with its owner.\<close>

definition gone :: "string \<Rightarrow> admission \<Rightarrow> custody \<Rightarrow> custody" where
  "gone h a c = (drop_admission h a c)\<lparr>cu_rows := filter (\<lambda>r. ho_id r \<noteq> h) (cu_rows c)\<rparr>"

lemma gone_ok:
  assumes "custody_ok env_of c" "adm c h = Some a"
  shows "custody_ok env_of (gone h a c)"
proof -
  have d: "custody_ok env_of (drop_admission h a c)" by (rule drop_admission_ok[OF assms])
  have none: "adm (drop_admission h a c) h = None" by (simp add: drop_admission_def delete_conv')
  show ?thesis unfolding gone_def
  proof (rule rows_change_ok[OF d])
    show "distinct (map ho_id (filter (\<lambda>r. ho_id r \<noteq> h) (cu_rows c)))"
      using custody_okD(3)[OF assms(1)] by (simp add: tables_distinct_def distinct_map_filter)
    fix k h' assume k: "hand (drop_admission h a c) k = Some h'"
    have "h' \<in> row_ids c" using owners_agreeD(4)[OF custody_okD(1)[OF d] k] by (simp add: drop_admission_def)
    moreover have "h' \<noteq> h" using owners_agreeD(1)[OF custody_okD(1)[OF d] k] none by force
    ultimately show "h' \<in> ho_id ` set (filter (\<lambda>r. ho_id r \<noteq> h) (cu_rows c))" by auto
  qed
qed

lemma finalize_gone:
  assumes "custody_ok env_of c" "adm c h = Some a" "hand c k = Some h"
  shows "finalize_owner k h a (c\<lparr>cu_rows := filter (\<lambda>r. ho_id r \<noteq> h) (cu_rows c)\<rparr>) =
    (Inr (), discard_claim h (close_envelope k (gone h a c)))"
proof -
  obtain a' where "adm c h = Some a'" "ad_owner a' = Some k"
    using owners_agreeD(1)[OF custody_okD(1)[OF assms(1)] assms(3)] by blast
  then show ?thesis
    using lease_given[OF assms(1,2), of "close_envelope k (c\<lparr>cu_rows := filter (\<lambda>r. ho_id r \<noteq> h) (cu_rows c)\<rparr>)"] assms(2,3)
    by (simp add: finalize_owner_def close_envelope_def gone_def drop_admission_def discard_claim_def
      del: map_of_eq_Some_iff Some_eq_map_of_iff)
qed


lemma complete_ok:
  assumes "custody_ok env_of c"
  shows "custody_ok env_of (snd (complete_channel_input fault k c))"
proof (cases "hand c k")
  case (Some h)
  obtain a where a: "adm c h = Some a" "ad_owner a = Some k"
    using owners_agreeD(1)[OF custody_okD(1)[OF assms] Some] by blast
  obtain x c1 where s: "store_complete fault h c = (x, c1)" by fastforce
  show ?thesis
  proof (cases x)
    case (Inl e)
    then have "c1 = c" using store_complete_cases[OF s] by auto
    then show ?thesis using assms touch_ok[OF assms a(1)] a Some s Inl
      by (simp add: complete_channel_input_def complete_durable_inbound_def Let_def del: map_of_eq_Some_iff)
  next
    case (Inr u)
    then have "c1 = c\<lparr>cu_rows := filter (\<lambda>r. ho_id r \<noteq> h) (cu_rows c)\<rparr>" using store_complete_cases[OF s] by auto
    then show ?thesis using assms a Some s Inr finalize_gone[OF assms a(1) Some] gone_ok[OF assms a(1)]
      by (simp add: complete_channel_input_def complete_durable_inbound_def del: map_of_eq_Some_iff)
  qed
qed (use assms in \<open>simp add: complete_channel_input_def\<close>)

lemma retain_ok:
  assumes "custody_ok env_of c"
  shows "custody_ok env_of (snd (retain_channel_input k c))"
proof (cases "hand c k")
  case (Some h)
  obtain a where a: "adm c h = Some a" "ad_owner a = Some k"
    using owners_agreeD(1)[OF custody_okD(1)[OF assms] Some] by blast
  let ?a = "a\<lparr>ad_owner := None, ad_cleanup := False, ad_recoverable := True\<rparr>"
  have "custody_ok env_of (c\<lparr>cu_admissions := dict_put h ?a (cu_admissions c), cu_handoffs := dict_remove k (cu_handoffs c)\<rparr>)"
    by (rule disown_ok[OF assms a]) simp_all
  then have "custody_ok env_of ((close_envelope k c)\<lparr>cu_admissions := dict_put h ?a (cu_admissions c),
      cu_handoffs := dict_remove k (cu_handoffs c)\<rparr>)"
    by (rule custody_ok_cong[THEN iffD2, rotated -1]) (simp_all add: close_envelope_def)
  then show ?thesis using a Some by (simp add: retain_channel_input_def del: map_of_eq_Some_iff)
qed (use assms in \<open>simp add: retain_channel_input_def\<close>)

lemma retry_ok:
  assumes "custody_ok env_of c"
  shows "custody_ok env_of (retry_cleanup fault k c)"
proof (cases "hand c k")
  case (Some h)
  obtain a where a: "adm c h = Some a" "ad_owner a = Some k"
    using owners_agreeD(1)[OF custody_okD(1)[OF assms] Some] by blast
  obtain x c1 where s: "store_complete fault h c = (x, c1)" by fastforce
  show ?thesis
  proof (cases x)
    case (Inl e)
    then have "c1 = c" using store_complete_cases[OF s] by auto
    then show ?thesis using assms a Some s Inl by (simp add: retry_cleanup_def del: map_of_eq_Some_iff)
  next
    case (Inr u)
    then have "c1 = c\<lparr>cu_rows := filter (\<lambda>r. ho_id r \<noteq> h) (cu_rows c)\<rparr>" using store_complete_cases[OF s] by auto
    then show ?thesis using assms a Some s Inr finalize_gone[OF assms a(1) Some] gone_ok[OF assms a(1)]
      by (simp add: retry_cleanup_def del: map_of_eq_Some_iff)
  qed
qed (use assms in \<open>simp add: retry_cleanup_def\<close>)

lemma settle_ok:
  assumes "custody_ok env_of c"
  shows "custody_ok env_of (snd (settle_rejected_inbound fault channel session mid c))"
proof (cases "\<exists>r. read_handoff channel session mid (cu_rows c) (cu_rows c) = Inr (Some r)")
  case True
  then obtain r where r: "read_handoff channel session mid (cu_rows c) (cu_rows c) = Inr (Some r)" by blast
  let ?h = "ho_id r"
  obtain x c1 where s: "store_complete fault ?h c = (x, c1)" by fastforce
  consider "x = Inr ()" "c1 = c\<lparr>cu_rows := filter (\<lambda>r. ho_id r \<noteq> ?h) (cu_rows c)\<rparr>" | e where "x = Inl e" "c1 = c"
    using store_complete_cases[OF s] by auto
  then show ?thesis
  proof cases
    case 1
    have c1: "custody_ok env_of c1" if "\<And>k. hand c k \<noteq> Some ?h" unfolding 1(2)
    proof (rule rows_change_ok[OF assms])
      show "distinct (map ho_id (filter (\<lambda>r. ho_id r \<noteq> ?h) (cu_rows c)))"
        using custody_okD(3)[OF assms] by (simp add: tables_distinct_def distinct_map_filter)
      show "h' \<in> ho_id ` set (filter (\<lambda>r. ho_id r \<noteq> ?h) (cu_rows c))" if "hand c k = Some h'" for k h'
        using owners_agreeD(4)[OF custody_okD(1)[OF assms] that] \<open>\<And>k. hand c k \<noteq> Some ?h\<close>[of k] that by auto
    qed
    show ?thesis
    proof (cases "adm c ?h")
      case None
      then have "hand c k \<noteq> Some ?h" for k using owners_agreeD(1)[OF custody_okD(1)[OF assms], of k ?h] by auto
      then show ?thesis using assms r s 1(1) None c1 by (simp add: settle_rejected_inbound_def Let_def)
    next
      case (Some a)
      show ?thesis
      proof (cases "ad_owner a")
        case None
        then have "hand c k \<noteq> Some ?h" for k using owners_agreeD(1)[OF custody_okD(1)[OF assms], of k ?h] Some by auto
        note ok = c1[OF this]
        have a: "adm c1 ?h = Some a" using Some 1(2) by simp
        show ?thesis using assms r s 1(1) Some None release_new_drops[OF ok a None] drop_admission_ok[OF ok a]
          by (simp add: settle_rejected_inbound_def Let_def del: map_of_eq_Some_iff)
      qed (use assms r Some in \<open>simp add: settle_rejected_inbound_def Let_def del: map_of_eq_Some_iff\<close>)
    qed
  qed (use assms r s in \<open>simp add: settle_rejected_inbound_def Let_def\<close>)
next
  case False
  then show ?thesis using assms by (auto simp: settle_rejected_inbound_def split: sum.split option.split)
qed


text \<open>Shutting down releases every lease.\<close>

lemma release_all_ok:
  assumes "custody_ok env_of c" "cu_admissions c = al"
  shows "\<exists>c'. release_all al c = (Inr (), c') \<and> custody_ok env_of c' \<and> cu_admissions c' = [] \<and> cu_rows c' = cu_rows c \<and>
    cu_failed c' = cu_failed c"
  using assms
proof (induction al arbitrary: c)
  case (Cons ha al)
  obtain h a where ha: "ha = (h, a)" by fastforce
  have a: "adm c h = Some a" using Cons.prems(2) ha by simp
  let ?c1 = "case ad_owner a of None \<Rightarrow> c | Some k \<Rightarrow> (close_envelope k c)\<lparr>cu_handoffs := dict_remove k (cu_handoffs c)\<rparr>"
  have same: "cu_leases ?c1 = cu_leases c" by (simp add: close_envelope_def split: option.split)
  let ?c2 = "?c1\<lparr>cu_leases := dict_remove (ad_id a) (cu_leases ?c1)\<rparr>"
  let ?c3 = "discard_claim h (?c2\<lparr>cu_admissions := dict_remove h (cu_admissions ?c2)\<rparr>)"
  have ok: "custody_ok env_of ?c3"
    by (rule custody_ok_cong[THEN iffD2, OF _ _ _ _ drop_admission_ok[OF Cons.prems(1) a]])
      (simp_all add: discard_claim_def close_envelope_def drop_admission_def split: option.split)
  have "h \<notin> fst ` set al"
    using custody_okD(3)[OF Cons.prems(1)] Cons.prems(2) ha by (simp add: tables_distinct_def)
  then have al: "cu_admissions ?c3 = al" using Cons.prems(2) ha
    by (auto simp: discard_claim_def close_envelope_def AList.delete_eq filter_id_conv image_iff split: option.split)
  have rows: "cu_rows ?c3 = cu_rows c" "cu_failed ?c3 = cu_failed c" by (simp_all add: discard_claim_def close_envelope_def split: option.split)
  show ?case using Cons.IH[OF ok al] rows lease_given[OF Cons.prems(1) a same] ha by (simp add: Let_def)
qed simp

lemma shut_down:
  assumes "custody_ok env_of c"
  shows "custody_ok env_of (snd (close_custody c))" "cu_leases (snd (close_custody c)) = []"
    "cu_handoffs (snd (close_custody c)) = []" "cu_rows (snd (close_custody c)) = cu_rows c"
    "fst (close_custody c) = (if cu_failed c then Inl RuntimeError else Inr ())"
proof -
  have ok: "custody_ok env_of (c\<lparr>cu_shut := True, cu_retries := []\<rparr>)" using assms by simp
  obtain c' where c': "release_all (cu_admissions c) (c\<lparr>cu_shut := True, cu_retries := []\<rparr>) = (Inr (), c')"
      "custody_ok env_of c'" "cu_admissions c' = []" "cu_rows c' = cu_rows c" "cu_failed c' = cu_failed c"
    using release_all_ok[OF ok] by auto
  show "fst (close_custody c) = (if cu_failed c then Inl RuntimeError else Inr ())"
    using c'(1,5) by (simp add: close_custody_def)
  have last: "snd (close_custody c) = c'" using c'(1) by (simp add: close_custody_def)
  have "i \<notin> lease_ids c'" for i using leases_heldD(3)[OF custody_okD(2)[OF c'(2)], of i] c'(3) by auto
  then have "cu_leases c' = []" by (cases "cu_leases c'") auto
  moreover have "hand c' k = None" for k using owners_agreeD(1)[OF custody_okD(1)[OF c'(2)], of k] c'(3) by (cases "hand c' k") auto
  then have "cu_handoffs c' = []" by (metis list.exhaust map_of_Cons_code(2) option.distinct(1) surj_pair)
  ultimately show "custody_ok env_of (snd (close_custody c))" "cu_leases (snd (close_custody c)) = []"
    "cu_handoffs (snd (close_custody c)) = []" "cu_rows (snd (close_custody c)) = cu_rows c"
    using c'(2,4) last by simp_all
qed

lemma page_custody: "\<exists>hs. snd (recover_page after c) = c\<lparr>cu_claimed := hs\<rparr>"
proof -
  have "c = c\<lparr>cu_claimed := cu_claimed c\<rparr>" by simp
  then show ?thesis by (auto simp: recover_page_def split: sum.split prod.split intro: exI[of _ "cu_claimed c"])
qed

lemma custody_apply_ok:
  assumes "faithful env_of" "custody_ok env_of c"
  shows "custody_ok env_of (custody_apply env_of ev c)"
proof (cases ev)
  case (Prepare new k)
  then show ?thesis using prepare_ok[OF assms(2), of "env_of k"] assms(1) by (simp add: faithful_def)
next
  case (Page after)
  obtain hs where "snd (recover_page after c) = c\<lparr>cu_claimed := hs\<rparr>" using page_custody by blast
  then show ?thesis using assms(2) Page by simp
qed (simp_all add: assms(2) reserve_durable_ok defer_ok settle_ok complete_ok retain_ok retry_ok shut_down(1))

lemma custody_run_ok:
  assumes "faithful env_of" "custody_ok env_of c"
  shows "custody_ok env_of (custody_run env_of evs c)"
  using assms(2) by (induction evs arbitrary: c) (simp_all add: custody_apply_ok[OF assms(1)])

section \<open>No input is lost\<close>

text \<open>The operations that take an input out of the table.\<close>

fun settles :: "(nat \<Rightarrow> envelope) \<Rightarrow> custody \<Rightarrow> custody_event \<Rightarrow> string \<Rightarrow> bool" where
  "settles env_of c (Finish fault k) h \<longleftrightarrow> fault = None \<and> hand c k = Some h"
| "settles env_of c (RetryCleanup fault k) h \<longleftrightarrow> fault = None \<and> k \<in> set (cu_retries c) \<and> hand c k = Some h"
| "settles env_of c (SettleRejected fault channel session mid) h \<longleftrightarrow> fault = None \<and> (\<forall>k. hand c k \<noteq> Some h) \<and>
     (\<exists>r. read_handoff channel session mid (cu_rows c) (cu_rows c) = Inr (Some r) \<and> ho_id r = h)"
| "settles env_of c _ h \<longleftrightarrow> False"


lemma other_rows [simp]:
  "cu_rows (close_envelope k c) = cu_rows c" "cu_rows (discard_claim h c) = cu_rows c"
  "cu_rows (set_owner h a k c) = cu_rows c" "cu_rows (snd (release_admission i c)) = cu_rows c"
  "cu_rows (snd (release_new h c)) = cu_rows c" "cu_rows (snd (finalize_owner k h a c)) = cu_rows c"
  "cu_rows (end_retry k c) = cu_rows c" "cu_rows (fail_retry k c) = cu_rows c"
  "cu_rows (snd (after_reserve h acquired outcome c)) = cu_rows c"
  "cu_rows (snd (bind_envelope e h a c)) = cu_rows c" "cu_rows (snd (retain_channel_input k c)) = cu_rows c"
  "cu_rows (snd (defer_durable_inbound h c)) = cu_rows c"
proof -
  show 1 [simp]: "cu_rows (close_envelope k c) = cu_rows c" "cu_rows (discard_claim h c) = cu_rows c"
    "cu_rows (set_owner h a k c) = cu_rows c" "cu_rows (snd (release_admission i c)) = cu_rows c"
    "cu_rows (end_retry k c) = cu_rows c" "cu_rows (fail_retry k c) = cu_rows c" for k h i c
    by (simp_all add: close_envelope_def discard_claim_def set_owner_def release_admission_def end_retry_def fail_retry_def)
  show 2 [simp]: "cu_rows (snd (release_new h c)) = cu_rows c" for c
    by (simp add: release_new_def Let_def split: option.split)
  have 3: "release_admission i c = (x, c') \<Longrightarrow> cu_rows c' = cu_rows c" for i x c c' using 1(4)[of i c] by simp
  have 4: "release_new h c = (x, c') \<Longrightarrow> cu_rows c' = cu_rows c" for x c' using 2[of c] by simp
  show "cu_rows (snd (finalize_owner k h a c)) = cu_rows c"
    by (auto simp: finalize_owner_def split: sum.split prod.split dest!: 3)
  show "cu_rows (snd (after_reserve h acquired outcome c)) = cu_rows c"
    by (auto simp: after_reserve_def split: sum.split prod.split option.split dest!: 4)
  show "cu_rows (snd (bind_envelope e h a c)) = cu_rows c" by (simp add: bind_envelope_def split: sum.split)
  show "cu_rows (snd (retain_channel_input k c)) = cu_rows c" "cu_rows (snd (defer_durable_inbound h c)) = cu_rows c"
    by (simp_all add: retain_channel_input_def defer_durable_inbound_def split: option.split)
qed


lemma rows_of_pairs:
  "release_new h c = (x, c') \<Longrightarrow> cu_rows c' = cu_rows c"
  "finalize_owner k h a c = (y, c') \<Longrightarrow> cu_rows c' = cu_rows c"
  "ensure_admission new h session channel require c = (z, c') \<Longrightarrow> cu_rows c' = cu_rows c"
  "store_reserve fault q c = (w, c') \<Longrightarrow> row_ids c \<subseteq> row_ids c'"
  "store_complete fault h c = (y, c') \<Longrightarrow> row_ids c - {h} \<subseteq> row_ids c' \<and> (fault \<noteq> None \<longrightarrow> c' = c)"
proof -
  show "release_new h c = (x, c') \<Longrightarrow> cu_rows c' = cu_rows c" using other_rows(5)[of h c] by simp
  show "finalize_owner k h a c = (y, c') \<Longrightarrow> cu_rows c' = cu_rows c" using other_rows(6)[of k h a c] by simp
  show "ensure_admission new h session channel require c = (z, c') \<Longrightarrow> cu_rows c' = cu_rows c"
    by (drule ensure_cases) (auto simp: new_admission_def)
  show "store_reserve fault q c = (w, c') \<Longrightarrow> row_ids c \<subseteq> row_ids c'" by (erule store_reserve_rows) auto
  show "store_complete fault h c = (y, c') \<Longrightarrow> row_ids c - {h} \<subseteq> row_ids c' \<and> (fault \<noteq> None \<longrightarrow> c' = c)"
    by (drule store_complete_cases) auto
qed

lemma reserve_keeps_rows: "row_ids c \<subseteq> row_ids (snd (reserve_durable_inbound fault new created raw c))"
proof (cases "\<exists>h session a acquired c1. durable_identity raw = Inr (h, session) \<and>
    ensure_admission new h session (ri_channel raw) (require_existing (ri_metadata raw)) c = (Inr (a, acquired), c1)")
  case True
  then obtain h session a acquired c1 where h: "durable_identity raw = Inr (h, session)"
    and e: "ensure_admission new h session (ri_channel raw) (require_existing (ri_metadata raw)) c = (Inr (a, acquired), c1)"
    by blast
  obtain outcome c2 where r: "store_reserve fault (requested_handoff created raw) c1 = (outcome, c2)" by fastforce
  show ?thesis using rows_of_pairs(3)[OF e] rows_of_pairs(4)[OF r] by (simp add: reserve_durable_inbound_def h e r)
qed (auto simp: reserve_durable_inbound_def split: sum.split prod.split dest: rows_of_pairs(3))

lemma prepare_keeps_rows: "cu_rows (snd (prepare_channel_input new e c)) = cu_rows c"
  by (auto simp: prepare_channel_input_def reserve_durable_input_def split: sum.split prod.split option.split
    dest!: rows_of_pairs(3))

lemma complete_rows:
  assumes "h \<in> row_ids c" "h \<notin> row_ids (snd (complete_channel_input fault k c))"
  shows "fault = None \<and> hand c k = Some h"
proof (cases "hand c k")
  case (Some h')
  obtain x c1 where s: "store_complete fault h' c = (x, c1)" by fastforce
  note r = rows_of_pairs(5)[OF s]
  show ?thesis
  proof (cases "h' = h \<and> fault = None")
    case False
    then have "h \<in> row_ids c1" using r assms(1) by (cases fault) auto
    then show ?thesis using assms s Some
      by (simp add: complete_channel_input_def complete_durable_inbound_def Let_def split: option.split_asm sum.split_asm if_split_asm)
  qed (use Some in simp)
qed (use assms in \<open>simp add: complete_channel_input_def\<close>)

lemma retry_rows:
  assumes "h \<in> row_ids c" "h \<notin> row_ids (retry_cleanup fault k c)"
  shows "fault = None \<and> k \<in> set (cu_retries c) \<and> hand c k = Some h"
proof (cases "hand c k")
  case (Some h')
  obtain x c1 where s: "store_complete fault h' c = (x, c1)" by fastforce
  note r = rows_of_pairs(5)[OF s]
  show ?thesis
  proof (cases "h' = h \<and> fault = None")
    case True
    then show ?thesis using Some assms by (cases "k \<in> set (cu_retries c)") (simp_all add: retry_cleanup_def)
  next
    case False
    then have "h \<in> row_ids c1" using r assms(1) by (cases fault) auto
    then show ?thesis using assms s Some
      by (auto simp: retry_cleanup_def split: option.split_asm sum.split_asm if_split_asm prod.split_asm dest!: rows_of_pairs(2))
  qed
qed (use assms in \<open>simp add: retry_cleanup_def split: if_split_asm\<close>)

lemma settle_rows:
  assumes "custody_ok env_of c" "h \<in> row_ids c" "h \<notin> row_ids (snd (settle_rejected_inbound fault channel session mid c))"
  shows "settles env_of c (SettleRejected fault channel session mid) h"
proof (cases "\<exists>r. read_handoff channel session mid (cu_rows c) (cu_rows c) = Inr (Some r)")
  case True
  then obtain r where r: "read_handoff channel session mid (cu_rows c) (cu_rows c) = Inr (Some r)" by blast
  obtain x c1 where s: "store_complete fault (ho_id r) c = (x, c1)" by fastforce
  note keep = rows_of_pairs(5)[OF s]
  show ?thesis
  proof (cases "ho_id r = h \<and> fault = None")
    case True
    have "hand c k \<noteq> Some h" for k
    proof
      assume k: "hand c k = Some h"
      obtain a where "adm c h = Some a" "ad_owner a = Some k"
        using owners_agreeD(1)[OF custody_okD(1)[OF assms(1)] k] by blast
      then show False using assms(2,3) r True by (simp add: settle_rejected_inbound_def Let_def split: if_split_asm)
    qed
    then show ?thesis using True r by simp
  next
    case False
    then have "h \<in> row_ids c1" using keep assms(2) by (cases fault) auto
    then show ?thesis using assms(2,3) s r
      by (auto simp: settle_rejected_inbound_def Let_def split: sum.split_asm if_split_asm prod.split_asm option.split_asm
        dest!: rows_of_pairs(1))
  qed
qed (use assms(2,3) in \<open>auto simp: settle_rejected_inbound_def split: sum.split_asm option.split_asm\<close>)

lemma rows_stay:
  assumes "custody_ok env_of c" "h \<in> row_ids c" "\<not> settles env_of c ev h"
  shows "h \<in> row_ids (custody_apply env_of ev c)"
proof (cases ev)
  case (Reserve fault new created raw)
  then show ?thesis using reserve_keeps_rows[of c fault new created raw] assms(2) by auto
next
  case (SettleRejected fault channel session mid)
  then show ?thesis using settle_rows[OF assms(1,2), of fault channel session mid] assms(3)
    by (simp del: settles.simps) blast
next
  case (Finish fault k)
  then show ?thesis using complete_rows[OF assms(2)] assms(3) by auto
next
  case (RetryCleanup fault k)
  then show ?thesis using retry_rows[OF assms(2)] assms(3) by auto
next
  case (Page after)
  obtain hs where "snd (recover_page after c) = c\<lparr>cu_claimed := hs\<rparr>" using page_custody by blast
  then show ?thesis using assms(2) Page by simp
qed (use assms(2) in \<open>simp_all add: prepare_keeps_rows shut_down(4)[OF assms(1)] release_claims_def\<close>)

lemma rows_settled:
  assumes "faithful env_of" "custody_ok env_of c" "h \<in> row_ids c" "h \<notin> row_ids (custody_run env_of evs c)"
  shows "\<exists>before ev rest. evs = before @ ev # rest \<and> settles env_of (custody_run env_of before c) ev h"
  using assms(2-4)
proof (induction evs arbitrary: c)
  case (Cons ev evs)
  show ?case
  proof (cases "settles env_of c ev h")
    case True
    then show ?thesis by (intro exI[of _ "[]"] exI[of _ ev] exI[of _ evs]) simp
  next
    case False
    obtain before e rest where
      "evs = before @ e # rest" "settles env_of (custody_run env_of before (custody_apply env_of ev c)) e h"
      using Cons.IH[OF custody_apply_ok[OF assms(1) Cons.prems(1)] rows_stay[OF Cons.prems(1,2) False]] Cons.prems(3)
      by auto
    then show ?thesis by (intro exI[of _ "ev # before"] exI[of _ e] exI[of _ rest]) simp
  qed
qed simp


section \<open>What a page of the recovery hands out\<close>

text \<open>The specification: the rows that nobody has claimed and that are not in flight, read one by
  one.\<close>

definition offered :: "string list \<Rightarrow> string list \<Rightarrow> handoff list \<Rightarrow> (string \<times> raw_inbound) list" where
  "offered busy claimed rows = List.map_filter (\<lambda>r.
     if ho_id r \<in> set claimed \<or> ho_id r \<in> set busy then None
     else (case raw_of_handoff r of Inr (Some raw) \<Rightarrow> Some (ho_id r, raw) | _ \<Rightarrow> None)) rows"

definition page_readable :: "string list \<Rightarrow> string list \<Rightarrow> handoff list \<Rightarrow> bool" where
  "page_readable busy claimed rows \<longleftrightarrow>
     (\<forall>r \<in> set rows. ho_id r \<in> set claimed \<or> ho_id r \<in> set busy \<or> \<not> isl (raw_of_handoff r))"

lemma offered_Cons: "offered busy claimed (r # rs) =
    (if ho_id r \<in> set claimed \<or> ho_id r \<in> set busy then offered busy claimed rs
     else case raw_of_handoff r of Inr (Some raw) \<Rightarrow> (ho_id r, raw) # offered busy claimed rs | _ \<Rightarrow> offered busy claimed rs)"
  by (simp add: offered_def map_filter_simps split: sum.split option.split)

lemma offered_claimed:
  assumes "x \<notin> ho_id ` set rows"
  shows "offered busy (x # claimed) rows = offered busy claimed rows"
    "page_readable busy (x # claimed) rows = page_readable busy claimed rows"
proof -
  show "offered busy (x # claimed) rows = offered busy claimed rows"
    using assms
  proof (induction rows)
    case (Cons r rows)
    then have "ho_id r \<noteq> x" "offered busy (x # claimed) rows = offered busy claimed rows" by auto
    then show ?case by (simp add: offered_Cons split: sum.split option.split)
  qed (simp add: offered_def map_filter_simps)
  show "page_readable busy (x # claimed) rows = page_readable busy claimed rows"
    using assms unfolding page_readable_def by (metis image_eqI list.set_intros(2) set_ConsD)
qed

lemma claim_rows_offered:
  assumes "distinct (map ho_id rows)" "page_readable busy claimed rows"
  shows "\<exists>claimed'. claim_rows busy claimed rows = (Inr (offered busy claimed rows), claimed') \<and>
    set claimed' = set claimed \<union> fst ` set (offered busy claimed rows)"
  using assms
proof (induction rows arbitrary: claimed)
  case (Cons r rs)
  have fresh: "ho_id r \<notin> ho_id ` set rs" using Cons.prems(1) by simp
  have rs: "page_readable busy claimed rs" using Cons.prems(2) by (simp add: page_readable_def)
  obtain c1 where c1: "claim_rows busy claimed rs = (Inr (offered busy claimed rs), c1)"
      "set c1 = set claimed \<union> fst ` set (offered busy claimed rs)"
    using Cons.IH[OF _ rs] Cons.prems(1) by auto
  obtain c2 where c2: "claim_rows busy (ho_id r # claimed) rs = (Inr (offered busy claimed rs), c2)"
      "set c2 = insert (ho_id r) (set claimed) \<union> fst ` set (offered busy claimed rs)"
    using Cons.IH[of "ho_id r # claimed"] rs Cons.prems(1) by (auto simp: offered_claimed[OF fresh])
  show ?case
  proof (cases "ho_id r \<in> set claimed \<or> ho_id r \<in> set busy")
    case False
    then obtain x where "raw_of_handoff r = Inr x"
      using Cons.prems(2) by (cases "raw_of_handoff r") (auto simp: page_readable_def)
    then show ?thesis using False c1 c2 by (cases x) (simp_all add: offered_Cons)
  qed (use c1 in \<open>simp add: offered_Cons\<close>)
qed (simp add: offered_def map_filter_simps)

lemma listed_ids:
  assumes "list_handoffs limit after rows = Inr page" "distinct (map ho_id rows)"
  shows "distinct (map ho_id page)" "ho_id ` set page \<subseteq> ho_id ` set rows"
proof -
  have ids: "map ho_id qs = map ho_id rs" if "traverse project_handoff_row rs = Inr qs" for rs qs
    using that by (induction rs arbitrary: qs) (auto simp: attempt_eq_Inr project_handoff_row_def)
  let ?sorted = "\<lambda>later. sort_key arrival_key later"
  obtain later where later: "later = rows \<or> (\<exists>P. later = filter P rows)"
      "traverse project_handoff_row (case limit of None \<Rightarrow> ?sorted later | Some n \<Rightarrow> take (nat n) (?sorted later)) = Inr page"
    using assms(1) by (auto simp: list_handoffs_def Let_def split: if_split_asm option.split_asm)
  have d: "distinct (map ho_id later)" using later(1) assms(2) by (auto simp: distinct_map_filter)
  have "distinct (map ho_id (?sorted later))" using d by (simp add: distinct_map)
  then show "distinct (map ho_id page)" unfolding ids[OF later(2)]
    by (cases limit) (simp_all add: take_map[symmetric])
  have "ho_id ` set page = set (map ho_id page)" by simp
  also have "\<dots> \<subseteq> ho_id ` set later" unfolding ids[OF later(2)]
    by (cases limit) (auto dest: in_set_takeD)
  also have "\<dots> \<subseteq> ho_id ` set rows" using later(1) by auto
  finally show "ho_id ` set page \<subseteq> ho_id ` set rows" .
qed

lemma page_offers:
  assumes "custody_ok env_of c" "list_handoffs (Some recovery_page_size) after (cu_rows c) = Inr rows"
    and "page_readable (in_flight c) (cu_claimed c) rows"
  obtains claimed' where "recover_page after c = (Inr (rows, offered (in_flight c) (cu_claimed c) rows), c\<lparr>cu_claimed := claimed'\<rparr>)"
    "set claimed' = set (cu_claimed c) \<union> fst ` set (offered (in_flight c) (cu_claimed c) rows)"
proof -
  have "distinct (map ho_id (cu_rows c))" using custody_okD(3)[OF assms(1)] by (simp add: tables_distinct_def)
  then have "distinct (map ho_id rows)" by (rule listed_ids(1)[OF assms(2)])
  then show ?thesis using claim_rows_offered[OF _ assms(3)] that assms(2) by (auto simp: recover_page_def)
qed

lemma in_flight_iff:
  assumes "custody_ok env_of c"
  shows "h \<in> set (in_flight c) \<longleftrightarrow> (\<exists>k. hand c k = Some h) \<or> (\<exists>a. adm c h = Some a \<and> \<not> ad_recoverable a)"
proof -
  have d: "distinct (map fst (cu_handoffs c))" "distinct (map fst (cu_admissions c))"
    using custody_okD(3)[OF assms] by (simp_all add: tables_distinct_def)
  show ?thesis unfolding in_flight_def using d by (force simp: image_iff)
qed

lemma offered_in:
  assumes "r \<in> set rows" "ho_id r \<notin> set claimed" "ho_id r \<notin> set busy" "raw_of_handoff r = Inr (Some raw)"
  shows "(ho_id r, raw) \<in> set (offered busy claimed rows)"
  using assms by (induction rows) (auto simp: offered_Cons split: sum.split option.split)
section \<open>An input that is given back\<close>

text \<open>\<open>retain_channel_input\<close> on the owner of an input.\<close>

lemma retained_state:
  assumes "custody_ok env_of c" "hand c k = Some h"
  obtains a where "adm c h = Some a" "ad_owner a = Some k"
    "retain_channel_input k c = (Inr (), discard_claim h ((close_envelope k c)\<lparr>cu_admissions := dict_put h
        (a\<lparr>ad_owner := None, ad_cleanup := False, ad_recoverable := True\<rparr>) (cu_admissions c),
      cu_handoffs := dict_remove k (cu_handoffs c)\<rparr>))"
proof -
  obtain a where "adm c h = Some a" "ad_owner a = Some k"
    using owners_agreeD(1)[OF custody_okD(1)[OF assms(1)] assms(2)] by blast
  then show ?thesis using that assms(2) by (simp add: retain_channel_input_def del: map_of_eq_Some_iff)
qed

lemma retained_free:
  assumes "custody_ok env_of c" "hand c k = Some h"
  defines "c' \<equiv> snd (retain_channel_input k c)"
  shows "h \<notin> set (in_flight c')" "h \<notin> set (cu_claimed c')" "cu_rows c' = cu_rows c"
proof -
  obtain a where a: "adm c h = Some a" "ad_owner a = Some k" and r: "retain_channel_input k c =
      (Inr (), discard_claim h ((close_envelope k c)\<lparr>cu_admissions := dict_put h
        (a\<lparr>ad_owner := None, ad_cleanup := False, ad_recoverable := True\<rparr>) (cu_admissions c),
      cu_handoffs := dict_remove k (cu_handoffs c)\<rparr>))"
    using retained_state[OF assms(1,2)] by blast
  have hands: "hand c' k' = (if k' = k then None else hand c k')" for k'
    by (simp add: c'_def r discard_claim_def delete_conv')
  have "hand c' k' \<noteq> Some h" for k'
  proof
    assume k': "hand c' k' = Some h"
    then have k'': "k' \<noteq> k" "hand c k' = Some h" unfolding hands by (simp_all split: if_split_asm)
    then show False using owners_agreeD(1)[OF custody_okD(1)[OF assms(1)] k''(2)] a by auto
  qed
  moreover have "\<exists>x. adm c' h = Some x \<and> ad_recoverable x"
    by (simp add: c'_def r discard_claim_def update_conv')
  ultimately show "h \<notin> set (in_flight c')"
    unfolding in_flight_iff[OF retain_ok[OF assms(1), of k, folded c'_def]] by auto
  show "h \<notin> set (cu_claimed c')" by (simp add: c'_def r discard_claim_def)
  show "cu_rows c' = cu_rows c" by (simp add: c'_def)
qed

section \<open>Cleaning up after a failure\<close>

text \<open>Completion when the table cannot be written: the owner keeps its input, and each round of
  the retry that fails again changes nothing.\<close>

definition degraded :: "nat \<Rightarrow> string \<Rightarrow> admission \<Rightarrow> custody \<Rightarrow> custody" where
  "degraded k h a c = c\<lparr>cu_admissions := dict_put h (a\<lparr>ad_cleanup := True\<rparr>) (cu_admissions c), cu_retries := k # cu_retries c\<rparr>"

lemma degraded_facts:
  assumes "custody_ok env_of c" "hand c k = Some h" "adm c h = Some a"
  shows "custody_ok env_of (degraded k h a c)" "hand (degraded k h a c) k = Some h"
    "adm (degraded k h a c) h = Some (a\<lparr>ad_cleanup := True\<rparr>)" "ad_owner a = Some k"
proof -
  have "custody_ok env_of (c\<lparr>cu_admissions := dict_put h (a\<lparr>ad_cleanup := True\<rparr>) (cu_admissions c)\<rparr>)"
    by (rule touch_ok[OF assms(1,3)]) simp_all
  then show "custody_ok env_of (degraded k h a c)"
    by (rule custody_ok_cong[THEN iffD2, rotated -1]) (simp_all add: degraded_def)
  show "hand (degraded k h a c) k = Some h" using assms(2) by (simp add: degraded_def)
  show "adm (degraded k h a c) h = Some (a\<lparr>ad_cleanup := True\<rparr>)" by (simp add: degraded_def update_conv')
  obtain a' where "adm c h = Some a'" "ad_owner a' = Some k"
    using owners_agreeD(1)[OF custody_okD(1)[OF assms(1)] assms(2)] by blast
  then show "ad_owner a = Some k" using assms(3) by simp
qed

lemma one_row: "distinct (map ho_id rows) \<Longrightarrow> h \<in> ho_id ` set rows \<Longrightarrow> length (filter (\<lambda>r. ho_id r = h) rows) = 1"
proof (induction rows)
  case (Cons r rows)
  then show ?case
  proof (cases "ho_id r = h")
    case True
    then have "filter (\<lambda>r. ho_id r = h) rows = []"
      using Cons.prems(1) unfolding filter_empty_conv by (simp add: image_iff) metis
    then show ?thesis using True by simp
  qed auto
qed simp

lemma owned_row_deleted:
  assumes "custody_ok env_of c" "hand c k = Some h"
  shows "store_complete None h c = (Inr (), c\<lparr>cu_rows := filter (\<lambda>r. ho_id r \<noteq> h) (cu_rows c)\<rparr>)"
proof -
  have row: "h \<in> row_ids c" by (rule owners_agreeD(4)[OF custody_okD(1)[OF assms(1)] assms(2)])
  have d: "distinct (map ho_id (cu_rows c))" using custody_okD(3)[OF assms(1)] by (simp add: tables_distinct_def)
  have "h \<noteq> []" using owners_agreeD(3)[OF custody_okD(1)[OF assms(1)] assms(2)]
    by (auto simp: envelope_handoff_def metadata_text_def split: if_split_asm option.split_asm json.split_asm)
  then show ?thesis using one_row[OF d row] by (simp add: store_complete_def complete_handoff_def)
qed

lemma retry_rounds:
  assumes "custody_ok env_of c" "hand c k = Some h" "adm c h = Some a" "ad_cleanup a" "k \<in> set (cu_retries c)"
  shows "retry_cleanup (Some OSError) k c = c"
    "retry_cleanup None k c = end_retry k (discard_claim h (close_envelope k (gone h a c)))"
proof -
  obtain a' where "adm c h = Some a'" "ad_owner a' = Some k"
    using owners_agreeD(1)[OF custody_okD(1)[OF assms(1)] assms(2)] by blast
  then have o: "ad_owner a = Some k" using assms(3) by simp
  show "retry_cleanup (Some OSError) k c = c"
    using assms(2-5) o by (simp add: retry_cleanup_def store_complete_def)
  show "retry_cleanup None k c = end_retry k (discard_claim h (close_envelope k (gone h a c)))"
    using assms(2-5) o finalize_gone[OF assms(1,3,2)] owned_row_deleted[OF assms(1,2)]
    by (simp add: retry_cleanup_def del: map_of_eq_Some_iff)
qed


lemma rounds_change_nothing:
  assumes "custody_ok env_of c" "hand c k = Some h" "adm c h = Some a" "ad_cleanup a" "k \<in> set (cu_retries c)"
  shows "custody_run env_of (replicate n (RetryCleanup (Some OSError) k)) c = c"
  by (induction n) (simp_all add: retry_rounds(1)[OF assms])

lemma gone_facts:
  assumes "custody_ok env_of c" "hand c k = Some h" "adm c h = Some a"
  shows "h \<notin> row_ids (gone h a c)" "hand (gone h a c) k = None" "adm (gone h a c) h = None"
proof -
  obtain a' where "adm c h = Some a'" "ad_owner a' = Some k"
    using owners_agreeD(1)[OF custody_okD(1)[OF assms(1)] assms(2)] by blast
  then show "h \<notin> row_ids (gone h a c)" "hand (gone h a c) k = None" "adm (gone h a c) h = None"
    using assms(3) by (auto simp: gone_def drop_admission_def delete_conv')
qed

section \<open>A concrete state\<close>

text \<open>A small state: one row, owned by the envelope 1, with its lease.\<close>

definition row_fields :: "(string \<times> json) list" where
  "row_fields = [(''durable_handoff_id'', JStr ''h''), (''durable_inbound'', JBool True),
     (''provider_message_id'', JStr ''m''), (''session_key_override'', JStr ''S'')]"

definition row_time :: moment where
  "row_time = \<lparr>mo_year = 2024, mo_month = 1, mo_day = 1, mo_hour = 0, mo_minute = 30, mo_second = 0, mo_micro = 0,
     mo_offset = Some 0\<rparr>"

definition handoff_row :: handoff where
  "handoff_row = \<lparr>ho_id = ''h'', ho_dedupe = Some ''ch:S:m'', ho_channel = ''ch'', ho_sender = ''s'', ho_chat = ''c'',
     ho_session = ''S'', ho_content = ''hi'', ho_timestamp = iso_text row_time, ho_media = Tree (JArr []),
     ho_metadata = Tree (JObj row_fields), ho_created = ''t''\<rparr>"

definition sample_raw :: raw_inbound where
  "sample_raw = \<lparr>ri_id = ''m'', ri_identity = Some ''s'', ri_recipient = Some ''c'', ri_channel = ''ch'', ri_sender = ''s'',
     ri_chat = ''c'', ri_content = ''hi'', ri_timestamp = row_time, ri_metadata = row_fields, ri_attachments = []\<rparr>"

definition custody_env :: "nat \<Rightarrow> envelope" where
  "custody_env k = \<lparr>en_key = k, en_message = ''m'', en_session = ''S'', en_channel = ''ch'', en_metadata = row_fields\<rparr>"

definition sample_admission :: admission where
  "sample_admission = \<lparr>ad_id = ''l'', ad_channel = ''ch'', ad_owner = Some 1, ad_cleanup = False, ad_recoverable = False\<rparr>"

definition sample_custody :: custody where
  "sample_custody = \<lparr>cu_rows = [handoff_row], cu_leases = [(''l'', ''S'')], cu_sessions = [''S''], cu_closed = [],
     cu_claimed = [], cu_handoffs = [(1, ''h'')], cu_admissions = [(''h'', sample_admission)], cu_shut = False,
     cu_failed = False, cu_retries = []\<rparr>"

lemma row_time_ok: "moment_ok row_time"
  by (simp add: moment_ok_def row_time_def days_in_month_def month_lengths_def)

lemma row_identity_none: "read_handoff_provider_identity row_fields = Inr None"
  by (simp add: read_handoff_provider_identity_def row_fields_def identity_key_def)

lemma row_fields_sorted: "json_norm (JObj row_fields) = JObj row_fields"
proof -
  have "sorted (keys_of row_fields)"
    by (simp add: row_fields_def less_char_def del: less_char_simp less_eq_char_simp)
  moreover have "map (map_prod id json_norm) row_fields = row_fields" by (simp add: row_fields_def)
  ultimately show ?thesis using sort_fields_id by simp
qed

lemma handoff_row_projected: "project_handoff_row handoff_row = Inr handoff_row"
proof -
  have "project_fields row_fields = row_fields" by (simp add: project_fields_def take_alias_def row_fields_def)
  then show ?thesis by (simp add: project_handoff_row_def project_handoff_metadata_def handoff_row_def
    row_identity_none row_fields_sorted del: json_norm.simps)
qed

lemma handoff_row_raw: "raw_of_handoff handoff_row = Inr (Some sample_raw)"
proof -
  have "raw_ok sample_raw" by code_simp
  moreover have "metadata_text row_fields ''provider_message_id'' = Some ''m''" "row_refs row_fields = Inr []"
    "map_of row_fields ''durable_handoff_id'' = Some (JStr ''h'')"
    by (simp_all add: metadata_text_def row_fields_def row_refs_def)
  moreover have "strip_handoff_provider_identity row_fields = row_fields"
    by (simp add: strip_handoff_provider_identity_def row_fields_def identity_key_def)
  ultimately have marked: "marked_raw handoff_row row_fields row_time = Inr sample_raw"
    by (simp add: marked_raw_def row_identity_def row_identity_none handoff_row_def sample_raw_def Let_def)
  have "has_durable_marker row_fields" by (simp add: has_durable_marker_def row_fields_def)
  moreover have "mo_offset row_time \<noteq> None" by (simp add: row_time_def)
  ultimately show ?thesis
    using marked iso_text_nonempty[OF row_time_ok] iso_text_nonempty[OF row_time_ok, THEN not_sym]
    by (simp add: raw_of_handoff_def media_list_def fail_if_def)
      (simp add: handoff_row_def parse_iso_text[OF row_time_ok])
qed

lemma sample_page: "list_handoffs (Some recovery_page_size) None (cu_rows sample_custody) = Inr [handoff_row]"
  by (simp add: list_handoffs_def recovery_page_size_def sample_custody_def Let_def handoff_row_projected)

lemma sample_ids: "ho_id handoff_row = ''h''" by (simp add: handoff_row_def)

lemma sample_faithful: "faithful custody_env" by (simp add: faithful_def custody_env_def)

lemma sample_ok: "custody_ok custody_env sample_custody"
proof -
  have e: "envelope_handoff (custody_env k) = Some ''h''" for k
    by (simp add: envelope_handoff_def custody_env_def row_fields_def has_durable_marker_def metadata_text_def)
  have "hand sample_custody = [1 \<mapsto> ''h'']" "adm sample_custody = [''h'' \<mapsto> sample_admission]"
    by (simp_all add: sample_custody_def)
  then show ?thesis using e sample_ids
    by (auto simp: custody_ok_def owners_agree_def leases_held_def tables_distinct_def sample_admission_def
      simp del: map_of_eq_Some_iff) (simp_all add: sample_custody_def sample_ids sample_admission_def)
qed

lemma sample_parts: "hand sample_custody 1 = Some ''h''" "adm sample_custody ''h'' = Some sample_admission"
    "''h'' \<in> row_ids sample_custody" "\<not> ad_cleanup sample_admission" "1 \<notin> set (cu_retries sample_custody)"
  by (simp_all add: sample_custody_def sample_ids sample_admission_def)

section \<open>Claims\<close>



text \<open>C17. An input leaves the table in two ways only: its owner completes it (at once or
  in a retry of the cleanup), or an input that nobody owns is settled as rejected. If it is in the
  table before a run of operations and not after it, one of them did that.\<close>

theorem inputs_not_lost:
  assumes "faithful env_of" "custody_ok env_of c" "h \<in> row_ids c" "h \<notin> row_ids (custody_run env_of evs c)"
  shows "\<exists>before ev rest. evs = before @ ev # rest \<and> settles env_of (custody_run env_of before c) ev h"
  by (rule rows_settled[OF assms])

theorem inputs_not_lost_witness:
  "\<exists>before ev rest. [OtherSessions [], Finish None 1] = before @ ev # rest \<and>
     settles custody_env (custody_run custody_env before sample_custody) ev ''h''"
proof (rule inputs_not_lost[OF sample_faithful sample_ok sample_parts(3)])
  show "''h'' \<notin> row_ids (custody_run custody_env [OtherSessions [], Finish None 1] sample_custody)"
    by (simp add: complete_channel_input_def complete_durable_inbound_def store_complete_def complete_handoff_def
      finalize_owner_def close_envelope_def release_admission_def discard_claim_def sample_custody_def
      sample_admission_def sample_ids)
qed







text \<open>Closing the custody releases every lease and every owner and leaves the
  table alone, so that the next process finds every input that is not completed; it fails only when a
  cleanup has failed for good before.\<close>

theorem shutdown_releases_leases:
  assumes "custody_ok env_of c"
  shows "cu_leases (snd (close_custody c)) = [] \<and> cu_handoffs (snd (close_custody c)) = [] \<and>
    cu_rows (snd (close_custody c)) = cu_rows c \<and>
    fst (close_custody c) = (if cu_failed c then Inl RuntimeError else Inr ())"
  using shut_down[OF assms] by simp

theorem shutdown_witness:
  "cu_leases sample_custody = [(''l'', ''S'')] \<and> cu_leases (snd (close_custody sample_custody)) = [] \<and>
   cu_rows (snd (close_custody sample_custody)) = [handoff_row]"
  using shutdown_releases_leases[OF sample_ok] by (simp add: sample_custody_def)


section \<open>Failures that stay\<close>

text \<open>What SQLite raises is no \<open>OSError\<close>: the first failure ends the cleanup for good, and no input is
  accepted any more.\<close>

lemma database_failure_is_final:
  assumes "custody_ok env_of c" "hand c k = Some h" "adm c h = Some a" "\<not> ad_cleanup a"
  defines "c' \<equiv> snd (complete_channel_input (Some OperationalError) k c)"
  shows "cu_failed c'" "cu_retries c' = cu_retries c" "fst (prepare_channel_input new e c') = Inl RuntimeError"
proof -
  have "ad_owner a = Some k" by (rule degraded_facts(4)[OF assms(1-3)])
  then have c': "c' = c\<lparr>cu_failed := True\<rparr>"
    using assms(2-4) by (simp add: c'_def complete_channel_input_def complete_durable_inbound_def store_complete_def)
  show "cu_failed c'" "cu_retries c' = cu_retries c" "fst (prepare_channel_input new e c') = Inl RuntimeError"
    by (simp_all add: c' prepare_channel_input_def)
qed

text \<open>An input of a page whose row does not fit its envelope keeps the lease it has just been given: it
  has no owner, and is in flight until the process ends.\<close>

lemma unbound_lease_stays:
  assumes "custody_ok env_of c" "envelope_handoff e = Some h" "\<not> cu_shut c" "h \<in> set (cu_claimed c)" "adm c h = None"
    and "en_session e \<in> set (cu_sessions c)" "en_session e \<noteq> []" "new \<notin> lease_ids c"
    and "require_existing (en_metadata e) = JBool True"
    and "read_handoff (en_channel e) (en_session e) (en_message e) (cu_rows c) (cu_rows c) = Inl err"
  shows "fst (reserve_durable_input new e c) = Inl err" "h \<in> set (in_flight (snd (reserve_durable_input new e c)))"
proof -
  let ?a = "\<lparr>ad_id = new, ad_channel = en_channel e, ad_owner = None, ad_cleanup = False, ad_recoverable = False\<rparr>"
  have en: "ensure_admission new h (en_session e) (en_channel e) (JBool True) c =
      (Inr (?a, True), new_admission h (en_session e) ?a c)"
    using assms(5-8) by (simp add: ensure_admission_def acquire_def Let_def new_admission_def)
  have c': "reserve_durable_input new e c = (Inl err, new_admission h (en_session e) ?a c)"
    using assms(2-5,9,10) by (simp add: reserve_durable_input_def en bind_envelope_def) (simp add: new_admission_def assms(10))
  show "fst (reserve_durable_input new e c) = Inl err" by (simp add: c')
  have "custody_ok env_of (new_admission h (en_session e) ?a c)"
    by (rule new_admission_ok[OF assms(1,5)]) (use assms(8) in simp_all)
  then show "h \<in> set (in_flight (snd (reserve_durable_input new e c)))"
    using new_admission_adm[of h "en_session e" ?a c] by (simp add: c' in_flight_iff del: map_of_eq_Some_iff)
qed

end
