(* ===== verification/Artifact_Store.thy ===== *)
theory Artifact_Store
  imports Inbound_Message
begin

text \<open>
  \<open>ArtifactStore\<close> of \<open>plugins/ledger/artifact_store.py\<close>: the metadata of attachments and the
  records of their imports. Every operation is one transaction. The columns \<open>kind\<close>, \<open>phase\<close> and
  \<open>state\<close> have only the values that the schema's checks allow.
\<close>

section \<open>Storage keys\<close>

fun split_on :: "char \<Rightarrow> string \<Rightarrow> string list" where
  "split_on c [] = [[]]"
| "split_on c (d # s) = (if d = c then [] # split_on c s
     else case split_on c s of [] \<Rightarrow> [[d]] | w # ws \<Rightarrow> (d # w) # ws)"

text \<open>\<open>PurePosixPath(s).parts\<close>.\<close>

definition posix_root :: "string \<Rightarrow> string list" where
  "posix_root s = (if take 1 s \<noteq> ''/'' then []
     else if take 2 s = ''//'' \<and> take 3 s \<noteq> ''///'' then [''//''] else [''/''])"

definition posix_parts :: "string \<Rightarrow> string list" where
  "posix_parts s = posix_root s @ filter (\<lambda>w. w \<noteq> [] \<and> w \<noteq> ''.'') (split_on CHR ''/'' s)"

definition final_name :: "string \<Rightarrow> string" where
  "final_name i = i @ ''.bin''"

definition storage_key :: "string \<Rightarrow> string" where
  "storage_key i = ''uploads/artifacts/'' @ final_name i"

definition key_ok :: "string \<Rightarrow> string \<Rightarrow> bool" where
  "key_ok i key \<longleftrightarrow> posix_parts key = [''uploads'', ''artifacts'', final_name i]"

section \<open>Rows\<close>

datatype import_phase = ImpPrepared | ImpPublished | ImpCommitted

record import_row =
  im_id :: string
  im_key :: string
  im_size :: int
  im_sha :: string
  im_phase :: import_phase
  im_created :: string
  im_updated :: string
  im_error :: "string option"

record artifact_row =
  ar_ref :: attachment_ref
  ar_key :: string
  ar_created :: string

record artifact_db =
  db_ready :: "artifact_row list"
  db_imports :: "import_row list"

definition import_ok :: "import_row \<Rightarrow> bool" where
  "import_ok r \<longleftrightarrow> artifact_id_ok (im_id r) \<and> key_ok (im_id r) (im_key r) \<and> 0 \<le> im_size r \<and> sha256_ok (im_sha r) \<and>
     im_created r \<noteq> [] \<and> im_updated r \<noteq> [] \<and> im_error r \<noteq> Some []"

definition read_import :: "import_row \<Rightarrow> import_row res" where
  "read_import r = (if import_ok r then Inr r else Inl ValueError)"

definition artifact_record :: "artifact_row \<Rightarrow> artifact_row res" where
  "artifact_record r = (if attachment_ref_ok (ar_ref r) \<and> key_ok (at_id (ar_ref r)) (ar_key r) \<and> ar_created r \<noteq> []
     then Inr r else Inl ValueError)"

definition find_import :: "string \<Rightarrow> artifact_db \<Rightarrow> import_row option" where
  "find_import i db = find (\<lambda>r. im_id r = i) (db_imports db)"

definition find_ready :: "string \<Rightarrow> artifact_db \<Rightarrow> artifact_row option" where
  "find_ready i db = find (\<lambda>r. at_id (ar_ref r) = i) (db_ready db)"

section \<open>Imports\<close>

definition same_import :: "string \<Rightarrow> int \<Rightarrow> string \<Rightarrow> import_row \<Rightarrow> bool" where
  "same_import key n sha r \<longleftrightarrow> im_key r = key \<and> im_size r = n \<and> im_sha r = sha"

definition begin_import ::
  "string \<Rightarrow> string \<Rightarrow> int \<Rightarrow> string \<Rightarrow> string \<Rightarrow> artifact_db \<Rightarrow> import_row res \<times> artifact_db" where
  "begin_import i key n sha created db =
     (let intent = \<lparr>im_id = i, im_key = key, im_size = n, im_sha = sha, im_phase = ImpPrepared,
        im_created = created, im_updated = created, im_error = None\<rparr> in
      if \<not> import_ok intent then (Inl ValueError, db)
      else case find_import i db of
        Some r \<Rightarrow> if \<not> same_import key n sha r then (Inl RuntimeError, db) else (read_import r, db)
      | None \<Rightarrow>
          if list_ex (\<lambda>r. im_key r = key) (db_imports db) then (Inl IntegrityError, db)
          else (Inr intent, db\<lparr>db_imports := db_imports db @ [intent]\<rparr>))"

definition update_import ::
  "string \<Rightarrow> (import_row \<Rightarrow> bool) \<Rightarrow> (import_row \<Rightarrow> import_row) \<Rightarrow> artifact_db \<Rightarrow> unit res \<times> artifact_db" where
  "update_import i P f db =
     (if list_ex (\<lambda>r. im_id r = i \<and> P r) (db_imports db)
      then (Inr (), db\<lparr>db_imports := map (\<lambda>r. if im_id r = i \<and> P r then f r else r) (db_imports db)\<rparr>)
      else (Inl RuntimeError, db))"

definition mark_file_published :: "string \<Rightarrow> string \<Rightarrow> artifact_db \<Rightarrow> unit res \<times> artifact_db" where
  "mark_file_published i updated db =
     (if updated = [] then (Inl ValueError, db)
      else update_import i (\<lambda>r. im_phase r = ImpPrepared)
        (\<lambda>r. r\<lparr>im_phase := ImpPublished, im_updated := updated, im_error := None\<rparr>) db)"

definition record_import_error :: "string \<Rightarrow> string \<Rightarrow> string \<Rightarrow> artifact_db \<Rightarrow> unit res \<times> artifact_db" where
  "record_import_error i err updated db =
     (if err = [] then (Inl ValueError, db)
      else if updated = [] then (Inl ValueError, db)
      else update_import i (\<lambda>r. im_phase r \<noteq> ImpCommitted)
        (\<lambda>r. r\<lparr>im_updated := updated, im_error := Some err\<rparr>) db)"

definition attachment_import :: "string \<Rightarrow> artifact_db \<Rightarrow> import_row option res" where
  "attachment_import i db = (case find_import i db of
     None \<Rightarrow> Inr None | Some r \<Rightarrow> attempt (read_import r) (\<lambda>x. Inr (Some x)))"

definition incomplete_rows :: "artifact_db \<Rightarrow> import_row list" where
  "incomplete_rows db = sort_key (\<lambda>r. [im_created r, im_id r]) (filter (\<lambda>r. im_phase r \<noteq> ImpCommitted) (db_imports db))"

definition incomplete_imports :: "artifact_db \<Rightarrow> import_row list res" where
  "incomplete_imports db = traverse read_import (incomplete_rows db)"

section \<open>Ready artifacts\<close>

definition get_attachment :: "string \<Rightarrow> artifact_db \<Rightarrow> artifact_row option res" where
  "get_attachment i db = (case find_ready i db of
     None \<Rightarrow> Inr None | Some r \<Rightarrow> attempt (artifact_record r) (\<lambda>x. Inr (Some x)))"

definition sorted_ready :: "artifact_db \<Rightarrow> artifact_row list" where
  "sorted_ready db = sort_key (\<lambda>r. at_id (ar_ref r)) (db_ready db)"

definition list_attachments :: "artifact_db \<Rightarrow> artifact_row list res" where
  "list_attachments db = traverse artifact_record (sorted_ready db)"

text \<open>The transaction of \<open>register_ready_attachment\<close>.\<close>

definition ready_conflict :: "artifact_row \<Rightarrow> artifact_db \<Rightarrow> bool" where
  "ready_conflict row db \<longleftrightarrow>
     list_ex (\<lambda>r. at_id (ar_ref r) = at_id (ar_ref row) \<or> ar_key r = ar_key row) (db_ready db)"

definition commit_ready :: "attachment_ref \<Rightarrow> string \<Rightarrow> string \<Rightarrow> artifact_db \<Rightarrow> unit res \<times> artifact_db" where
  "commit_ready ref key created db = (case find_import (at_id ref) db of
     None \<Rightarrow> (Inl RuntimeError, db)
   | Some r \<Rightarrow>
       if im_phase r \<noteq> ImpPublished then (Inl RuntimeError, db)
       else if \<not> same_import key (at_size ref) (at_sha ref) r then (Inl RuntimeError, db)
       else (let row = \<lparr>ar_ref = ref, ar_key = key, ar_created = created\<rparr> in
         if ready_conflict row db then (Inl IntegrityError, db)
         else (Inr (), snd (update_import (at_id ref) (\<lambda>r. im_phase r = ImpPublished)
           (\<lambda>r. r\<lparr>im_phase := ImpCommitted, im_updated := created, im_error := None\<rparr>)
           (db\<lparr>db_ready := db_ready db @ [row]\<rparr>)))))"

definition register_ready :: "attachment_ref \<Rightarrow> string \<Rightarrow> string \<Rightarrow> artifact_db \<Rightarrow> artifact_row res \<times> artifact_db" where
  "register_ready ref key created db =
     (if \<not> key_ok (at_id ref) key then (Inl ValueError, db)
      else if created = [] then (Inl ValueError, db)
      else case commit_ready ref key created db of
        (Inl e, db') \<Rightarrow> (Inl e, db')
      | (Inr _, db') \<Rightarrow> (attempt (get_attachment (at_id ref) db') (\<lambda>found.
          case found of None \<Rightarrow> Inl RuntimeError | Some row \<Rightarrow> Inr row), db'))"

section \<open>The check of the metadata\<close>

definition committed_for :: "artifact_db \<Rightarrow> artifact_row \<Rightarrow> bool" where
  "committed_for db row = (case find_import (at_id (ar_ref row)) db of
     None \<Rightarrow> False
   | Some r \<Rightarrow> im_phase r = ImpCommitted \<and> same_import (ar_key row) (at_size (ar_ref row)) (at_sha (ar_ref row)) r)"

definition validate_metadata :: "artifact_db \<Rightarrow> (nat \<times> string list) res" where
  "validate_metadata db =
     attempt (traverse artifact_record (sorted_ready db)) (\<lambda>_.
     attempt (traverse read_import (sort_key im_id (db_imports db))) (\<lambda>_.
     attempt (fail_if (\<not> list_all (committed_for db) (sorted_ready db)) ValueError) (\<lambda>_.
     attempt (fail_if (list_ex (\<lambda>r. im_phase r = ImpCommitted \<and> find_ready (im_id r) db = None) (db_imports db))
       ValueError) (\<lambda>_.
     Inr (length (db_ready db), map im_id (incomplete_rows db))))))"

end
