(* ===== verification/Artifact_Files.thy ===== *)
theory Artifact_Files
  imports Artifact_Store
begin

text \<open>
  \<open>ChannelAttachmentArtifactStore\<close> of \<open>plugins/ledger/attachments.py\<close>: the files of attachments,
  published beside their metadata so that a crash at any point leaves a state from which the
  publication can go on.

  Bytes are characters. \<open>sha\<close> stands for SHA-256 in hexadecimal. Calls with one artifact identity
  are serialized by a lock of the code; calls with different identities touch different rows and
  files, so that calls follow one another here. Each effect of a publication may raise, or the
  process may die before it; what has been done before stays. Losing power is not modelled
  (\<open>fsync\<close> changes nothing).
\<close>

section \<open>The type of an image\<close>

definition starts :: "string \<Rightarrow> string \<Rightarrow> bool" where
  "starts p s \<longleftrightarrow> take (length p) s = p"

definition detect_supported_image_mime :: "string \<Rightarrow> string option" where
  "detect_supported_image_mime head =
     (if starts ([CHR 137] @ ''PNG'' @ [CHR 13, CHR 10, CHR 26, CHR 10]) head then Some ''image/png''
      else if starts [CHR 255, CHR 216, CHR 255] head then Some ''image/jpeg''
      else if starts ''GIF87a'' head \<or> starts ''GIF89a'' head then Some ''image/gif''
      else if starts ''BM'' head then Some ''image/bmp''
      else if starts ''RIFF'' head \<and> take 4 (drop 8 head) = ''WEBP'' then Some ''image/webp''
      else None)"

definition verified_attachment_type ::
  "attachment_kind \<Rightarrow> string option \<Rightarrow> string \<Rightarrow> attachment_kind \<times> string option" where
  "verified_attachment_type kind media head = (case detect_supported_image_mime head of
     Some mime \<Rightarrow> (ImageKind, Some mime)
   | None \<Rightarrow> if kind = ImageKind then (FileKind, media) else (kind, media))"

section \<open>Writing\<close>

text \<open>\<open>_write_all\<close>: \<open>os.write\<close> takes some bytes each time; \<open>counts i\<close> is what the call \<open>i\<close> returns.\<close>

function write_all :: "(nat \<Rightarrow> int) \<Rightarrow> nat \<Rightarrow> string \<Rightarrow> string \<Rightarrow> unit res \<times> string" where
  "write_all counts i data written =
     (if data = [] then (Inr (), written)
      else if counts i \<le> 0 then (Inl OSError, written)
      else write_all counts (Suc i) (drop (nat (counts i)) data) (written @ take (nat (counts i)) data))"
  by auto
termination by (relation "measure (\<lambda>(counts, i, data, written). length data)") auto

declare write_all.simps [simp del]

section \<open>The directory\<close>

datatype entry = RegularFile string | SymLink | SubDirectory

record artifact_world =
  aw_db :: artifact_db
  aw_bad :: "py_error option"
  aw_dir :: "(string \<times> entry) list option"

text \<open>\<open>_resolve_artifact_root\<close>: \<open>aw_bad\<close> is what its checks of the workspace and of the two
  directories raise.\<close>

definition resolve_root :: "bool \<Rightarrow> artifact_world \<Rightarrow> (string \<times> entry) list option res \<times> artifact_world" where
  "resolve_root create w = (case aw_bad w of
     Some e \<Rightarrow> (Inl e, w)
   | None \<Rightarrow> (case aw_dir w of
       Some d \<Rightarrow> (Inr (Some d), w)
     | None \<Rightarrow> if create then (Inr (Some []), w\<lparr>aw_dir := Some []\<rparr>) else (Inr None, w)))"

definition entries :: "artifact_world \<Rightarrow> (string \<times> entry) list" where
  "entries w = (case aw_dir w of None \<Rightarrow> [] | Some d \<Rightarrow> d)"

abbreviation entry_at :: "artifact_world \<Rightarrow> string \<Rightarrow> entry option" where
  "entry_at w \<equiv> map_of (entries w)"

definition put_entry :: "string \<Rightarrow> entry \<Rightarrow> artifact_world \<Rightarrow> artifact_world" where
  "put_entry n e w = w\<lparr>aw_dir := Some (dict_put n e (entries w))\<rparr>"

definition remove_entry :: "string \<Rightarrow> artifact_world \<Rightarrow> artifact_world" where
  "remove_entry n w = w\<lparr>aw_dir := map_option (dict_remove n) (aw_dir w)\<rparr>"

definition staging_name :: "string \<Rightarrow> string" where
  "staging_name i = ''.'' @ i @ ''.part''"

text \<open>Opening without following links and reading all of it: the bytes of a regular file.\<close>

definition open_regular :: "entry option \<Rightarrow> string res" where
  "open_regular e = (case e of
     None \<Rightarrow> Inl OSError | Some SymLink \<Rightarrow> Inl OSError | Some SubDirectory \<Rightarrow> Inl ValueError
   | Some (RegularFile d) \<Rightarrow> Inr d)"

definition exact_bytes :: "(string \<Rightarrow> string) \<Rightarrow> attachment_ref \<Rightarrow> string \<Rightarrow> bool" where
  "exact_bytes sha ref d \<longleftrightarrow> int (length d) = at_size ref \<and> sha d = at_sha ref"

text \<open>\<open>_verify_unregistered_file\<close> and \<open>_open_verified\<close>; the second gives the bytes of the file
  descriptor.\<close>

definition verify_file :: "(string \<Rightarrow> string) \<Rightarrow> attachment_ref \<Rightarrow> entry option \<Rightarrow> string res" where
  "verify_file sha ref e = attempt (open_regular e) (\<lambda>d. if exact_bytes sha ref d then Inr d else Inl ValueError)"

definition open_verified :: "(string \<Rightarrow> string) \<Rightarrow> artifact_row \<Rightarrow> artifact_world \<Rightarrow> string res" where
  "open_verified sha row w = (case fst (resolve_root False w) of
     Inl e \<Rightarrow> Inl e
   | Inr None \<Rightarrow> Inl OSError
   | Inr (Some d) \<Rightarrow> verify_file sha (ar_ref row) (map_of d (final_name (at_id (ar_ref row)))))"

section \<open>Reading\<close>

definition acquire_artifact :: "(string \<Rightarrow> string) \<Rightarrow> attachment_ref \<Rightarrow> artifact_world \<Rightarrow> string res" where
  "acquire_artifact sha ref w = attempt (get_attachment (at_id ref) (aw_db w)) (\<lambda>found. case found of
     None \<Rightarrow> Inl ValueError
   | Some row \<Rightarrow> if ar_ref row \<noteq> ref then Inl ValueError else open_verified sha row w)"

text \<open>Reading from a lease: \<open>fd\<close> is \<open>None\<close> when it is closed.\<close>

definition read_bytes :: "attachment_ref \<Rightarrow> int \<Rightarrow> string option \<Rightarrow> string res" where
  "read_bytes ref max_bytes fd =
     (if max_bytes < 0 then Inl ValueError
      else if at_size ref > max_bytes then Inl ValueError
      else case fd of None \<Rightarrow> Inl RuntimeError | Some d \<Rightarrow> Inr (take (nat (at_size ref)) d))"

definition read_chunk :: "attachment_ref \<Rightarrow> int \<Rightarrow> int \<Rightarrow> string option \<Rightarrow> string res" where
  "read_chunk ref offset max_bytes fd =
     (if \<not> (0 \<le> offset \<and> offset \<le> at_size ref) \<or> max_bytes \<le> 0 then Inl ValueError
      else case fd of None \<Rightarrow> Inl RuntimeError | Some d \<Rightarrow> Inr (take (nat max_bytes) (drop (nat offset) d)))"

definition resolve_refs :: "string list \<Rightarrow> artifact_db \<Rightarrow> attachment_ref list res" where
  "resolve_refs is db = traverse (\<lambda>i. attempt (get_attachment i db) (\<lambda>found. case found of
     None \<Rightarrow> Inl ValueError | Some row \<Rightarrow> Inr (ar_ref row))) is"

definition ends_with :: "string \<Rightarrow> string \<Rightarrow> bool" where
  "ends_with p s \<longleftrightarrow> length p \<le> length s \<and> drop (length s - length p) s = p"

definition orphans_of :: "artifact_db \<Rightarrow> string list \<Rightarrow> string list res" where
  "orphans_of db names = attempt (traverse (\<lambda>n. let i = take (length n - 4) n in
      attempt (get_attachment i db) (\<lambda>found. Inr (i, found = None)))
     (filter (\<lambda>n. \<not> starts ''.'' n \<and> ends_with ''.bin'' n) (sort names)))
   (\<lambda>found. Inr (map fst (filter snd found)))"

definition audit_orphans :: "artifact_world \<Rightarrow> string list res" where
  "audit_orphans w = attempt (fst (resolve_root False w)) (\<lambda>root. case root of
     None \<Rightarrow> Inr [] | Some d \<Rightarrow> orphans_of (aw_db w) (map fst d))"

text \<open>\<open>validate_filesystem_integrity\<close>: the number of ready artifacts, their bytes, the orphans and the
  incomplete imports.\<close>

definition validate_files ::
  "(string \<Rightarrow> string) \<Rightarrow> artifact_world \<Rightarrow> (nat \<times> int \<times> string list \<times> string list) res" where
  "validate_files sha w =
     attempt (validate_metadata (aw_db w)) (\<lambda>(_, incomplete).
     attempt (list_attachments (aw_db w)) (\<lambda>rows.
     attempt (traverse (\<lambda>row. open_verified sha row w) rows) (\<lambda>_.
     attempt (fst (resolve_root False w)) (\<lambda>root.
     attempt (fail_if (case root of None \<Rightarrow> False
        | Some d \<Rightarrow> list_ex (\<lambda>(n, _). starts ''.'' n \<and> 5 < length n \<and> ends_with ''.part'' n) d) ValueError) (\<lambda>_.
     attempt (audit_orphans w) (\<lambda>orphans.
     Inr (length rows, sum_list (map (\<lambda>row. at_size (ar_ref row)) rows), orphans, incomplete)))))))"

section \<open>Publishing\<close>

datatype fault = NoFault | Raises py_error | Dies

text \<open>What an attempt meets: a fault before each of its effects, how much of the content a write
  leaves that does not end, and what the clock says.\<close>

record publish_env =
  pe_fault :: "nat \<Rightarrow> fault"
  pe_partial :: nat
  pe_clock :: "nat \<Rightarrow> string"
  pe_error :: string

text \<open>The content: the bytes written, and what the writer raises after them.\<close>

type_synonym content = "string \<times> py_error option"

datatype 'a ending = Returned 'a | Raised py_error | Died

type_synonym 'a action = "artifact_world \<Rightarrow> 'a ending \<times> artifact_world"

definition bind_action :: "'a action \<Rightarrow> ('a \<Rightarrow> 'b action) \<Rightarrow> 'b action" where
  "bind_action m k w = (case m w of
     (Returned x, w') \<Rightarrow> k x w' | (Raised e, w') \<Rightarrow> (Raised e, w') | (Died, w') \<Rightarrow> (Died, w'))"

definition effect :: "fault \<Rightarrow> (artifact_world \<Rightarrow> 'a res \<times> artifact_world) \<Rightarrow> 'a action" where
  "effect f act w = (case f of
     Dies \<Rightarrow> (Died, w) | Raises e \<Rightarrow> (Raised e, w)
   | NoFault \<Rightarrow> (case act w of (Inl e, w') \<Rightarrow> (Raised e, w') | (Inr x, w') \<Rightarrow> (Returned x, w')))"

definition on_db :: "(artifact_db \<Rightarrow> 'a res \<times> artifact_db) \<Rightarrow> artifact_world \<Rightarrow> 'a res \<times> artifact_world" where
  "on_db f w = (case f (aw_db w) of (x, db) \<Rightarrow> (x, w\<lparr>aw_db := db\<rparr>))"

definition look :: "(artifact_world \<Rightarrow> 'a res) \<Rightarrow> artifact_world \<Rightarrow> 'a res \<times> artifact_world" where
  "look f w = (f w, w)"

text \<open>\<open>_register_ready\<close> and \<open>_require_existing_ready\<close>.\<close>

definition register_action :: "publish_env \<Rightarrow> attachment_ref \<Rightarrow> attachment_ref action" where
  "register_action env ref = bind_action
     (effect (pe_fault env 11) (on_db (register_ready ref (storage_key (at_id ref)) (pe_clock env 2))))
     (\<lambda>row w. (Returned (ar_ref row), w))"

definition require_existing_ready :: "(string \<Rightarrow> string) \<Rightarrow> attachment_ref \<Rightarrow> artifact_world \<Rightarrow> attachment_ref res" where
  "require_existing_ready sha ref w = attempt (get_attachment (at_id ref) (aw_db w)) (\<lambda>found. case found of
     None \<Rightarrow> Inl RuntimeError
   | Some row \<Rightarrow> if ar_ref row \<noteq> ref then Inl RuntimeError
       else attempt (open_verified sha row w) (\<lambda>_. Inr (ar_ref row)))"

definition mark_action :: "publish_env \<Rightarrow> attachment_ref \<Rightarrow> unit action" where
  "mark_action env ref = effect (pe_fault env 10) (on_db (mark_file_published (at_id ref) (pe_clock env 1)))"

text \<open>A staging file left by an attempt that died is removed.\<close>

definition clear_staging :: "string \<Rightarrow> artifact_world \<Rightarrow> unit res \<times> artifact_world" where
  "clear_staging i w = (case entry_at w (staging_name i) of
     None \<Rightarrow> (Inr (), w)
   | Some (RegularFile _) \<Rightarrow> (Inr (), remove_entry (staging_name i) w)
   | Some _ \<Rightarrow> (Inl ValueError, w))"

definition write_staging :: "publish_env \<Rightarrow> string \<Rightarrow> content \<Rightarrow> unit action" where
  "write_staging env i content w = (case pe_fault env 5 of
     NoFault \<Rightarrow> (case snd content of
         None \<Rightarrow> (Returned (), put_entry (staging_name i) (RegularFile (fst content)) w)
       | Some e \<Rightarrow> (Raised e, put_entry (staging_name i) (RegularFile (fst content)) w))
   | Raises e \<Rightarrow> (Raised e, put_entry (staging_name i) (RegularFile (take (pe_partial env) (fst content))) w)
   | Dies \<Rightarrow> (Died, put_entry (staging_name i) (RegularFile (take (pe_partial env) (fst content))) w))"

definition stage_action :: "publish_env \<Rightarrow> string \<Rightarrow> content \<Rightarrow> unit action" where
  "stage_action env i content =
     bind_action (effect (pe_fault env 3) (clear_staging i)) (\<lambda>_.
     bind_action (effect (pe_fault env 4) (\<lambda>w. (Inr (), put_entry (staging_name i) (RegularFile []) w))) (\<lambda>_.
     bind_action (write_staging env i content) (\<lambda>_.
     effect (pe_fault env 6) (\<lambda>w. (Inr (), w)))))"

definition link_final :: "string \<Rightarrow> artifact_world \<Rightarrow> unit res \<times> artifact_world" where
  "link_final i w = (case (entry_at w (staging_name i), entry_at w (final_name i)) of
     (Some e, None) \<Rightarrow> (Inr (), put_entry (final_name i) e w) | _ \<Rightarrow> (Inl OSError, w))"

text \<open>After the link the file is published.\<close>

definition after_link :: "publish_env \<Rightarrow> attachment_ref \<Rightarrow> attachment_ref action" where
  "after_link env ref =
     bind_action (effect (pe_fault env 8) (\<lambda>w. (Inr (), remove_entry (staging_name (at_id ref)) w))) (\<lambda>_.
     bind_action (effect (pe_fault env 9) (\<lambda>w. (Inr (), w))) (\<lambda>_.
     bind_action (mark_action env ref) (\<lambda>_. register_action env ref)))"

text \<open>The handler: the error is recorded when the import has begun; the staging file is removed
  unless the file is published. An error on the way does not hide the first one.\<close>

definition record_failure :: "publish_env \<Rightarrow> string \<Rightarrow> artifact_world \<Rightarrow> unit ending \<times> artifact_world" where
  "record_failure env i w = (case pe_fault env 20 of
     Dies \<Rightarrow> (Died, w) | Raises _ \<Rightarrow> (Returned (), w)
   | NoFault \<Rightarrow> (Returned (), snd (on_db (record_import_error i (pe_error env) (pe_clock env 3)) w)))"

definition drop_staging :: "publish_env \<Rightarrow> string \<Rightarrow> artifact_world \<Rightarrow> unit ending \<times> artifact_world" where
  "drop_staging env i w = (case pe_fault env 21 of
     Dies \<Rightarrow> (Died, w) | Raises _ \<Rightarrow> (Returned (), w)
   | NoFault \<Rightarrow> (Returned (), if entry_at w (staging_name i) = Some SubDirectory then w
       else remove_entry (staging_name i) w))"

definition handle ::
  "publish_env \<Rightarrow> string \<Rightarrow> bool \<Rightarrow> bool \<Rightarrow> 'a ending \<times> artifact_world \<Rightarrow> 'a ending \<times> artifact_world" where
  "handle env i started published result = (case result of
     (Raised e, w) \<Rightarrow> bind_action (if started then record_failure env i else (\<lambda>w. (Returned (), w)))
       (\<lambda>_. bind_action (if published then (\<lambda>w. (Returned (), w)) else drop_staging env i)
       (\<lambda>_ w'. (Raised e, w'))) w
   | r \<Rightarrow> r)"

text \<open>\<open>_publish_content_locked\<close> after the import has begun.\<close>

definition fresh_publication :: "publish_env \<Rightarrow> attachment_ref \<Rightarrow> content \<Rightarrow> attachment_ref action" where
  "fresh_publication env ref content w = (case bind_action (stage_action env (at_id ref) content)
       (\<lambda>_. effect (pe_fault env 7) (link_final (at_id ref))) w of
     (Returned _, w') \<Rightarrow> handle env (at_id ref) True True (after_link env ref w')
   | (Raised e, w') \<Rightarrow> handle env (at_id ref) True False (Raised e, w')
   | (Died, w') \<Rightarrow> (Died, w'))"

definition publish_body ::
  "(string \<Rightarrow> string) \<Rightarrow> publish_env \<Rightarrow> attachment_ref \<Rightarrow> content \<Rightarrow> import_row \<Rightarrow> attachment_ref action" where
  "publish_body sha env ref content intent w =
     (let i = at_id ref in case im_phase intent of
        ImpCommitted \<Rightarrow> handle env i True False (effect (pe_fault env 2) (look (require_existing_ready sha ref)) w)
      | ImpPublished \<Rightarrow> handle env i True False (bind_action
          (effect (pe_fault env 2) (look (\<lambda>w. verify_file sha ref (entry_at w (final_name i)))))
          (\<lambda>_. register_action env ref) w)
      | ImpPrepared \<Rightarrow>
          if entry_at w (final_name i) \<noteq> None
          then handle env i True False (bind_action
            (effect (pe_fault env 2) (look (\<lambda>w. verify_file sha ref (entry_at w (final_name i)))))
            (\<lambda>_. bind_action (mark_action env ref) (\<lambda>_. register_action env ref)) w)
          else fresh_publication env ref content w)"

definition publish_content ::
  "(string \<Rightarrow> string) \<Rightarrow> publish_env \<Rightarrow> attachment_ref \<Rightarrow> content \<Rightarrow> attachment_ref action" where
  "publish_content sha env ref content w = (case effect (pe_fault env 0) (resolve_root True) w of
     (Raised e, w1) \<Rightarrow> (Raised e, w1)
   | (Died, w1) \<Rightarrow> (Died, w1)
   | (Returned _, w1) \<Rightarrow> (case effect (pe_fault env 1) (on_db (begin_import (at_id ref) (storage_key (at_id ref))
         (at_size ref) (at_sha ref) (pe_clock env 0))) w1 of
       (Raised e, w2) \<Rightarrow> handle env (at_id ref) False False (Raised e, w2)
     | (Died, w2) \<Rightarrow> (Died, w2)
     | (Returned intent, w2) \<Rightarrow> publish_body sha env ref content intent w2))"


section \<open>Importing bytes and files\<close>

definition written_by :: "(nat \<Rightarrow> int) \<Rightarrow> string \<Rightarrow> content" where
  "written_by counts data = (case write_all counts 0 data [] of
     (Inl e, written) \<Rightarrow> (written, Some e) | (Inr _, written) \<Rightarrow> (written, None))"

definition checked_ref :: "attachment_ref \<Rightarrow> attachment_ref res" where
  "checked_ref ref = (if attachment_ref_ok ref then Inr ref else Inl ValueError)"

definition candidate_ref ::
  "string \<Rightarrow> attachment_kind \<Rightarrow> string option \<Rightarrow> string option \<Rightarrow> int \<Rightarrow> string \<Rightarrow> string \<Rightarrow> attachment_ref res" where
  "candidate_ref i kind filename media n digest head =
     (case verified_attachment_type kind media head of (k, m) \<Rightarrow>
       checked_ref \<lparr>at_id = i, at_kind = k, at_filename = filename, at_media = m, at_size = n, at_sha = digest\<rparr>)"

text \<open>\<open>new\<close> is the identity that \<open>uuid4\<close> gives.\<close>

definition import_bytes ::
  "(string \<Rightarrow> string) \<Rightarrow> publish_env \<Rightarrow> (nat \<Rightarrow> int) \<Rightarrow> int \<Rightarrow> string \<Rightarrow> string \<Rightarrow> attachment_kind \<Rightarrow> string option \<Rightarrow>
   string option \<Rightarrow> attachment_ref action" where
  "import_bytes sha env counts max_bytes new data kind filename media w =
     (if int (length data) > max_bytes then (Raised ValueError, w)
      else case candidate_ref new kind filename media (int (length data)) (sha data) (take 12 data) of
        Inl e \<Rightarrow> (Raised e, w)
      | Inr ref \<Rightarrow> publish_content sha env ref (written_by counts data) w)"

text \<open>A source is observed several times while it is adopted: \<open>sv_stat i\<close> and \<open>sv_bytes i\<close> are what
  the observation \<open>i\<close> sees, \<open>sv_path\<close> is what the checks of its path raise.\<close>

record source_stat =
  ss_device :: int
  ss_inode :: int
  ss_size :: int
  ss_mtime :: int
  ss_regular :: bool

record source_view =
  sv_path :: "py_error option"
  sv_stat :: "nat \<Rightarrow> source_stat"
  sv_bytes :: "nat \<Rightarrow> string"

record fingerprint =
  fp_device :: int
  fp_inode :: int
  fp_size :: int
  fp_mtime :: int
  fp_sha :: string
  fp_head :: string

definition same_source :: "source_stat \<Rightarrow> fingerprint \<Rightarrow> bool" where
  "same_source s fp \<longleftrightarrow> ss_device s = fp_device fp \<and> ss_inode s = fp_inode fp \<and> ss_size s = fp_size fp \<and>
     ss_mtime s = fp_mtime fp"

definition inspect_source :: "(string \<Rightarrow> string) \<Rightarrow> int \<Rightarrow> source_view \<Rightarrow> fingerprint res" where
  "inspect_source sha max_bytes src = (case sv_path src of
     Some e \<Rightarrow> Inl e
   | None \<Rightarrow>
       (let s = sv_stat src 0; d = sv_bytes src 0;
            fp = \<lparr>fp_device = ss_device s, fp_inode = ss_inode s, fp_size = ss_size s, fp_mtime = ss_mtime s,
              fp_sha = sha d, fp_head = take 12 d\<rparr> in
        if \<not> ss_regular s then Inl ValueError
        else if ss_size s > max_bytes then Inl ValueError
        else if \<not> same_source (sv_stat src 1) fp then Inl ValueError
        else Inr fp))"

text \<open>The copy reads and writes a chunk of one MiB at a time; here all chunks are one
  \<open>_write_all\<close>, which writes the same bytes up to the same failure.\<close>

definition copy_source :: "(string \<Rightarrow> string) \<Rightarrow> (nat \<Rightarrow> int) \<Rightarrow> source_view \<Rightarrow> fingerprint \<Rightarrow> content" where
  "copy_source sha counts src fp =
     (if \<not> same_source (sv_stat src 2) fp then ([], Some ValueError)
      else case written_by counts (sv_bytes src 1) of
        (d, Some e) \<Rightarrow> (d, Some e)
      | (d, None) \<Rightarrow>
          (d, if \<not> same_source (sv_stat src 3) fp then Some ValueError
              else if int (length (sv_bytes src 1)) \<noteq> fp_size fp \<or> sha (sv_bytes src 1) \<noteq> fp_sha fp then Some ValueError
              else if \<not> same_source (sv_stat src 4) fp then Some ValueError
              else None))"

definition adopt_file ::
  "(string \<Rightarrow> string) \<Rightarrow> publish_env \<Rightarrow> (nat \<Rightarrow> int) \<Rightarrow> int \<Rightarrow> string \<Rightarrow> source_view \<Rightarrow> attachment_kind \<Rightarrow>
   string option \<Rightarrow> string option \<Rightarrow> attachment_ref action" where
  "adopt_file sha env counts max_bytes new src kind filename media w =
     (case inspect_source sha max_bytes src of
        Inl e \<Rightarrow> (Raised e, w)
      | Inr fp \<Rightarrow> (case candidate_ref new kind filename media (fp_size fp) (fp_sha fp) (fp_head fp) of
          Inl e \<Rightarrow> (Raised e, w)
        | Inr ref \<Rightarrow> publish_content sha env ref (copy_source sha counts src fp) w))"

end
