(* ===== verification/Artifact_Invariant.thy ===== *)
theory Artifact_Invariant
  imports Artifact_Files
begin

text \<open>
  The invariant of the publication of attachments: an import that is past its preparation has its
  exact bytes under their final name, and a ready row belongs to a committed import. Every effect
  of an attempt keeps it, whatever fails, so that every history of attempts does.
\<close>

section \<open>Names\<close>

lemma names_differ [simp]:
  "final_name i \<noteq> staging_name j" "staging_name j \<noteq> final_name i" "final_name i = final_name j \<longleftrightarrow> i = j"
  "storage_key i = storage_key j \<longleftrightarrow> i = j" "staging_name i = staging_name j \<longleftrightarrow> i = j"
proof -
  have "last (final_name i) \<noteq> last (staging_name j)" by (simp add: final_name_def staging_name_def)
  then show "final_name i \<noteq> staging_name j" "staging_name j \<noteq> final_name i" by metis+
qed (simp_all add: final_name_def storage_key_def staging_name_def)

lemma split_on_no: "c \<notin> set s \<Longrightarrow> split_on c s = [s]"
  by (induction s) auto

lemma id_chars: "artifact_id_ok i \<Longrightarrow> CHR ''/'' \<notin> set i"
  by (auto simp: artifact_id_ok_def alphanumeric_def ascii_in_def list_all_iff split: list.splits)

lemma storage_key_ok: "artifact_id_ok i \<Longrightarrow> key_ok i (storage_key i)"
proof -
  assume "artifact_id_ok i"
  then have "CHR ''/'' \<notin> set (final_name i)" using id_chars by (simp add: final_name_def)
  then have s: "split_on CHR ''/'' (final_name i) = [final_name i]" by (rule split_on_no)
  have "split_on CHR ''/'' (storage_key i) = [''uploads'', ''artifacts'', final_name i]"
    by (simp add: storage_key_def s)
  moreover have "posix_root (storage_key i) = []" by (simp add: posix_root_def storage_key_def)
  moreover have "final_name i \<noteq> []" "final_name i \<noteq> ''.''" by (simp_all add: final_name_def append_eq_Cons_conv)
  ultimately show ?thesis by (simp add: key_ok_def posix_parts_def)
qed

section \<open>Looking up rows\<close>

abbreviation imp :: "artifact_world \<Rightarrow> string \<Rightarrow> import_row option" where
  "imp w i \<equiv> find_import i (aw_db w)"

abbreviation rdy :: "artifact_world \<Rightarrow> string \<Rightarrow> artifact_row option" where
  "rdy w i \<equiv> find_ready i (aw_db w)"

abbreviation final_of :: "artifact_world \<Rightarrow> string \<Rightarrow> entry option" where
  "final_of w i \<equiv> entry_at w (final_name i)"

lemma find_import_id: "find_import i db = Some r \<Longrightarrow> im_id r = i \<and> r \<in> set (db_imports db)"
  by (auto simp: find_import_def find_Some_iff)

lemma find_ready_id: "find_ready i db = Some a \<Longrightarrow> at_id (ar_ref a) = i \<and> a \<in> set (db_ready db)"
  by (auto simp: find_ready_def find_Some_iff)

lemma find_append: "find P (xs @ [x]) = (case find P xs of Some y \<Rightarrow> Some y | None \<Rightarrow> if P x then Some x else None)"
  by (induction xs) auto

lemma find_import_append:
  "find_import j (db\<lparr>db_imports := db_imports db @ [r]\<rparr>) =
     (case find_import j db of Some x \<Rightarrow> Some x | None \<Rightarrow> if im_id r = j then Some r else None)"
  by (simp add: find_import_def find_append)

lemma find_ready_append:
  "find_ready j (db\<lparr>db_ready := db_ready db @ [a]\<rparr>) =
     (case find_ready j db of Some x \<Rightarrow> Some x | None \<Rightarrow> if at_id (ar_ref a) = j then Some a else None)"
  by (simp add: find_ready_def find_append)

lemma find_other [simp]:
  "find_import j (db\<lparr>db_ready := x\<rparr>) = find_import j db" "find_ready j (db\<lparr>db_imports := y\<rparr>) = find_ready j db"
  by (simp_all add: find_import_def find_ready_def)

lemma find_map_if:
  assumes "\<And>r. im_id (f r) = im_id r"
  shows "find (\<lambda>r. im_id r = j) (map (\<lambda>r. if im_id r = i \<and> P r then f r else r) rs) =
    map_option (\<lambda>r. if im_id r = i \<and> P r then f r else r) (find (\<lambda>r. im_id r = j) rs)"
  by (induction rs) (auto simp: assms)

lemma update_import_effect:
  assumes "\<And>r. im_id (f r) = im_id r"
  shows "find_import j (snd (update_import i P f db)) =
      (if j = i then map_option (\<lambda>r. if P r then f r else r) (find_import i db) else find_import j db)"
    "find_ready j (snd (update_import i P f db)) = find_ready j db"
    "map im_id (db_imports (snd (update_import i P f db))) = map im_id (db_imports db)"
    "db_ready (snd (update_import i P f db)) = db_ready db"
proof -
  have all: "snd (update_import i P f db) = db\<lparr>db_imports := map (\<lambda>r. if im_id r = i \<and> P r then f r else r) (db_imports db)\<rparr>"
  proof (cases "list_ex (\<lambda>r. im_id r = i \<and> P r) (db_imports db)")
    case False
    then have "map (\<lambda>r. if im_id r = i \<and> P r then f r else r) (db_imports db) = db_imports db"
      by (intro map_idI) (auto simp: list_ex_iff)
    then show ?thesis using False by (simp add: update_import_def)
  qed (simp add: update_import_def)
  have "find_import j (snd (update_import i P f db)) =
      map_option (\<lambda>r. if im_id r = i \<and> P r then f r else r) (find_import j db)"
    unfolding all find_import_def by (simp add: find_map_if[OF assms])
  also have "\<dots> = (if j = i then map_option (\<lambda>r. if P r then f r else r) (find_import i db) else find_import j db)"
  proof (cases "find_import j db")
    case (Some r)
    then show ?thesis using find_import_id[OF Some] by auto
  qed auto
  finally show "find_import j (snd (update_import i P f db)) =
      (if j = i then map_option (\<lambda>r. if P r then f r else r) (find_import i db) else find_import j db)" .
  show "find_ready j (snd (update_import i P f db)) = find_ready j db" "db_ready (snd (update_import i P f db)) = db_ready db"
    by (simp_all add: all)
  show "map im_id (db_imports (snd (update_import i P f db))) = map im_id (db_imports db)"
    by (auto simp: all assms)
qed

section \<open>The invariant\<close>

text \<open>The file of an import: published exactly as announced, or not yet there.\<close>

definition file_state :: "(string \<Rightarrow> string) \<Rightarrow> import_row \<Rightarrow> entry option \<Rightarrow> bool" where
  "file_state sha r e = (case e of
     None \<Rightarrow> im_phase r = ImpPrepared
   | Some (RegularFile d) \<Rightarrow> int (length d) = im_size r \<and> sha d = im_sha r
   | Some _ \<Rightarrow> False)"

definition ready_matches :: "artifact_row \<Rightarrow> import_row \<Rightarrow> bool" where
  "ready_matches a r \<longleftrightarrow> attachment_ref_ok (ar_ref a) \<and> ar_key a = storage_key (at_id (ar_ref a)) \<and> ar_created a \<noteq> [] \<and>
     im_phase r = ImpCommitted \<and> im_size r = at_size (ar_ref a) \<and> im_sha r = at_sha (ar_ref a)"

definition art_ok :: "(string \<Rightarrow> string) \<Rightarrow> artifact_world \<Rightarrow> bool" where
  "art_ok sha w \<longleftrightarrow>
     (\<forall>i r. imp w i = Some r \<longrightarrow> import_ok r \<and> im_key r = storage_key i \<and> file_state sha r (final_of w i) \<and>
        (im_phase r = ImpCommitted \<longrightarrow> rdy w i \<noteq> None)) \<and>
     (\<forall>i a. rdy w i = Some a \<longrightarrow> (\<exists>r. imp w i = Some r \<and> ready_matches a r)) \<and>
     (\<forall>i. final_of w i \<noteq> None \<longrightarrow> imp w i \<noteq> None) \<and>
     distinct (map im_id (db_imports (aw_db w))) \<and> distinct (map (\<lambda>a. at_id (ar_ref a)) (db_ready (aw_db w)))"

text \<open>A reference fits when nothing in the store contradicts it.\<close>

definition fits :: "attachment_ref \<Rightarrow> artifact_world \<Rightarrow> bool" where
  "fits ref w \<longleftrightarrow> (\<forall>r. imp w (at_id ref) = Some r \<longrightarrow> im_size r = at_size ref \<and> im_sha r = at_sha ref) \<and>
     (\<forall>a. rdy w (at_id ref) = Some a \<longrightarrow> ar_ref a = ref) \<and>
     entry_at w (staging_name (at_id ref)) \<notin> {Some SymLink, Some SubDirectory}"

text \<open>The invariant with respect to the references \<open>R\<close> whose publication has been or will be tried.\<close>

definition art_inv :: "(string \<Rightarrow> string) \<Rightarrow> attachment_ref set \<Rightarrow> artifact_world \<Rightarrow> bool" where
  "art_inv sha R w \<longleftrightarrow> art_ok sha w \<and> (\<forall>ref \<in> R. fits ref w)"

definition one_ref_per_id :: "attachment_ref set \<Rightarrow> bool" where
  "one_ref_per_id R \<longleftrightarrow> (\<forall>r \<in> R. \<forall>s \<in> R. at_id r = at_id s \<longrightarrow> r = s)"

lemma entry_changes [simp]:
  "entry_at (put_entry n e w) m = (if m = n then Some e else entry_at w m)"
  "entry_at (remove_entry n w) m = (if m = n then None else entry_at w m)"
  "aw_db (put_entry n e w) = aw_db w" "aw_db (remove_entry n w) = aw_db w"
  by (auto simp: put_entry_def remove_entry_def entries_def update_conv' delete_conv' split: option.split)

lemma entry_db [simp]: "entry_at (w\<lparr>aw_db := db\<rparr>) n = entry_at w n"
  by (simp add: entries_def)

lemma art_ok_cong:
  assumes "aw_db w' = aw_db w" "\<And>i. final_of w' i = final_of w i"
  shows "art_ok sha w' = art_ok sha w"
  using assms by (simp add: art_ok_def)

text \<open>Changing a staging file changes nothing that matters.\<close>

lemma staging_inv:
  assumes "art_inv sha R w" "aw_db w' = aw_db w" "\<And>n. n \<noteq> staging_name i \<Longrightarrow> entry_at w' n = entry_at w n"
    and "entry_at w' (staging_name i) \<notin> {Some SymLink, Some SubDirectory} \<or>
      entry_at w' (staging_name i) = entry_at w (staging_name i)"
  shows "art_inv sha R w'"
proof -
  have "art_ok sha w'" using assms(1) art_ok_cong[OF assms(2)] assms(3) by (simp add: art_inv_def)
  moreover have "fits ref w'" if "ref \<in> R" for ref
  proof -
    have f: "fits ref w" using assms(1) that by (simp add: art_inv_def)
    have "entry_at w' (staging_name (at_id ref)) \<notin> {Some SymLink, Some SubDirectory}"
      using f assms(3)[of "staging_name (at_id ref)"] assms(4) by (cases "at_id ref = i") (auto simp: fits_def)
    then show ?thesis using f assms(2) by (simp add: fits_def)
  qed
  ultimately show ?thesis by (simp add: art_inv_def)
qed

lemma art_okD:
  assumes "art_ok sha w"
  shows "imp w i = Some r \<Longrightarrow> import_ok r \<and> im_key r = storage_key i \<and> file_state sha r (final_of w i)"
    "imp w i = Some r \<Longrightarrow> im_phase r = ImpCommitted \<Longrightarrow> rdy w i \<noteq> None"
    "rdy w i = Some a \<Longrightarrow> \<exists>r. imp w i = Some r \<and> ready_matches a r"
    "final_of w i \<noteq> None \<Longrightarrow> imp w i \<noteq> None"
    "distinct (map im_id (db_imports (aw_db w)))" "distinct (map (\<lambda>a. at_id (ar_ref a)) (db_ready (aw_db w)))"
  using assms unfolding art_ok_def by blast+

section \<open>What each effect keeps\<close>

lemma update_inv:
  assumes "art_inv sha R w"
    and f: "\<And>r. im_id (f r) = im_id r" "\<And>r. im_key (f r) = im_key r" "\<And>r. im_size (f r) = im_size r" "\<And>r. im_sha (f r) = im_sha r"
    and ok: "\<And>r. import_ok r \<Longrightarrow> import_ok (f r)"
    and P: "\<And>r. P r \<Longrightarrow> im_phase r \<noteq> ImpCommitted \<and> im_phase (f r) \<noteq> ImpCommitted"
    and ph: "\<And>r. P r \<Longrightarrow> im_phase (f r) = im_phase r \<or> final_of w i \<noteq> None"
  shows "art_inv sha R (w\<lparr>aw_db := snd (update_import i P f (aw_db w))\<rparr>)" (is "art_inv sha R ?w")
proof -
  have w: "art_ok sha w" using assms(1) by (simp add: art_inv_def)
  have imps: "imp ?w j = (if j = i then map_option (\<lambda>r. if P r then f r else r) (imp w i) else imp w j)" for j
    by (simp add: update_import_effect(1)[OF f(1)])
  have rdys: "rdy ?w j = rdy w j" for j by (simp add: update_import_effect(2)[OF f(1)])
  have "art_ok sha ?w" unfolding art_ok_def
  proof (intro conjI allI impI)
    fix j r assume r: "imp ?w j = Some r"
    obtain s where s: "imp w j = Some s" "r = (if j = i \<and> P s then f s else s)"
      using r unfolding imps by (cases "j = i") auto
    note o = art_okD(1)[OF w s(1)]
    show "import_ok r" "im_key r = storage_key j" using o s(2) ok f(2) by simp_all
    have st: "file_state sha s (final_of w j)" using o by simp
    show "file_state sha r (final_of ?w j)"
    proof (cases "j = i \<and> P s")
      case True
      then show ?thesis using st ph[of s] s(2) f(3,4) unfolding file_state_def by (auto split: option.splits entry.splits)
    qed (use st s(2) in auto)
    assume c: "im_phase r = ImpCommitted"
    have "\<not> (j = i \<and> P s)" using P[of s] s(2) c by auto
    then have "r = s" using s(2) by auto
    then show "rdy ?w j \<noteq> None" using art_okD(2)[OF w s(1)] c rdys by simp
  next
    fix j a assume "rdy ?w j = Some a"
    then have "rdy w j = Some a" unfolding rdys .
    then obtain r where r: "imp w j = Some r" "ready_matches a r" using art_okD(3)[OF w] by blast
    then have "\<not> P r" using P[of r] by (auto simp: ready_matches_def)
    then show "\<exists>r. imp ?w j = Some r \<and> ready_matches a r" using r unfolding imps
      by (intro exI[of _ r]) (cases "j = i"; simp)
  next
    fix j assume "final_of ?w j \<noteq> None"
    then show "imp ?w j \<noteq> None" using art_okD(4)[OF w, of j] unfolding imps by auto
  qed (use art_okD(5,6)[OF w] in \<open>simp_all add: update_import_effect[OF f(1)]\<close>)
  moreover have "fits ref ?w" if "fits ref w" for ref
    using that f(3,4) unfolding fits_def imps rdys by (auto split: if_split_asm)
  ultimately show ?thesis using assms(1) by (simp add: art_inv_def)
qed

lemma update_result_db: "snd (on_db (update_import i P f) w) = w\<lparr>aw_db := snd (update_import i P f (aw_db w))\<rparr>"
  by (simp add: on_db_def split: prod.split)

lemma mark_inv:
  assumes "art_inv sha R w" "final_of w i \<noteq> None"
  shows "art_inv sha R (snd (on_db (mark_file_published i t) w))"
proof (cases "t = []")
  case False
  have "snd (on_db (mark_file_published i t) w) = snd (on_db (update_import i (\<lambda>r. im_phase r = ImpPrepared)
      (\<lambda>r. r\<lparr>im_phase := ImpPublished, im_updated := t, im_error := None\<rparr>)) w)"
    using False by (simp add: mark_file_published_def on_db_def)
  then show ?thesis unfolding update_result_db
    using False assms(2) by (simp, intro update_inv[OF assms(1)]) (auto simp: import_ok_def)
qed (use assms(1) in \<open>simp add: mark_file_published_def on_db_def\<close>)

lemma record_inv:
  assumes "art_inv sha R w"
  shows "art_inv sha R (snd (on_db (record_import_error i e t) w))"
proof (cases "e = [] \<or> t = []")
  case False
  have "snd (on_db (record_import_error i e t) w) = snd (on_db (update_import i (\<lambda>r. im_phase r \<noteq> ImpCommitted)
      (\<lambda>r. r\<lparr>im_updated := t, im_error := Some e\<rparr>)) w)"
    using False by (simp add: record_import_error_def on_db_def)
  then show ?thesis unfolding update_result_db
    using False by (simp, intro update_inv[OF assms]) (auto simp: import_ok_def)
qed (use assms in \<open>auto simp: record_import_error_def on_db_def\<close>)

text \<open>A new import.\<close>

lemma begin_cases:
  assumes "begin_import i key n s created db = (x, db')"
  shows "db' = db \<and> ((\<exists>e. x = Inl e) \<or> (\<exists>r. x = Inr r \<and> find_import i db = Some r \<and> same_import key n s r)) \<or>
    (\<exists>r. x = Inr r \<and> find_import i db = None \<and> import_ok r \<and> im_id r = i \<and> same_import key n s r \<and> im_phase r = ImpPrepared \<and>
       db' = db\<lparr>db_imports := db_imports db @ [r]\<rparr>)"
proof -
  let ?r = "\<lparr>im_id = i, im_key = key, im_size = n, im_sha = s, im_phase = ImpPrepared, im_created = created,
    im_updated = created, im_error = None\<rparr>"
  show ?thesis
  proof (cases "import_ok ?r")
    case True
    show ?thesis
    proof (cases "find_import i db")
      case None
      show ?thesis
      proof (cases "list_ex (\<lambda>r. im_key r = key) (db_imports db)")
        case False
        then have "x = Inr ?r" "db' = db\<lparr>db_imports := db_imports db @ [?r]\<rparr>"
          using assms True None by (simp_all add: begin_import_def Let_def)
        then show ?thesis using True None by (intro disjI2 exI[of _ ?r]) (simp add: same_import_def)
      qed (use assms True None in \<open>auto simp: begin_import_def Let_def\<close>)
    next
      case (Some r)
      then show ?thesis using assms True
        by (cases "same_import key n s r"; cases "import_ok r") (auto simp: begin_import_def Let_def read_import_def)
    qed
  qed (use assms in \<open>auto simp: begin_import_def Let_def\<close>)
qed

lemma begin_inv:
  assumes "art_inv sha R w" "begin_import i (storage_key i) n s created (aw_db w) = (x, db')"
    and "\<And>ref. ref \<in> R \<Longrightarrow> at_id ref = i \<Longrightarrow> at_size ref = n \<and> at_sha ref = s"
  shows "art_inv sha R (w\<lparr>aw_db := db'\<rparr>)"
proof -
  have w: "art_ok sha w" using assms(1) by (simp add: art_inv_def)
  consider "db' = aw_db w" | r where "imp w i = None" "import_ok r" "im_id r = i" "same_import (storage_key i) n s r"
      "im_phase r = ImpPrepared" "db' = (aw_db w)\<lparr>db_imports := db_imports (aw_db w) @ [r]\<rparr>"
    using begin_cases[OF assms(2)] by blast
  then show ?thesis
  proof cases
    case (2 r)
    let ?w = "w\<lparr>aw_db := db'\<rparr>"
    have imps: "imp ?w j = (if j = i then Some r else imp w j)" for j
      using 2 by (auto simp: find_import_append split: option.split)
    have rdys: "rdy ?w j = rdy w j" for j using 2 by simp
    have absent: "final_of w i = None" "rdy w i = None"
      using art_okD(4)[OF w, of i] art_okD(3)[OF w, of i] 2(1) by (cases "final_of w i"; cases "rdy w i"; fastforce)+
    have fresh: "i \<notin> im_id ` set (db_imports (aw_db w))"
      using 2(1) by (auto simp: find_import_def find_None_iff)
    have "art_ok sha ?w" unfolding art_ok_def
    proof (intro conjI allI impI)
      fix j q assume q: "imp ?w j = Some q"
      show "import_ok q" "im_key q = storage_key j" "file_state sha q (final_of ?w j)"
        using q art_okD(1)[OF w, of j q] 2 absent unfolding imps
        by (auto split: if_split_asm simp: same_import_def file_state_def)
      show "rdy ?w j \<noteq> None" if "im_phase q = ImpCommitted"
        using q that art_okD(2)[OF w, of j q] 2(5) unfolding imps rdys by (auto split: if_split_asm)
    next
      fix j a assume "rdy ?w j = Some a"
      then show "\<exists>q. imp ?w j = Some q \<and> ready_matches a q"
        using art_okD(3)[OF w, of j a] absent unfolding imps rdys by auto
    next
      fix j assume "final_of ?w j \<noteq> None"
      then show "imp ?w j \<noteq> None" using art_okD(4)[OF w, of j] unfolding imps by auto
    next
      show "distinct (map im_id (db_imports (aw_db ?w)))" using art_okD(5)[OF w] fresh 2 by simp
      show "distinct (map (\<lambda>a. at_id (ar_ref a)) (db_ready (aw_db ?w)))" using art_okD(6)[OF w] 2 by simp
    qed
    moreover have "fits ref ?w" if "ref \<in> R" for ref
      using assms(1,3) that 2(4) unfolding art_inv_def fits_def imps rdys
      by (cases "at_id ref = i") (auto simp: same_import_def)
    ultimately show ?thesis by (simp add: art_inv_def)
  qed (use assms(1) in simp)
qed


text \<open>Registering: the reference becomes the ready row of its identity.\<close>

lemma commit_cases:
  assumes "commit_ready ref key created db = (x, db')"
  shows "db' = db \<and> (\<exists>e. x = Inl e) \<or>
    (\<exists>r. x = Inr () \<and> find_import (at_id ref) db = Some r \<and> im_phase r = ImpPublished \<and>
       same_import key (at_size ref) (at_sha ref) r \<and>
       \<not> ready_conflict \<lparr>ar_ref = ref, ar_key = key, ar_created = created\<rparr> db \<and>
       db' = snd (update_import (at_id ref) (\<lambda>r. im_phase r = ImpPublished)
         (\<lambda>r. r\<lparr>im_phase := ImpCommitted, im_updated := created, im_error := None\<rparr>)
         (db\<lparr>db_ready := db_ready db @ [\<lparr>ar_ref = ref, ar_key = key, ar_created = created\<rparr>]\<rparr>)))"
proof (cases "find_import (at_id ref) db")
  case (Some r)
  show ?thesis
  proof (cases "im_phase r = ImpPublished \<and> same_import key (at_size ref) (at_sha ref) r \<and>
      \<not> ready_conflict \<lparr>ar_ref = ref, ar_key = key, ar_created = created\<rparr> db")
    case True
    then show ?thesis using assms Some by (intro disjI2 exI[of _ r]) (simp add: commit_ready_def Let_def)
  next
    case False
    then have "db' = db \<and> (\<exists>e. x = Inl e)" using assms Some
      by (cases "im_phase r = ImpPublished"; cases "same_import key (at_size ref) (at_sha ref) r")
        (simp_all add: commit_ready_def Let_def, blast+)
    then show ?thesis by blast
  qed
qed (use assms in \<open>auto simp: commit_ready_def\<close>)

lemma commit_inv:
  assumes "art_inv sha R w" "commit_ready ref (storage_key (at_id ref)) created (aw_db w) = (x, db')"
    and "attachment_ref_ok ref" "created \<noteq> []" "\<And>s. s \<in> R \<Longrightarrow> at_id s = at_id ref \<Longrightarrow> s = ref"
  shows "art_inv sha R (w\<lparr>aw_db := db'\<rparr>)"
proof -
  have w: "art_ok sha w" using assms(1) by (simp add: art_inv_def)
  let ?i = "at_id ref" and ?row = "\<lparr>ar_ref = ref, ar_key = storage_key (at_id ref), ar_created = created\<rparr>"
  let ?f = "\<lambda>r. r\<lparr>im_phase := ImpCommitted, im_updated := created, im_error := None\<rparr>"
  let ?db = "(aw_db w)\<lparr>db_ready := db_ready (aw_db w) @ [?row]\<rparr>"
  consider "db' = aw_db w" | r where "imp w ?i = Some r" "im_phase r = ImpPublished"
      "same_import (storage_key ?i) (at_size ref) (at_sha ref) r" "\<not> ready_conflict ?row (aw_db w)"
      "db' = snd (update_import ?i (\<lambda>r. im_phase r = ImpPublished) ?f ?db)"
    using commit_cases[OF assms(2)] by blast
  then show ?thesis
  proof cases
    case (2 r)
    let ?w = "w\<lparr>aw_db := db'\<rparr>"
    have absent: "rdy w ?i = None"
      using art_okD(3)[OF w, of ?i] 2(1,2) by (cases "rdy w ?i") (auto simp: ready_matches_def)
    have imps: "imp ?w j = (if j = ?i then Some (?f r) else imp w j)" for j
      using 2(1,2) unfolding 2(5) by (simp add: update_import_effect(1))
    have rdys: "rdy ?w j = (if j = ?i then Some ?row else rdy w j)" for j
      using absent unfolding 2(5) by (auto simp: update_import_effect(2) find_ready_append split: option.split)
    note o = art_okD(1)[OF w 2(1)]
    have published: "file_state sha (?f r) (final_of w ?i)"
      using o 2(2) by (auto simp: file_state_def split: option.splits entry.splits)
    have "art_ok sha ?w" unfolding art_ok_def
    proof (intro conjI allI impI)
      fix j q assume q: "imp ?w j = Some q"
      show "import_ok q" "im_key q = storage_key j" "file_state sha q (final_of ?w j)"
        using q art_okD(1)[OF w, of j q] o published assms(4) unfolding imps
        by (auto split: if_split_asm simp: import_ok_def)
      show "rdy ?w j \<noteq> None" if "im_phase q = ImpCommitted"
        using q that art_okD(2)[OF w, of j q] unfolding imps rdys by (auto split: if_split_asm)
    next
      fix j a assume a: "rdy ?w j = Some a"
      show "\<exists>q. imp ?w j = Some q \<and> ready_matches a q"
      proof (cases "j = ?i")
        case True
        then show ?thesis using a 2(3) assms(3,4) unfolding imps rdys by (auto simp: ready_matches_def same_import_def)
      next
        case False
        then show ?thesis using a art_okD(3)[OF w, of j a] unfolding imps rdys by simp
      qed
    next
      fix j assume "final_of ?w j \<noteq> None"
      then show "imp ?w j \<noteq> None" using art_okD(4)[OF w, of j] unfolding imps by auto
    next
      show "distinct (map im_id (db_imports (aw_db ?w)))" using art_okD(5)[OF w] 2(5) by (simp add: update_import_effect(3))
      have "?i \<notin> (\<lambda>a. at_id (ar_ref a)) ` set (db_ready (aw_db w))"
        using absent by (auto simp: find_ready_def find_None_iff)
      then show "distinct (map (\<lambda>a. at_id (ar_ref a)) (db_ready (aw_db ?w)))"
        using art_okD(6)[OF w] 2(5) by (simp add: update_import_effect(4))
    qed
    moreover have "fits s ?w" if s: "s \<in> R" for s
    proof -
      have f: "fits s w" using assms(1) s by (simp add: art_inv_def)
      show ?thesis
      proof (cases "at_id s = ?i")
        case True
        then have "s = ref" by (rule assms(5)[OF s])
        then show ?thesis using f 2(3) unfolding fits_def imps rdys by (simp add: same_import_def)
      next
        case False
        then show ?thesis using f unfolding fits_def imps rdys by simp
      qed
    qed
    ultimately show ?thesis by (simp add: art_inv_def)
  qed (use assms(1) in simp)
qed

lemma register_inv:
  assumes "art_inv sha R w" "attachment_ref_ok ref" "\<And>s. s \<in> R \<Longrightarrow> at_id s = at_id ref \<Longrightarrow> s = ref"
  shows "art_inv sha R (snd (on_db (register_ready ref (storage_key (at_id ref)) created) w))"
proof (cases "created = [] \<or> \<not> key_ok (at_id ref) (storage_key (at_id ref))")
  case False
  obtain x db' where c: "commit_ready ref (storage_key (at_id ref)) created (aw_db w) = (x, db')" by fastforce
  have "snd (on_db (register_ready ref (storage_key (at_id ref)) created) w) = w\<lparr>aw_db := db'\<rparr>"
    using False c by (cases x) (simp_all add: on_db_def register_ready_def)
  then show ?thesis using commit_inv[OF assms(1) c assms(2) _ assms(3)] False by simp
qed (use assms(1) in \<open>auto simp: on_db_def register_ready_def\<close>)

text \<open>The link gives the final name to the content of an import that has begun.\<close>

lemma link_inv:
  assumes "art_inv sha R w" "imp w i = Some r" "entry_at w (staging_name i) = Some (RegularFile d)"
    and "int (length d) = im_size r" "sha d = im_sha r"
  shows "art_inv sha R (snd (link_final i w))"
proof (cases "final_of w i")
  case None
  have l: "snd (link_final i w) = put_entry (final_name i) (RegularFile d) w" (is "_ = ?w")
    using assms(3) None by (simp add: link_final_def)
  have w: "art_ok sha w" using assms(1) by (simp add: art_inv_def)
  have prepared: "im_phase r = ImpPrepared" using art_okD(1)[OF w assms(2)] None by (simp add: file_state_def)
  have "art_ok sha ?w" unfolding art_ok_def
  proof (intro conjI allI impI)
    fix j q assume q: "imp ?w j = Some q"
    then show "import_ok q" "im_key q = storage_key j" using art_okD(1)[OF w, of j q] by simp_all
    show "file_state sha q (final_of ?w j)"
      using q art_okD(1)[OF w, of j q] assms(2,4,5) by (auto simp: file_state_def)
    show "rdy ?w j \<noteq> None" if "im_phase q = ImpCommitted" using q that art_okD(2)[OF w, of j q] by simp
  next
    fix j a assume "rdy ?w j = Some a"
    then show "\<exists>q. imp ?w j = Some q \<and> ready_matches a q" using art_okD(3)[OF w, of j a] by simp
  next
    fix j assume "final_of ?w j \<noteq> None"
    then show "imp ?w j \<noteq> None" using art_okD(4)[OF w, of j] assms(2) by (cases "j = i") simp_all
  qed (use art_okD(5,6)[OF w] in simp_all)
  moreover have "fits s ?w" if "s \<in> R" for s
    using assms(1) that unfolding art_inv_def fits_def by simp
  ultimately show ?thesis by (simp add: l art_inv_def)
next
  case (Some e)
  then show ?thesis using assms(1,3) by (simp add: link_final_def)
qed


section \<open>A publication keeps the invariant\<close>

definition keeps :: "(artifact_world \<Rightarrow> bool) \<Rightarrow> 'a action \<Rightarrow> bool" where
  "keeps P m \<longleftrightarrow> (\<forall>w. P w \<longrightarrow> P (snd (m w)))"

lemma keepsI: "(\<And>w. P w \<Longrightarrow> P (snd (m w))) \<Longrightarrow> keeps P m"
  by (simp add: keeps_def)

lemma keepsD: "keeps P m \<Longrightarrow> P w \<Longrightarrow> P (snd (m w))"
  by (simp add: keeps_def)

lemma keeps_bind: "keeps P m \<Longrightarrow> (\<And>x. keeps P (k x)) \<Longrightarrow> keeps P (bind_action m k)"
proof (rule keepsI)
  fix w assume m: "keeps P m" and k: "\<And>x. keeps P (k x)" and "P w"
  obtain x w' where mw: "m w = (x, w')" by fastforce
  have "P w'" using keepsD[OF m \<open>P w\<close>] mw by simp
  then show "P (snd (bind_action m k w))" using keepsD[OF k] mw by (cases x) (simp_all add: bind_action_def)
qed

lemma keeps_effect: "(\<And>w. P w \<Longrightarrow> P (snd (act w))) \<Longrightarrow> keeps P (effect f act)"
proof (rule keepsI)
  fix w assume act: "\<And>w. P w \<Longrightarrow> P (snd (act w))" and "P w"
  obtain x w' where a: "act w = (x, w')" by fastforce
  then show "P (snd (effect f act w))" using act[OF \<open>P w\<close>] \<open>P w\<close>
    by (cases f; cases x) (simp_all add: effect_def)
qed

lemma keeps_return: "keeps P (\<lambda>w. (x, w))" by (simp add: keeps_def)

lemma look_same [simp]: "snd (look f w) = w" by (simp add: look_def)

text \<open>The references of \<open>R\<close> are the ones that are tried, one for an identity.\<close>

definition tried :: "attachment_ref set \<Rightarrow> attachment_ref \<Rightarrow> bool" where
  "tried R ref \<longleftrightarrow> ref \<in> R \<and> one_ref_per_id R \<and> (\<forall>s \<in> R. attachment_ref_ok s)"

lemma triedD:
  assumes "tried R ref"
  shows "ref \<in> R" "attachment_ref_ok ref" "s \<in> R \<Longrightarrow> at_id s = at_id ref \<Longrightarrow> s = ref"
  using assms by (auto simp: tried_def one_ref_per_id_def)

lemma drop_staging_inv: "art_inv sha R w \<Longrightarrow> art_inv sha R (remove_entry (staging_name i) w)"
  by (rule staging_inv[of sha R w _ i]) simp_all

lemma put_staging_inv: "art_inv sha R w \<Longrightarrow> art_inv sha R (put_entry (staging_name i) (RegularFile d) w)"
  by (rule staging_inv[of sha R w _ i]) simp_all

lemma register_keeps:
  assumes "tried R ref"
  shows "keeps (art_inv sha R) (register_action env ref)"
  unfolding register_action_def
  by (intro keeps_bind keeps_effect keeps_return register_inv triedD[OF assms])

lemma register_final [simp]: "entry_at (snd (on_db f w)) n = entry_at w n"
  by (simp add: on_db_def split: prod.split)

definition with_final :: "(string \<Rightarrow> string) \<Rightarrow> attachment_ref set \<Rightarrow> string \<Rightarrow> artifact_world \<Rightarrow> bool" where
  "with_final sha R i w \<longleftrightarrow> art_inv sha R w \<and> final_of w i \<noteq> None"

lemma mark_register_keeps:
  assumes "tried R ref"
  shows "keeps (with_final sha R (at_id ref)) (mark_action env ref)"
    "keeps (with_final sha R (at_id ref)) (register_action env ref)"
  unfolding mark_action_def register_action_def
  by (intro keeps_bind keeps_effect keeps_return; use mark_inv register_inv triedD[OF assms] in \<open>auto simp: with_final_def\<close>)+

lemma handle_inv:
  assumes "art_inv sha R (snd result)"
  shows "art_inv sha R (snd (handle env i started published result))"
proof (cases "fst result")
  case (Raised e)
  have 1: "keeps (art_inv sha R) (if started then record_failure env i else (\<lambda>w. (Returned (), w)))"
  proof (cases started)
    case True
    show ?thesis unfolding if_P[OF True]
      by (rule keepsI) (simp add: record_failure_def record_inv split: fault.split)
  qed (simp add: keeps_return)
  have 2: "keeps (art_inv sha R) (if published then (\<lambda>w. (Returned (), w)) else drop_staging env i)"
  proof (cases published)
    case False
    show ?thesis unfolding if_not_P[OF False]
      by (rule keepsI) (simp add: drop_staging_def drop_staging_inv split: fault.split)
  qed (simp add: keeps_return)
  have k: "keeps (art_inv sha R) (bind_action (if started then record_failure env i else (\<lambda>w. (Returned (), w)))
       (\<lambda>_. bind_action (if published then (\<lambda>w. (Returned (), w)) else drop_staging env i) (\<lambda>_ w'. (Raised e, w'))))"
    by (intro keeps_bind 1 2 keeps_return)
  have r: "result = (Raised e, snd result)" using Raised by (cases result) simp
  have "handle env i started published result = bind_action (if started then record_failure env i else (\<lambda>w. (Returned (), w)))
       (\<lambda>_. bind_action (if published then (\<lambda>w. (Returned (), w)) else drop_staging env i) (\<lambda>_ w'. (Raised e, w'))) (snd result)"
    by (subst r) (simp only: handle_def prod.case ending.case)
  then show ?thesis using keepsD[OF k assms] by (simp only:)
qed (use assms in \<open>cases result; simp add: handle_def\<close>)+

text \<open>Staging: when it returns the content is there, complete.\<close>

lemma stage_keeps: "keeps (art_inv sha R) (stage_action env i content)"
proof -
  have 1: "keeps (art_inv sha R) (effect (pe_fault env 3) (clear_staging i))"
    by (rule keeps_effect) (simp add: clear_staging_def drop_staging_inv split: option.split entry.split)
  have 2: "keeps (art_inv sha R) (effect (pe_fault env 4) (\<lambda>w. (Inr (), put_entry (staging_name i) (RegularFile []) w)))"
    by (rule keeps_effect) (simp add: put_staging_inv)
  have 3: "keeps (art_inv sha R) (write_staging env i content)"
    by (rule keepsI) (simp add: write_staging_def put_staging_inv split: fault.split option.split)
  have 4: "keeps (art_inv sha R) (effect (pe_fault env 6) (\<lambda>w. (Inr (), w)))"
    by (rule keeps_effect) simp
  show ?thesis unfolding stage_action_def by (intro keeps_bind 1 2 3 4)
qed

lemma bind_Returned:
  "bind_action m k w = (Returned y, w'') \<longleftrightarrow> (\<exists>x w'. m w = (Returned x, w') \<and> k x w' = (Returned y, w''))"
  by (auto simp: bind_action_def split: prod.split ending.split)

lemma effect_Returned: "effect f act w = (Returned x, w') \<longleftrightarrow> f = NoFault \<and> act w = (Inr x, w')"
  by (auto simp: effect_def split: fault.split sum.split prod.split)

lemma stage_complete:
  assumes "stage_action env i content w = (Returned (), w')"
  shows "entry_at w' (staging_name i) = Some (RegularFile (fst content))" "snd content = None"
    "aw_db w' = aw_db w" "final_of w' j = final_of w j"
  using assms unfolding stage_action_def bind_Returned effect_Returned
  by (cases "pe_fault env 5"; cases "snd content";
      auto simp: write_staging_def clear_staging_def split: option.split_asm entry.split_asm)+

definition good_content :: "(string \<Rightarrow> string) \<Rightarrow> attachment_ref \<Rightarrow> content \<Rightarrow> bool" where
  "good_content sha ref content \<longleftrightarrow> (snd content = None \<longrightarrow> exact_bytes sha ref (fst content))"

lemma after_link_keeps:
  assumes "tried R ref"
  shows "keeps (with_final sha R (at_id ref)) (after_link env ref)"
proof -
  have 1: "keeps (with_final sha R (at_id ref)) (effect (pe_fault env 8) (\<lambda>w. (Inr (), remove_entry (staging_name (at_id ref)) w)))"
    by (rule keeps_effect) (simp add: with_final_def drop_staging_inv)
  have 2: "keeps (with_final sha R (at_id ref)) (effect (pe_fault env 9) (\<lambda>w. (Inr (), w)))"
    by (rule keeps_effect) simp
  show ?thesis unfolding after_link_def by (intro keeps_bind 1 2 mark_register_keeps[OF assms])
qed


lemma fresh_keeps:
  assumes "tried R ref" "good_content sha ref content" "art_inv sha R w" "imp w (at_id ref) \<noteq> None"
  shows "art_inv sha R (snd (fresh_publication env ref content w))"
proof -
  let ?i = "at_id ref"
  obtain x w1 where s: "stage_action env ?i content w = (x, w1)" by fastforce
  have w1: "art_inv sha R w1" using keepsD[OF stage_keeps assms(3)] s by (metis snd_conv)
  show ?thesis
  proof (cases x)
    case (Returned u)
    then have s': "stage_action env ?i content w = (Returned (), w1)" using s by simp
    note c = stage_complete[OF s']
    obtain y w2 where l: "effect (pe_fault env 7) (link_final ?i) w1 = (y, w2)" by fastforce
    obtain r where r: "imp w1 ?i = Some r" using assms(4) c(3) by auto
    have same: "im_size r = at_size ref" "im_sha r = at_sha ref"
      using w1 triedD(1)[OF assms(1)] r by (auto simp: art_inv_def fits_def)
    have "art_inv sha R (snd (link_final ?i w1))"
      by (rule link_inv[OF w1 r c(1)]) (use assms(2) c(2) same in \<open>auto simp: good_content_def exact_bytes_def\<close>)
    then have w2: "art_inv sha R w2" using l w1
      by (cases "pe_fault env 7"; cases "link_final ?i w1"; cases "fst (link_final ?i w1)") (auto simp: effect_def)
    show ?thesis
    proof (cases y)
      case r2: (Returned u)
      have "link_final ?i w1 = (Inr (), w2)" using l r2 by (simp add: effect_Returned)
      then have "final_of w2 ?i \<noteq> None" using c(1) by (auto simp: link_final_def split: option.split_asm)
      then have "with_final sha R ?i (snd (after_link env ref w2))"
        using keepsD[OF after_link_keeps[OF assms(1)], of sha w2 env] w2 by (simp add: with_final_def)
      then have "art_inv sha R (snd (after_link env ref w2))" by (simp add: with_final_def)
      then show ?thesis using s' l r2 handle_inv[of sha R "after_link env ref w2" env ?i True True]
        by (simp add: fresh_publication_def bind_action_def)
    next
      case (Raised e)
      then show ?thesis using s' l w2 handle_inv[of sha R "(Raised e, w2)" env ?i True False]
        by (simp add: fresh_publication_def bind_action_def)
    qed (use s' l w2 in \<open>simp add: fresh_publication_def bind_action_def\<close>)
  next
    case (Raised e)
    then show ?thesis using s w1 handle_inv[of sha R "(Raised e, w1)" env ?i True False]
      by (simp add: fresh_publication_def bind_action_def)
  qed (use s w1 in \<open>simp add: fresh_publication_def bind_action_def\<close>)
qed

lemma body_keeps:
  assumes "tried R ref" "good_content sha ref content" "art_inv sha R w" "imp w (at_id ref) \<noteq> None"
  shows "art_inv sha R (snd (publish_body sha env ref content intent w))"
proof -
  let ?i = "at_id ref"
  have look: "keeps (art_inv sha R) (effect f (look g))" "keeps (with_final sha R ?i) (effect f (look g))" for f g
    by (rule keeps_effect; simp)+
  have 1: "art_inv sha R (snd (effect (pe_fault env 2) (look (require_existing_ready sha ref)) w))"
    by (rule keepsD[OF look(1) assms(3)])
  have 2: "art_inv sha R (snd (bind_action (effect (pe_fault env 2) (look (\<lambda>w. verify_file sha ref (final_of w ?i))))
      (\<lambda>_. register_action env ref) w))"
    by (rule keepsD[OF keeps_bind[OF look(1) register_keeps[OF assms(1)]] assms(3)])
  have 3: "art_inv sha R (snd (bind_action (effect (pe_fault env 2) (look (\<lambda>w. verify_file sha ref (final_of w ?i))))
      (\<lambda>_. bind_action (mark_action env ref) (\<lambda>_. register_action env ref)) w))" if "final_of w ?i \<noteq> None"
  proof -
    have "with_final sha R ?i w" using assms(3) that by (simp add: with_final_def)
    then have "with_final sha R ?i (snd (bind_action (effect (pe_fault env 2) (look (\<lambda>w. verify_file sha ref (final_of w ?i))))
      (\<lambda>_. bind_action (mark_action env ref) (\<lambda>_. register_action env ref)) w))"
      by (rule keepsD[OF keeps_bind[OF look(2) keeps_bind[OF mark_register_keeps(1,2)[OF assms(1)]]], rotated])
    then show ?thesis by (simp add: with_final_def)
  qed
  show ?thesis
    using handle_inv[OF 1, of env ?i True False] handle_inv[OF 2, of env ?i True False] handle_inv[OF 3, of env ?i True False]
      fresh_keeps[OF assms]
    by (simp add: publish_body_def Let_def split: import_phase.split)
qed

lemma publish_keeps:
  assumes "tried R ref" "good_content sha ref content" "art_inv sha R w"
  shows "art_inv sha R (snd (publish_content sha env ref content w))"
proof -
  let ?i = "at_id ref"
  obtain x w1 where r: "effect (pe_fault env 0) (resolve_root True) w = (x, w1)" by fastforce
  have "snd (resolve_root True w) = w \<or> snd (resolve_root True w) = w\<lparr>aw_dir := Some []\<rparr> \<and> aw_dir w = None"
    by (auto simp: resolve_root_def split: option.split)
  moreover have "art_inv sha R (w\<lparr>aw_dir := Some []\<rparr>)" if "aw_dir w = None"
    by (rule staging_inv[OF assms(3)]) (simp_all add: entries_def that)
  ultimately have root: "art_inv sha R (snd (resolve_root True w))" using assms(3) by auto
  then have w1: "art_inv sha R w1" using r assms(3)
    by (cases "pe_fault env 0"; cases "resolve_root True w"; cases "fst (resolve_root True w)") (auto simp: effect_def)
  show ?thesis
  proof (cases x)
    case (Returned u)
    let ?started = "begin_import ?i (storage_key ?i) (at_size ref) (at_sha ref) (pe_clock env 0)"
    obtain y db where b: "?started (aw_db w1) = (y, db)" by fastforce
    have refs: "s \<in> R \<Longrightarrow> at_id s = ?i \<Longrightarrow> at_size s = at_size ref \<and> at_sha s = at_sha ref" for s
      using triedD(3)[OF assms(1)] by auto
    have w2: "art_inv sha R (w1\<lparr>aw_db := db\<rparr>)" by (rule begin_inv[OF w1 b refs])
    show ?thesis
    proof (cases "pe_fault env 1")
      case NoFault
      show ?thesis
      proof (cases y)
        case (Inl e)
        then show ?thesis using r Returned NoFault b w2 handle_inv[of sha R "(Raised e, w1\<lparr>aw_db := db\<rparr>)" env ?i False False]
          by (simp add: publish_content_def effect_def on_db_def)
      next
        case (Inr intent)
        have "imp (w1\<lparr>aw_db := db\<rparr>) ?i \<noteq> None" using begin_cases[OF b] Inr by (auto simp: find_import_append)
        then show ?thesis using r Returned NoFault b Inr body_keeps[OF assms(1,2) w2]
          by (simp add: publish_content_def effect_def on_db_def)
      qed
    next
      case (Raises e)
      then show ?thesis using r Returned w1 handle_inv[of sha R "(Raised e, w1)" env ?i False False]
        by (simp add: publish_content_def effect_def)
    qed (use r Returned w1 in \<open>simp add: publish_content_def effect_def\<close>)
  qed (use r w1 in \<open>simp_all add: publish_content_def\<close>)
qed


section \<open>What every effect of a publication keeps, a publication keeps\<close>

text \<open>The changes that a publication of the identity \<open>i\<close> is made of.\<close>

locale publication_frame =
  fixes ref :: attachment_ref and P :: "artifact_world \<Rightarrow> bool"
  assumes new_dir: "P w \<Longrightarrow> aw_dir w = None \<Longrightarrow> P (w\<lparr>aw_dir := Some []\<rparr>)"
    and put_staging: "P w \<Longrightarrow> P (put_entry (staging_name (at_id ref)) e w)"
    and put_final: "P w \<Longrightarrow> final_of w (at_id ref) = None \<Longrightarrow> P (put_entry (final_name (at_id ref)) e w)"
    and remove_staging: "P w \<Longrightarrow> P (remove_entry (staging_name (at_id ref)) w)"
    and begins: "P w \<Longrightarrow> P (snd (on_db (begin_import (at_id ref) (storage_key (at_id ref)) (at_size ref) (at_sha ref) t) w))"
    and marks: "P w \<Longrightarrow> P (snd (on_db (mark_file_published (at_id ref) t) w))"
    and records: "P w \<Longrightarrow> P (snd (on_db (record_import_error (at_id ref) er t) w))"
    and registers: "P w \<Longrightarrow> P (snd (on_db (register_ready ref (storage_key (at_id ref)) t) w))"
begin

lemmas changes = new_dir put_staging put_final remove_staging begins marks records registers

lemma keeps_parts:
  shows "keeps P (register_action env ref)" "keeps P (mark_action env ref)" "keeps P (stage_action env (at_id ref) content)"
    "keeps P (effect f (link_final (at_id ref)))" "keeps P (after_link env ref)" "keeps P (record_failure env (at_id ref))"
    "keeps P (drop_staging env (at_id ref))" "keeps P (effect f' (look g))"
proof -
  note e = changes
  show r: "keeps P (register_action env ref)" unfolding register_action_def by (intro keeps_bind keeps_effect keeps_return e)
  show m: "keeps P (mark_action env ref)" unfolding mark_action_def by (intro keeps_effect e)
  have "keeps P (write_staging env (at_id ref) content)"
    by (rule keepsI) (simp add: write_staging_def e split: fault.split option.split)
  moreover have "keeps P (effect f (clear_staging (at_id ref)))" for f
    by (rule keeps_effect) (simp add: clear_staging_def e split: option.split entry.split)
  moreover have "keeps P (effect f (\<lambda>w. (Inr (), put_entry (staging_name (at_id ref)) (RegularFile []) w)))" for f
    by (rule keeps_effect) (simp add: e)
  moreover have nothing: "keeps P (effect f (\<lambda>w. (Inr (), w)))" for f by (rule keeps_effect) simp
  ultimately show "keeps P (stage_action env (at_id ref) content)" unfolding stage_action_def by (intro keeps_bind)
  show "keeps P (effect f (link_final (at_id ref)))"
    by (rule keeps_effect) (auto simp: link_final_def e split: option.split)
  have 8: "keeps P (effect (pe_fault env 8) (\<lambda>w. (Inr (), remove_entry (staging_name (at_id ref)) w)))"
    by (rule keeps_effect) (simp add: e)
  have 9: "keeps P (effect (pe_fault env 9) (\<lambda>w. (Inr (), w)))" by (rule keeps_effect) simp
  show "keeps P (after_link env ref)" unfolding after_link_def by (intro keeps_bind 8 9 m r)
  show "keeps P (record_failure env (at_id ref))"
    by (rule keepsI) (simp add: record_failure_def e split: fault.split)
  show "keeps P (drop_staging env (at_id ref))"
    by (rule keepsI) (simp add: drop_staging_def e split: fault.split)
  show "keeps P (effect f' (look g))" by (rule keeps_effect) simp
qed

lemma keeps_handle:
  assumes "P (snd result)"
  shows "P (snd (handle env (at_id ref) started published result))"
proof (cases "fst result")
  case (Raised e)
  let ?k = "bind_action (if started then record_failure env (at_id ref) else (\<lambda>w. (Returned (), w)))
       (\<lambda>_. bind_action (if published then (\<lambda>w. (Returned (), w)) else drop_staging env (at_id ref)) (\<lambda>_ w'. (Raised e, w')))"
  have 1: "keeps P (if started then record_failure env (at_id ref) else (\<lambda>w. (Returned (), w)))"
    by (cases started) (simp_all only: if_True if_False keeps_parts(6) keeps_return)
  have 2: "keeps P (if published then (\<lambda>w. (Returned (), w)) else drop_staging env (at_id ref))"
    by (cases published) (simp_all only: if_True if_False keeps_parts(7) keeps_return)
  have k: "keeps P ?k" by (intro keeps_bind 1 2 keeps_return)
  have r: "result = (Raised e, snd result)" using Raised by (cases result) simp
  have "handle env (at_id ref) started published result = ?k (snd result)"
    by (subst r) (simp only: handle_def prod.case ending.case)
  then show ?thesis using keepsD[OF k assms(1)] by (simp only:)
qed (use assms in \<open>cases result; simp add: handle_def\<close>)+

lemma keeps_publish: "keeps P (publish_content sha env ref content)"
proof -
  let ?i = "at_id ref"
  note k = keeps_parts and h = keeps_handle
  have fresh: "keeps P (fresh_publication env ref content)"
  proof (rule keepsI)
    fix w assume w: "P w"
    obtain x w1 where m: "bind_action (stage_action env ?i content) (\<lambda>_. effect (pe_fault env 7) (link_final ?i)) w = (x, w1)"
      by fastforce
    have w1: "P w1" using keepsD[OF keeps_bind[OF k(3)[of env content] k(4)[of "pe_fault env 7"]] w] m by (metis snd_conv)
    show "P (snd (fresh_publication env ref content w))"
      using m w1 h[of "(x :: unit ending, w1)"] h[OF keepsD[OF k(5) w1], of env] 
      by (cases x) (simp_all add: fresh_publication_def h)
  qed
  have body: "keeps P (publish_body sha env ref content intent)" for intent
  proof (rule keepsI)
    fix w assume w: "P w"
    let ?verify = "effect (pe_fault env 2) (look (\<lambda>w. verify_file sha ref (final_of w ?i)))"
    have 1: "P (snd (handle env ?i True False (effect (pe_fault env 2) (look (require_existing_ready sha ref)) w)))"
      by (rule h, rule keepsD[where P = P and w = w], rule k(8), rule w)
    have 2: "P (snd (handle env ?i True False (bind_action ?verify (\<lambda>_. register_action env ref) w)))"
      by (rule h, rule keepsD[where P = P and w = w], intro keeps_bind k(8) k(1), rule w)
    have 3: "P (snd (handle env ?i True False (bind_action ?verify
        (\<lambda>_. bind_action (mark_action env ref) (\<lambda>_. register_action env ref)) w)))"
      by (rule h, rule keepsD[where P = P and w = w], intro keeps_bind k(8) k(2) k(1), rule w)
    show "P (snd (publish_body sha env ref content intent w))"
      using 1 2 3 keepsD[OF fresh w] by (simp add: publish_body_def Let_def split: import_phase.split)
  qed
  have root: "keeps P (effect f (resolve_root True))" for f
    by (rule keeps_effect) (simp add: resolve_root_def changes(1) split: option.split)
  have begin_keeps: "keeps P (effect f (on_db (begin_import ?i (storage_key ?i) (at_size ref) (at_sha ref) t)))" for f t
    by (intro keeps_effect changes(5))
  show ?thesis
  proof (rule keepsI)
    fix w assume w: "P w"
    obtain x w1 where r: "effect (pe_fault env 0) (resolve_root True) w = (x, w1)" by fastforce
    have w1: "P w1" using keepsD[OF root w] r by (metis snd_conv)
    obtain y w2 where b: "effect (pe_fault env 1) (on_db (begin_import ?i (storage_key ?i) (at_size ref) (at_sha ref) (pe_clock env 0))) w1 = (y, w2)"
      by fastforce
    have w2: "P w2" using keepsD[OF begin_keeps w1] b by (metis snd_conv)
    show "P (snd (publish_content sha env ref content w))"
      using r b w1 w2 keepsD[OF body w2] by (cases x; cases y) (simp_all add: publish_content_def h)
  qed
qed


end

lemma db_effects:
  "find_ready j (snd (begin_import i key n sh t db)) = find_ready j db"
  "find_ready j (snd (mark_file_published i t db)) = find_ready j db"
  "find_ready j (snd (record_import_error i er t db)) = find_ready j db"
  "find_ready j db = Some a \<Longrightarrow> find_ready j (snd (register_ready ref key t db)) = Some a"
proof -
  obtain x db' where b: "begin_import i key n sh t db = (x, db')" by fastforce
  show "find_ready j (snd (begin_import i key n sh t db)) = find_ready j db" using begin_cases[OF b] b by auto
  show "find_ready j (snd (mark_file_published i t db)) = find_ready j db"
    "find_ready j (snd (record_import_error i er t db)) = find_ready j db"
    by (simp_all add: mark_file_published_def record_import_error_def update_import_effect(2))
  assume j: "find_ready j db = Some a"
  obtain y db2 where c: "commit_ready ref key t db = (y, db2)" by fastforce
  have "find_ready j db2 = Some a"
    using commit_cases[OF c] j by (auto simp: update_import_effect(2) find_ready_append)
  then show "find_ready j (snd (register_ready ref key t db)) = Some a"
    using c j by (cases y) (simp_all add: register_ready_def)
qed

lemma on_db_world [simp]: "aw_db (snd (on_db f w)) = snd (f (aw_db w))" "aw_bad (snd (on_db f w)) = aw_bad w"
  by (simp_all add: on_db_def split: prod.split)

lemma same_world [simp]:
  "aw_bad (put_entry n e w) = aw_bad w" "aw_bad (remove_entry n w) = aw_bad w"
  by (simp_all add: put_entry_def remove_entry_def)

text \<open>What publications never change: a ready row, a final file, the checks of the root, and the
  staging file of another identity.\<close>

lemma no_entries: "aw_dir w = None \<Longrightarrow> entry_at w n = None"
  by (simp add: entries_def)

interpretation ready: publication_frame ref "\<lambda>w. rdy w i = Some a" for ref i a
  by unfold_locales (auto simp: db_effects)

interpretation root: publication_frame ref "\<lambda>w. aw_bad w = None" for ref
  by unfold_locales auto

interpretation final: publication_frame ref "\<lambda>w. final_of w i = Some e" for ref i e
  by unfold_locales (auto simp: no_entries)

lemma staging_stays:
  assumes "i \<noteq> at_id ref"
  shows "publication_frame ref (\<lambda>w. entry_at w (staging_name i) = Some e)"
  using assms by unfold_locales (auto simp: no_entries)

section \<open>What a publication that returns has done\<close>

lemma handle_Returned:
  "handle env i started published result = (Returned x, w) \<longleftrightarrow> result = (Returned x, w)"
proof -
  have "handle env i started published (Raised e, w') \<noteq> (Returned x, w)" for e w'
    by (auto simp: handle_def bind_action_def split: prod.split ending.split)
  then show ?thesis by (cases result; cases "fst result") (auto simp: handle_def)
qed

lemma register_Returned:
  assumes "register_action env ref w = (Returned x, w')"
  shows "\<exists>row. rdy w' (at_id ref) = Some row \<and> x = ar_ref row"
proof -
  obtain row where r: "register_ready ref (storage_key (at_id ref)) (pe_clock env 2) (aw_db w) = (Inr row, aw_db w')" "x = ar_ref row"
    using assms unfolding register_action_def bind_Returned effect_Returned
    by (auto simp: on_db_def split: prod.split_asm)
  obtain y db' where c: "commit_ready ref (storage_key (at_id ref)) (pe_clock env 2) (aw_db w) = (y, db')" by fastforce
  have "get_attachment (at_id ref) (aw_db w') = Inr (Some row)"
    using r(1) c by (cases y) (auto simp: register_ready_def attempt_eq_Inr split: if_split_asm option.split_asm)
  then show ?thesis using r(2)
    by (auto simp: get_attachment_def attempt_eq_Inr artifact_record_def split: option.split_asm if_split_asm)
qed

lemma existing_Returned:
  assumes "require_existing_ready sha ref w = Inr x"
  shows "\<exists>row. rdy w (at_id ref) = Some row \<and> x = ar_ref row"
  using assms by (auto simp: require_existing_ready_def attempt_eq_Inr get_attachment_def artifact_record_def
    split: option.split_asm if_split_asm)

lemma publish_Returned:
  assumes "publish_content sha env ref content w = (Returned x, w')"
  shows "\<exists>row. rdy w' (at_id ref) = Some row \<and> x = ar_ref row"
proof -
  obtain u w1 intent w2 where body: "publish_body sha env ref content intent w2 = (Returned x, w')"
    using assms unfolding publish_content_def
    by (auto simp: handle_Returned split: prod.split_asm ending.split_asm)
  show ?thesis
  proof (cases "im_phase intent")
    case ImpCommitted
    then show ?thesis using body existing_Returned[of sha ref w2 x]
      by (auto simp: publish_body_def Let_def handle_Returned effect_Returned look_def)
  next
    case ImpPublished
    then show ?thesis using body register_Returned
      by (auto simp: publish_body_def Let_def handle_Returned bind_Returned)
  next
    case ImpPrepared
    then show ?thesis using body register_Returned
      by (auto simp: publish_body_def Let_def handle_Returned bind_Returned fresh_publication_def after_link_def
        split: if_split_asm prod.split_asm ending.split_asm)
  qed
qed

section \<open>Reading what is ready\<close>

lemma ready_readable:
  assumes "art_ok sha w" "aw_bad w = None" "rdy w i = Some a"
  shows "get_attachment i (aw_db w) = Inr (Some a)"
    "\<exists>d. open_verified sha a w = Inr d \<and> exact_bytes sha (ar_ref a) d \<and> final_of w i = Some (RegularFile d)"
proof -
  have i: "at_id (ar_ref a) = i" using find_ready_id[OF assms(3)] by simp
  obtain r where r: "imp w i = Some r" "ready_matches a r" using art_okD(3)[OF assms(1,3)] by blast
  have "artifact_id_ok (at_id (ar_ref a))" using r(2) by (simp add: ready_matches_def attachment_ref_ok_def)
  then show "get_attachment i (aw_db w) = Inr (Some a)" using r(2) storage_key_ok
    by (simp add: get_attachment_def assms(3) artifact_record_def ready_matches_def)
  have "file_state sha r (final_of w i)" using art_okD(1)[OF assms(1) r(1)] by simp
  then obtain d where d: "final_of w i = Some (RegularFile d)" "int (length d) = im_size r" "sha d = im_sha r"
    using r(2) by (auto simp: file_state_def ready_matches_def split: option.split_asm entry.split_asm)
  then obtain dir where "aw_dir w = Some dir" by (cases "aw_dir w") (auto simp: entries_def)
  then show "\<exists>d. open_verified sha a w = Inr d \<and> exact_bytes sha (ar_ref a) d \<and> final_of w i = Some (RegularFile d)"
    using d r(2) assms(2) i
    by (auto simp: open_verified_def resolve_root_def verify_file_def open_regular_def exact_bytes_def ready_matches_def entries_def)
qed

lemma ready_acquired:
  assumes "art_ok sha w" "aw_bad w = None" "rdy w (at_id ref) = Some a" "ar_ref a = ref"
  shows "\<exists>d. acquire_artifact sha ref w = Inr d \<and> exact_bytes sha ref d \<and> final_of w (at_id ref) = Some (RegularFile d)"
  using ready_readable[OF assms(1-3)] assms(4) by (auto simp: acquire_artifact_def)

end
