(* ===== verification/Artifact_Properties.thy ===== *)
theory Artifact_Properties
  imports Artifact_Invariant
begin

text \<open>
  Properties of the publication of attachments: a reference that was returned stays readable with
  the same bytes, and an attempt without faults completes whatever earlier attempts left behind.
\<close>

section \<open>Histories of attempts\<close>

text \<open>Attempts on any identities, one after the other; each may fail or die at any of its effects.\<close>

type_synonym publish_attempt = "publish_env \<times> attachment_ref \<times> content"

fun publish_all :: "(string \<Rightarrow> string) \<Rightarrow> publish_attempt list \<Rightarrow> artifact_world \<Rightarrow> artifact_world" where
  "publish_all sha [] w = w"
| "publish_all sha ((env, ref, content) # as) w = publish_all sha as (snd (publish_content sha env ref content w))"

definition empty_artifacts :: artifact_world where
  "empty_artifacts = \<lparr>aw_db = \<lparr>db_ready = [], db_imports = []\<rparr>, aw_bad = None, aw_dir = None\<rparr>"

definition refs_of :: "publish_attempt list \<Rightarrow> attachment_ref set" where
  "refs_of as = (fst \<circ> snd) ` set as"

text \<open>An identity belongs to one reference, and content that is written completely has the size and
  the hash that the reference states.\<close>

definition attempts_ok :: "(string \<Rightarrow> string) \<Rightarrow> publish_attempt list \<Rightarrow> bool" where
  "attempts_ok sha as \<longleftrightarrow> one_ref_per_id (refs_of as) \<and>
     (\<forall>(env, ref, content) \<in> set as. attachment_ref_ok ref \<and> good_content sha ref content)"

lemma attempts_tried:
  assumes "attempts_ok sha as" "(env, ref, content) \<in> set as"
  shows "tried (refs_of as) ref" "good_content sha ref content"
  using assms by (force simp: attempts_ok_def tried_def refs_of_def)+

lemma empty_inv: "art_inv sha R empty_artifacts"
  by (simp add: art_inv_def art_ok_def fits_def empty_artifacts_def find_import_def find_ready_def entries_def)

lemma all_inv:
  assumes "\<And>env ref content. (env, ref, content) \<in> set as \<Longrightarrow> tried R ref \<and> good_content sha ref content" "art_inv sha R w"
  shows "art_inv sha R (publish_all sha as w)"
  using assms
proof (induction as arbitrary: w)
  case (Cons a as)
  obtain env ref content where a: "a = (env, ref, content)" by (cases a)
  have "art_inv sha R (snd (publish_content sha env ref content w))"
    using publish_keeps[of R ref sha content w env] Cons.prems(1)[of env ref content] Cons.prems(2) a by simp
  then have "art_inv sha R (publish_all sha as (snd (publish_content sha env ref content w)))"
    using Cons.IH Cons.prems(1) by (meson list.set_intros(2))
  then show ?case using a by simp
qed simp

lemma all_keep:
  assumes "\<And>env ref content. (env, ref, content) \<in> set as \<Longrightarrow> publication_frame ref P" "P w"
  shows "P (publish_all sha as w)"
  using assms
proof (induction as arbitrary: w)
  case (Cons a as)
  obtain env ref content where a: "a = (env, ref, content)" by (cases a)
  have "P (snd (publish_content sha env ref content w))"
    using keepsD[OF publication_frame.keeps_publish[OF Cons.prems(1)[of env ref content]] Cons.prems(2)] a by simp
  then have "P (publish_all sha as (snd (publish_content sha env ref content w)))"
    using Cons.IH Cons.prems(1) by (meson list.set_intros(2))
  then show ?case using a by simp
qed simp

lemma history_inv:
  assumes "attempts_ok sha (before @ after)"
  shows "art_inv sha (refs_of (before @ after)) (publish_all sha before empty_artifacts)"
    "aw_bad (publish_all sha before empty_artifacts) = None"
proof -
  show "art_inv sha (refs_of (before @ after)) (publish_all sha before empty_artifacts)"
  proof (rule all_inv[OF _ empty_inv])
    fix env ref content assume "(env, ref, content) \<in> set before"
    then have "(env, ref, content) \<in> set (before @ after)" by simp
    then show "tried (refs_of (before @ after)) ref \<and> good_content sha ref content"
      using attempts_tried[OF assms] by blast
  qed
  show "aw_bad (publish_all sha before empty_artifacts) = None"
    by (rule all_keep[where P = "\<lambda>w. aw_bad w = None"]) (simp_all add: root.publication_frame_axioms empty_artifacts_def)
qed

section \<open>Readable for ever\<close>

lemma returned_ready:
  assumes "art_inv sha R w" "tried R ref" "good_content sha ref content"
    "publish_content sha env ref content w = (Returned x, w')"
  shows "art_inv sha R w'" "x = ref" "\<exists>a. rdy w' (at_id ref) = Some a \<and> ar_ref a = ref"
proof -
  show w': "art_inv sha R w'" using publish_keeps[OF assms(2,3,1), of env] assms(4) by simp
  obtain a where a: "rdy w' (at_id ref) = Some a" "x = ar_ref a" using publish_Returned[OF assms(4)] by blast
  have "fits ref w'" using w' triedD(1)[OF assms(2)] by (simp add: art_inv_def)
  then have "ar_ref a = ref" using a(1) by (simp add: fits_def)
  then show "x = ref" "\<exists>a. rdy w' (at_id ref) = Some a \<and> ar_ref a = ref" using a by simp_all
qed

lemma ready_acquired_later:
  assumes "art_inv sha R w" "aw_bad w = None" "rdy w (at_id ref) = Some a" "ar_ref a = ref"
    "\<And>env r content. (env, r, content) \<in> set after \<Longrightarrow> tried R r \<and> good_content sha r content"
  shows "\<exists>d. exact_bytes sha ref d \<and> acquire_artifact sha ref w = Inr d \<and>
    acquire_artifact sha ref (publish_all sha after w) = Inr d"
proof -
  let ?w = "publish_all sha after w"
  have w: "art_ok sha w" using assms(1) by (simp add: art_inv_def)
  obtain d where d: "acquire_artifact sha ref w = Inr d" "exact_bytes sha ref d" "final_of w (at_id ref) = Some (RegularFile d)"
    using ready_acquired[OF w assms(2,3,4)] by blast
  have "art_inv sha R ?w" by (rule all_inv[OF assms(5,1)])
  then have w': "art_ok sha ?w" by (simp add: art_inv_def)
  have bad: "aw_bad ?w = None" by (rule all_keep[where P = "\<lambda>w. aw_bad w = None"]) (simp_all add: root.publication_frame_axioms assms(2))
  have row: "rdy ?w (at_id ref) = Some a"
    by (rule all_keep[where P = "\<lambda>w. rdy w (at_id ref) = Some a"]) (simp_all add: ready.publication_frame_axioms assms(3))
  have kept: "final_of ?w (at_id ref) = Some (RegularFile d)"
    by (rule all_keep[where P = "\<lambda>w. final_of w (at_id ref) = Some (RegularFile d)"]) (simp_all add: final.publication_frame_axioms d(3))
  obtain d' where "acquire_artifact sha ref ?w = Inr d'" "final_of ?w (at_id ref) = Some (RegularFile d')"
    using ready_acquired[OF w' bad row assms(4)] by blast
  then show ?thesis using d kept by auto
qed

section \<open>New identities\<close>

lemma find_import_effects:
  "j \<noteq> i \<Longrightarrow> find_import j (snd (begin_import i key n sh t db)) = find_import j db"
  "j \<noteq> i \<Longrightarrow> find_import j (snd (mark_file_published i t db)) = find_import j db"
  "j \<noteq> i \<Longrightarrow> find_import j (snd (record_import_error i er t db)) = find_import j db"
  "j \<noteq> at_id ref \<Longrightarrow> find_import j (snd (register_ready ref key t db)) = find_import j db"
proof -
  obtain x db' where b: "begin_import i key n sh t db = (x, db')" by fastforce
  show "j \<noteq> i \<Longrightarrow> find_import j (snd (begin_import i key n sh t db)) = find_import j db"
    using begin_cases[OF b] b by (auto simp: find_import_append split: option.split)
  show "j \<noteq> i \<Longrightarrow> find_import j (snd (mark_file_published i t db)) = find_import j db"
    "j \<noteq> i \<Longrightarrow> find_import j (snd (record_import_error i er t db)) = find_import j db"
    by (simp_all add: mark_file_published_def record_import_error_def update_import_effect(1))
  obtain y db2 where c: "commit_ready ref key t db = (y, db2)" by fastforce
  have "j \<noteq> at_id ref \<Longrightarrow> find_import j db2 = find_import j db"
    using commit_cases[OF c] by (auto simp: update_import_effect(1))
  then show "j \<noteq> at_id ref \<Longrightarrow> find_import j (snd (register_ready ref key t db)) = find_import j db"
    using c by (cases y) (simp_all add: register_ready_def)
qed

lemma absent_stays: "i \<noteq> at_id ref \<Longrightarrow> publication_frame ref (\<lambda>w. imp w i = None)"
  by unfold_locales (auto simp: find_import_effects)

lemma never_tried:
  assumes "\<And>ref. ref \<in> refs_of as \<Longrightarrow> at_id ref \<noteq> i"
  shows "imp (publish_all sha as empty_artifacts) i = None"
proof (rule all_keep[where P = "\<lambda>w. imp w i = None"])
  fix env ref content assume "(env, ref, content) \<in> set as"
  then have "ref \<in> refs_of as" by (force simp: refs_of_def)
  then show "publication_frame ref (\<lambda>w. imp w i = None)" using assms by (intro absent_stays) blast
qed (simp add: empty_artifacts_def find_import_def)

lemma fresh_Returned:
  assumes "fresh_publication env ref content w = (Returned x, w')" "final_of w (at_id ref) = None"
  shows "snd content = None" "final_of w' (at_id ref) = Some (RegularFile (fst content))"
proof -
  let ?i = "at_id ref"
  obtain w2 where 1: "bind_action (stage_action env ?i content) (\<lambda>_. effect (pe_fault env 7) (link_final ?i)) w = (Returned (), w2)"
    and 2: "after_link env ref w2 = (Returned x, w')"
    using assms(1) by (auto simp: fresh_publication_def handle_Returned split: prod.split_asm ending.split_asm)
  obtain w1 where s: "stage_action env ?i content w = (Returned (), w1)" and l: "link_final ?i w1 = (Inr (), w2)"
    using 1 unfolding bind_Returned effect_Returned by auto
  note c = stage_complete[OF s]
  show "snd content = None" by (rule c(2))
  have "final_of w2 ?i = Some (RegularFile (fst content))"
    using l c(1) by (auto simp: link_final_def split: option.split_asm)
  then have "final_of (snd (after_link env ref w2)) ?i = Some (RegularFile (fst content))"
    by (rule keepsD[OF final.keeps_parts(5)])
  then show "final_of w' ?i = Some (RegularFile (fst content))" using 2 by simp
qed

lemma new_Returned:
  assumes "art_ok sha w" "imp w (at_id ref) = None" "publish_content sha env ref content w = (Returned x, w')"
  shows "snd content = None" "final_of w' (at_id ref) = Some (RegularFile (fst content))"
proof -
  let ?i = "at_id ref"
  let ?started = "begin_import ?i (storage_key ?i) (at_size ref) (at_sha ref) (pe_clock env 0)"
  obtain u w1 where r: "resolve_root True w = (Inr u, w1)"
    and p: "publish_content sha env ref content w = (case effect (pe_fault env 1) (on_db ?started) w1 of
       (Raised e, w2) \<Rightarrow> handle env ?i False False (Raised e, w2) | (Died, w2) \<Rightarrow> (Died, w2)
     | (Returned intent, w2) \<Rightarrow> publish_body sha env ref content intent w2)"
    using assms(3) by (auto simp: publish_content_def effect_Returned split: prod.split_asm ending.split_asm)
  have same: "aw_db w1 = aw_db w" "final_of w1 ?i = final_of w ?i"
    using r by (auto simp: resolve_root_def entries_def split: option.split_asm if_split_asm)
  obtain intent w2 where b: "on_db ?started w1 = (Inr intent, w2)"
    and body: "publish_body sha env ref content intent w2 = (Returned x, w')"
    using assms(3) unfolding p by (auto simp: handle_Returned effect_Returned split: prod.split_asm ending.split_asm)
  obtain y db where b2: "?started (aw_db w) = (y, db)" by fastforce
  have "im_phase intent = ImpPrepared" "w2 = w1\<lparr>aw_db := db\<rparr>"
    using b b2 begin_cases[OF b2] assms(2) by (auto simp: on_db_def same)
  moreover have none: "final_of w ?i = None" using art_okD(4)[OF assms(1)] assms(2) by blast
  ultimately have f: "fresh_publication env ref content w2 = (Returned x, w')" "final_of w2 ?i = None"
    using body by (simp_all add: publish_body_def Let_def same)
  show "snd content = None" "final_of w' ?i = Some (RegularFile (fst content))" by (rule fresh_Returned[OF f])+
qed

section \<open>An attempt without faults\<close>

lemma find_import_mem:
  assumes "distinct (map im_id (db_imports db))" "r \<in> set (db_imports db)"
  shows "find_import (im_id r) db = Some r"
proof -
  obtain s where s: "find_import (im_id r) db = Some s"
    using assms(2) by (cases "find_import (im_id r) db") (auto simp: find_import_def find_None_iff)
  have "s = r" using find_import_id[OF s] assms by (metis distinct_map inj_on_eq_iff)
  then show ?thesis using s by simp
qed

lemma find_ready_mem:
  assumes "distinct (map (\<lambda>a. at_id (ar_ref a)) (db_ready db))" "a \<in> set (db_ready db)"
  shows "find_ready (at_id (ar_ref a)) db = Some a"
proof -
  obtain b where b: "find_ready (at_id (ar_ref a)) db = Some b"
    using assms(2) by (cases "find_ready (at_id (ar_ref a)) db") (auto simp: find_ready_def find_None_iff)
  have "inj_on (\<lambda>a. at_id (ar_ref a)) (set (db_ready db))" using assms(1) by (simp add: distinct_map)
  then have "b = a" using find_ready_id[OF b] assms(2) by (auto dest: inj_onD)
  then show ?thesis using b by simp
qed

text \<open>What an import of a reference that fits looks like.\<close>

lemma own_import:
  assumes "art_inv sha R w" "tried R ref" "imp w (at_id ref) = Some r"
  shows "import_ok r" "same_import (storage_key (at_id ref)) (at_size ref) (at_sha ref) r"
    "file_state sha r (final_of w (at_id ref))" "im_size r = at_size ref" "im_sha r = at_sha ref"
  using art_okD(1)[of sha w "at_id ref" r] assms triedD(1)[OF assms(2)]
  by (auto simp: art_inv_def fits_def same_import_def)

lemma own_file:
  assumes "art_inv sha R w" "tried R ref" "imp w (at_id ref) = Some r" "final_of w (at_id ref) \<noteq> None \<or> im_phase r \<noteq> ImpPrepared"
  shows "\<exists>d. verify_file sha ref (final_of w (at_id ref)) = Inr d" "final_of w (at_id ref) \<noteq> None"
  using own_import(3-5)[OF assms(1-3)] assms(4)
  by (auto simp: file_state_def verify_file_def open_regular_def exact_bytes_def split: option.split_asm entry.split_asm)

lemma begin_completes:
  assumes "art_inv sha R w" "tried R ref" "created \<noteq> []"
  shows "\<exists>r w'. on_db (begin_import (at_id ref) (storage_key (at_id ref)) (at_size ref) (at_sha ref) created) w = (Inr r, w') \<and>
    imp w' (at_id ref) = Some r"
proof -
  let ?i = "at_id ref"
  have w: "art_ok sha w" using assms(1) by (simp add: art_inv_def)
  let ?r = "\<lparr>im_id = ?i, im_key = storage_key ?i, im_size = at_size ref, im_sha = at_sha ref, im_phase = ImpPrepared,
    im_created = created, im_updated = created, im_error = None\<rparr>"
  have ok: "import_ok ?r" using triedD(2)[OF assms(2)] assms(3) storage_key_ok
    by (simp add: import_ok_def attachment_ref_ok_def)
  show ?thesis
  proof (cases "imp w ?i")
    case None
    have "im_key r \<noteq> storage_key ?i" if r: "r \<in> set (db_imports (aw_db w))" for r
    proof -
      have f: "imp w (im_id r) = Some r" by (rule find_import_mem[OF art_okD(5)[OF w] r])
      then have "im_key r = storage_key (im_id r)" using art_okD(1)[OF w f] by simp
      then show ?thesis using f None by auto
    qed
    then have "\<not> list_ex (\<lambda>r. im_key r = storage_key ?i) (db_imports (aw_db w))" by (auto simp: list_ex_iff)
    then show ?thesis using None ok by (simp add: on_db_def begin_import_def Let_def find_import_append)
  next
    case (Some r)
    then show ?thesis using own_import[OF assms(1,2) Some] ok
      by (simp add: on_db_def begin_import_def Let_def read_import_def)
  qed
qed

lemma register_completes:
  assumes "art_inv sha R w" "tried R ref" "imp w (at_id ref) = Some r" "im_phase r = ImpPublished"
    "pe_fault env 11 = NoFault" "pe_clock env 2 \<noteq> []"
  shows "\<exists>w'. register_action env ref w = (Returned ref, w')"
proof -
  let ?i = "at_id ref" and ?row = "\<lparr>ar_ref = ref, ar_key = storage_key (at_id ref), ar_created = pe_clock env 2\<rparr>"
  have w: "art_ok sha w" using assms(1) by (simp add: art_inv_def)
  have ref: "attachment_ref_ok ref" by (rule triedD(2)[OF assms(2)])
  then have key: "key_ok ?i (storage_key ?i)" by (intro storage_key_ok) (simp add: attachment_ref_ok_def)
  have none: "rdy w ?i = None" using art_okD(3)[OF w, of ?i] assms(3,4) by (cases "rdy w ?i") (auto simp: ready_matches_def)
  have "at_id (ar_ref a) \<noteq> ?i \<and> ar_key a \<noteq> storage_key ?i" if a: "a \<in> set (db_ready (aw_db w))" for a
  proof -
    have f: "rdy w (at_id (ar_ref a)) = Some a" by (rule find_ready_mem[OF art_okD(6)[OF w] a])
    then have "ar_key a = storage_key (at_id (ar_ref a))" using art_okD(3)[OF w f] by (auto simp: ready_matches_def)
    then show ?thesis using f none by auto
  qed
  then have free: "\<not> ready_conflict ?row (aw_db w)" by (auto simp: ready_conflict_def list_ex_iff)
  obtain y db where c: "commit_ready ref (storage_key ?i) (pe_clock env 2) (aw_db w) = (y, db)" by fastforce
  have y: "y = Inr ()" "find_ready ?i db = Some ?row"
    using c free own_import(2)[OF assms(1-3)] assms(3,4) none
    by (auto simp: commit_ready_def Let_def update_import_effect(2) find_ready_append)
  have "get_attachment ?i db = Inr (Some ?row)"
    using y(2) ref key assms(6) by (simp add: get_attachment_def artifact_record_def)
  then show ?thesis using c y(1) key assms(5,6)
    by (simp add: register_action_def bind_action_def effect_def on_db_def register_ready_def)
qed

lemma mark_register_completes:
  assumes "art_inv sha R w" "tried R ref" "imp w (at_id ref) = Some r" "im_phase r = ImpPrepared" "final_of w (at_id ref) \<noteq> None"
    "\<And>k. pe_fault env k = NoFault" "\<And>k. pe_clock env k \<noteq> []"
  shows "\<exists>w'. bind_action (mark_action env ref) (\<lambda>_. register_action env ref) w = (Returned ref, w')"
proof -
  let ?i = "at_id ref" and ?t = "pe_clock env 1"
  let ?w = "snd (on_db (mark_file_published ?i ?t) w)"
  have "list_ex (\<lambda>r. im_id r = ?i \<and> im_phase r = ImpPrepared) (db_imports (aw_db w))"
    using find_import_id[OF assms(3)] assms(4) by (auto simp: list_ex_iff)
  then have "mark_action env ref w = (Returned (), ?w)"
    using assms(6,7) by (simp add: mark_action_def effect_def on_db_def mark_file_published_def update_import_def)
  moreover have "art_inv sha R ?w" by (rule mark_inv[OF assms(1,5)])
  moreover have "imp ?w ?i = Some (r\<lparr>im_phase := ImpPublished, im_updated := ?t, im_error := None\<rparr>)"
    using assms(3,4,7) by (simp add: mark_file_published_def update_import_effect(1))
  ultimately show ?thesis
    using register_completes[of sha R ?w ref _ env] assms(2,6,7) by (auto simp: bind_action_def)
qed

lemma handle_from: "result = (Returned x, w) \<Longrightarrow> handle env i started published result = (Returned x, w)"
  by (simp add: handle_def)

lemma stage_completes:
  assumes "\<And>k. pe_fault env k = NoFault" "snd content = None"
    "entry_at w (staging_name i) \<notin> {Some SymLink, Some SubDirectory}"
  shows "\<exists>w'. stage_action env i content w = (Returned (), w')"
  using assms by (auto simp: stage_action_def bind_action_def effect_def write_staging_def clear_staging_def
    split: option.split entry.split)

lemma fresh_completes:
  assumes "art_inv sha R w" "tried R ref" "good_content sha ref content" "imp w (at_id ref) = Some r" "im_phase r = ImpPrepared"
    "final_of w (at_id ref) = None" "snd content = None" "\<And>k. pe_fault env k = NoFault" "\<And>k. pe_clock env k \<noteq> []"
  shows "\<exists>w'. fresh_publication env ref content w = (Returned ref, w')"
proof -
  let ?i = "at_id ref"
  have "fits ref w" using assms(1) triedD(1)[OF assms(2)] by (simp add: art_inv_def)
  then have free: "entry_at w (staging_name ?i) \<notin> {Some SymLink, Some SubDirectory}" by (simp add: fits_def)
  obtain w1 where s: "stage_action env ?i content w = (Returned (), w1)"
    using stage_completes[OF assms(8,7) free] by blast
  note c = stage_complete[OF s]
  let ?w2 = "put_entry (final_name ?i) (RegularFile (fst content)) w1"
  have l: "link_final ?i w1 = (Inr (), ?w2)" using c(1,4) assms(6) by (simp add: link_final_def)
  have w1: "art_inv sha R w1" using keepsD[OF stage_keeps assms(1), of env ?i content] s by simp
  have r1: "imp w1 ?i = Some r" using assms(4) c(3) by simp
  have "art_inv sha R (snd (link_final ?i w1))"
    by (rule link_inv[OF w1 r1 c(1)])
      (use assms(3,7) own_import(4,5)[OF w1 assms(2) r1] in \<open>simp_all add: good_content_def exact_bytes_def\<close>)
  then have w2: "art_inv sha R ?w2" using l by simp
  let ?w3 = "remove_entry (staging_name ?i) ?w2"
  have "\<exists>w'. bind_action (mark_action env ref) (\<lambda>_. register_action env ref) ?w3 = (Returned ref, w')"
    by (rule mark_register_completes[OF drop_staging_inv[OF w2] assms(2) _ assms(5) _ assms(8,9)]) (simp_all add: r1)
  then have "\<exists>w'. after_link env ref ?w2 = (Returned ref, w')"
    using assms(8) by (simp add: after_link_def bind_action_def effect_def)
  then obtain w' where "after_link env ref ?w2 = (Returned ref, w')" by blast
  then show ?thesis using s l assms(8)
    by (simp add: fresh_publication_def bind_action_def effect_def handle_def)
qed

lemma body_completes:
  assumes "art_inv sha R w" "aw_bad w = None" "tried R ref" "good_content sha ref content" "imp w (at_id ref) = Some r"
    "snd content = None" "\<And>k. pe_fault env k = NoFault" "\<And>k. pe_clock env k \<noteq> []"
  shows "\<exists>w'. publish_body sha env ref content r w = (Returned ref, w')"
proof (cases "im_phase r")
  case ImpCommitted
  let ?i = "at_id ref"
  have w: "art_ok sha w" using assms(1) by (simp add: art_inv_def)
  obtain a where a: "rdy w ?i = Some a" using art_okD(2)[OF w assms(5) ImpCommitted] by blast
  have "ar_ref a = ref" using a assms(1) triedD(1)[OF assms(3)] by (auto simp: art_inv_def fits_def)
  then have "require_existing_ready sha ref w = Inr ref"
    using ready_readable[OF w assms(2) a] by (auto simp: require_existing_ready_def)
  then show ?thesis using ImpCommitted assms(7) by (simp add: publish_body_def effect_def look_def handle_def)
next
  case ImpPublished
  obtain d where "verify_file sha ref (final_of w (at_id ref)) = Inr d" using own_file(1)[OF assms(1,3,5)] ImpPublished by auto
  moreover obtain w' where "register_action env ref w = (Returned ref, w')"
    using register_completes[OF assms(1,3,5) ImpPublished assms(7,8)] by blast
  ultimately show ?thesis using ImpPublished assms(7)
    by (simp add: publish_body_def effect_def look_def handle_def bind_action_def)
next
  case ImpPrepared
  show ?thesis
  proof (cases "final_of w (at_id ref)")
    case None
    then show ?thesis using fresh_completes[OF assms(1,3,4,5) ImpPrepared None assms(6-8)] ImpPrepared
      by (simp add: publish_body_def)
  next
    case (Some e)
    obtain d where "verify_file sha ref (final_of w (at_id ref)) = Inr d" using own_file(1)[OF assms(1,3,5)] Some by auto
    moreover have "\<exists>w'. bind_action (mark_action env ref) (\<lambda>_. register_action env ref) w = (Returned ref, w')"
      by (rule mark_register_completes[OF assms(1,3,5) ImpPrepared _ assms(7,8)]) (simp add: Some)
    ultimately show ?thesis using ImpPrepared Some assms(7)
      by (auto simp: publish_body_def effect_def look_def handle_def bind_action_def[of "effect _ _"] split: prod.split)
  qed
qed

lemma publish_completes:
  assumes "art_inv sha R w" "aw_bad w = None" "tried R ref" "good_content sha ref content"
    "snd content = None" "\<And>k. pe_fault env k = NoFault" "\<And>k. pe_clock env k \<noteq> []"
  shows "\<exists>w'. publish_content sha env ref content w = (Returned ref, w')"
proof -
  let ?i = "at_id ref"
  let ?w1 = "case aw_dir w of None \<Rightarrow> w\<lparr>aw_dir := Some []\<rparr> | Some _ \<Rightarrow> w"
  obtain u where r: "resolve_root True w = (Inr u, ?w1)" using assms(2)
    by (cases "aw_dir w") (auto simp: resolve_root_def)
  have w1: "art_inv sha R ?w1" "aw_bad ?w1 = None"
    using assms(1,2) staging_inv[OF assms(1), of "w\<lparr>aw_dir := Some []\<rparr>" ?i]
    by (auto split: option.split simp: entries_def)
  obtain intent w2 where b: "on_db (begin_import ?i (storage_key ?i) (at_size ref) (at_sha ref) (pe_clock env 0)) ?w1 = (Inr intent, w2)"
    "imp w2 ?i = Some intent" using begin_completes[OF w1(1) assms(3,7)] by blast
  have w2: "art_inv sha R w2" "aw_bad w2 = None"
  proof -
    obtain y db where c: "begin_import ?i (storage_key ?i) (at_size ref) (at_sha ref) (pe_clock env 0) (aw_db ?w1) = (y, db)" by fastforce
    have "art_inv sha R (?w1\<lparr>aw_db := db\<rparr>)"
      by (rule begin_inv[OF w1(1) c]) (use triedD(3)[OF assms(3)] in auto)
    moreover have "w2 = ?w1\<lparr>aw_db := db\<rparr>" using b(1) c by (simp add: on_db_def)
    ultimately show "art_inv sha R w2" "aw_bad w2 = None" using w1(2) by simp_all
  qed
  obtain w' where "publish_body sha env ref content intent w2 = (Returned ref, w')"
    using body_completes[OF w2 assms(3,4) b(2) assms(5-7)] by blast
  then show ?thesis using r b(1) assms(6) by (simp add: publish_content_def effect_def)
qed

section \<open>Writing and copying\<close>

lemma write_all_result:
  "fst (write_all counts i data written) = Inr () \<Longrightarrow> snd (write_all counts i data written) = written @ data"
  "(\<And>k. 0 < counts k) \<Longrightarrow> write_all counts i data written = (Inr (), written @ data)"
proof (induction counts i data written rule: write_all.induct)
  case (1 counts i data written)
  { case 1
    then show ?case using "1.IH"(1) by (subst write_all.simps, subst (asm) write_all.simps) (auto split: if_split_asm)
  next
    case 2
    have "\<not> counts i \<le> 0" using 2[of i] by simp
    then show ?case using "1.IH"(2) 2 by (subst write_all.simps) auto }
qed

lemma written_complete: "written_by counts data = (d, None) \<Longrightarrow> d = data"
  using write_all_result(1)[of counts 0 data "[]"] by (auto simp: written_by_def split: prod.split_asm sum.split_asm)

lemma written_good:
  "int (length data) = at_size ref \<Longrightarrow> sha data = at_sha ref \<Longrightarrow> good_content sha ref (written_by counts data)"
  using written_complete[of counts data] by (cases "written_by counts data") (auto simp: good_content_def exact_bytes_def)

lemma candidate_facts:
  assumes "candidate_ref i kind filename media n digest head = Inr ref"
  shows "at_id ref = i" "at_size ref = n" "at_sha ref = digest" "attachment_ref_ok ref"
  using assms by (auto simp: candidate_ref_def checked_ref_def split: prod.split_asm if_split_asm)

lemma copy_complete:
  assumes "copy_source sha counts src fp = (d, None)"
  shows "d = sv_bytes src 1" "int (length d) = fp_size fp" "sha d = fp_sha fp"
  using assms written_complete[of counts "sv_bytes src 1"]
  by (auto simp: copy_source_def split: if_split_asm prod.split_asm option.split_asm)

lemma copy_good:
  "at_size ref = fp_size fp \<Longrightarrow> at_sha ref = fp_sha fp \<Longrightarrow> good_content sha ref (copy_source sha counts src fp)"
  using copy_complete[of sha counts src fp]
  by (cases "copy_source sha counts src fp") (auto simp: good_content_def exact_bytes_def)

text \<open>A new identity whose publication returns: its bytes are the content.\<close>

lemma new_published:
  assumes "attempts_ok sha as" "at_id ref \<notin> at_id ` refs_of as" "attachment_ref_ok ref" "good_content sha ref content"
    "publish_content sha env ref content (publish_all sha as empty_artifacts) = (Returned x, w')"
  shows "x = ref" "snd content = None" "acquire_artifact sha ref w' = Inr (fst content)"
proof -
  let ?all = "as @ [(env, ref, content)]" and ?w = "publish_all sha as empty_artifacts"
  have refs: "refs_of ?all = insert ref (refs_of as)" by (simp add: refs_of_def)
  have ids: "s \<in> refs_of as \<Longrightarrow> at_id s \<noteq> at_id ref" for s using assms(2) by (metis image_eqI)
  have ok: "attempts_ok sha ?all"
    using assms(1,3,4) ids ids[symmetric] unfolding attempts_ok_def refs one_ref_per_id_def by auto
  have t: "tried (refs_of ?all) ref" using attempts_tried(1)[OF ok, of env ref content] by simp
  have inv: "art_inv sha (refs_of ?all) ?w" and bad: "aw_bad ?w = None" using history_inv[OF ok] by simp_all
  have "art_ok sha ?w" using inv by (simp add: art_inv_def)
  note new = new_Returned[OF this never_tried[OF ids] assms(5)]
  show "snd content = None" by (rule new(1))
  note ret = returned_ready[OF inv t assms(4,5)]
  show "x = ref" by (rule ret(2))
  have "aw_bad w' = None" using keepsD[OF root.keeps_publish bad, of sha env ref content] assms(5) by simp
  then show "acquire_artifact sha ref w' = Inr (fst content)"
    using ret(1,3) new(2) ready_acquired[of sha w' ref] by (auto simp: art_inv_def)
qed

section \<open>The properties\<close>

definition demo_ref :: attachment_ref where
  "demo_ref = \<lparr>at_id = ''a1'', at_kind = FileKind, at_filename = Some ''n.txt'', at_media = None, at_size = 2,
    at_sha = replicate 64 CHR ''0''\<rparr>"

definition demo_env :: "(nat \<Rightarrow> fault) \<Rightarrow> publish_env" where
  "demo_env faults = \<lparr>pe_fault = faults, pe_partial = 1, pe_clock = (\<lambda>_. ''t''), pe_error = ''e''\<rparr>"

definition demo_sha :: "string \<Rightarrow> string" where
  "demo_sha d = replicate 64 (if d = ''hi'' then CHR ''0'' else CHR ''1'')"

text \<open>The process died after the link, then an attempt completed, then one more failed.\<close>

definition demo_before :: "publish_attempt list" where
  "demo_before = [(demo_env (\<lambda>k. if k = 5 then Dies else NoFault), demo_ref, (''hi'', None)),
     (demo_env (\<lambda>k. if k = 8 then Dies else NoFault), demo_ref, (''hi'', None))]"

definition demo_after :: "publish_attempt list" where
  "demo_after = [(demo_env (\<lambda>k. if k = 2 then Raises OSError else NoFault), demo_ref, (''hi'', None))]"

lemma demo_ok: "attempts_ok demo_sha (demo_before @ (demo_env (\<lambda>_. NoFault), demo_ref, (''hi'', None)) # demo_after)"
  by code_simp

lemma demo_returns:
  "fst (publish_content demo_sha (demo_env (\<lambda>_. NoFault)) demo_ref (''hi'', None)
     (publish_all demo_sha demo_before empty_artifacts)) = Returned demo_ref"
  by code_simp

text \<open>C13. A reference that a publication returned is the one that was asked for, and it can be acquired,
  with the same exact bytes, after any later attempts on any identities, whatever fails or dies in
  them and whatever was left by earlier ones.\<close>

theorem returned_stays_readable:
  assumes "attempts_ok sha (before @ (env, ref, content) # after)"
    "publish_content sha env ref content (publish_all sha before empty_artifacts) = (Returned x, w)"
  shows "x = ref \<and> (\<exists>d. exact_bytes sha ref d \<and> acquire_artifact sha ref w = Inr d \<and>
    acquire_artifact sha ref (publish_all sha after w) = Inr d)"
proof -
  let ?all = "before @ (env, ref, content) # after" and ?w = "publish_all sha before empty_artifacts"
  have at: "(e, r, c) \<in> set ?all \<Longrightarrow> tried (refs_of ?all) r \<and> good_content sha r c" for e r c
    using attempts_tried[OF assms(1)] by blast
  have here: "tried (refs_of ?all) ref" "good_content sha ref content" using at[of env ref content] by simp_all
  have inv: "art_inv sha (refs_of ?all) ?w" "aw_bad ?w = None" by (rule history_inv[OF assms(1)])+
  note ret = returned_ready[OF inv(1) here assms(2)]
  obtain a where a: "rdy w (at_id ref) = Some a" "ar_ref a = ref" using ret(3) by blast
  have bad: "aw_bad w = None"
    using keepsD[OF root.keeps_publish inv(2), of sha env ref content] assms(2) by simp
  have "\<exists>d. exact_bytes sha ref d \<and> acquire_artifact sha ref w = Inr d \<and> acquire_artifact sha ref (publish_all sha after w) = Inr d"
    by (rule ready_acquired_later[OF ret(1) bad a]) (use at in auto)
  then show ?thesis using ret(2) by simp
qed

theorem returned_stays_readable_witness:
  "\<exists>w d. publish_content demo_sha (demo_env (\<lambda>_. NoFault)) demo_ref (''hi'', None)
       (publish_all demo_sha demo_before empty_artifacts) = (Returned demo_ref, w) \<and>
     acquire_artifact demo_sha demo_ref (publish_all demo_sha demo_after w) = Inr d"
proof -
  obtain w where w: "publish_content demo_sha (demo_env (\<lambda>_. NoFault)) demo_ref (''hi'', None)
       (publish_all demo_sha demo_before empty_artifacts) = (Returned demo_ref, w)"
    using demo_returns by (metis prod.collapse)
  show ?thesis using returned_stays_readable[OF demo_ok w] w by blast
qed

text \<open>C14. Whatever earlier attempts left behind - a staging file, a linked file, an import in any phase - an
  attempt that meets no fault and has the complete content returns the reference.\<close>

theorem publication_completes:
  assumes "attempts_ok sha (before @ [(env, ref, content)])" "snd content = None"
    "\<forall>k. pe_fault env k = NoFault \<and> pe_clock env k \<noteq> []"
  shows "fst (publish_content sha env ref content (publish_all sha before empty_artifacts)) = Returned ref"
proof -
  let ?all = "before @ [(env, ref, content)]"
  have here: "tried (refs_of ?all) ref" "good_content sha ref content"
    using attempts_tried[OF assms(1), of env ref content] by simp_all
  have "\<exists>w'. publish_content sha env ref content (publish_all sha before empty_artifacts) = (Returned ref, w')"
    by (rule publish_completes[OF history_inv[OF assms(1)] here assms(2)]) (use assms(3) in simp_all)
  then show ?thesis by auto
qed

theorem publication_completes_witness:
  "fst (publish_content demo_sha (demo_env (\<lambda>_. NoFault)) demo_ref (''hi'', None)
     (publish_all demo_sha demo_before empty_artifacts)) = Returned demo_ref"
proof (rule publication_completes)
  show "attempts_ok demo_sha (demo_before @ [(demo_env (\<lambda>_. NoFault), demo_ref, (''hi'', None))])" by code_simp
qed (simp_all add: demo_env_def)

lemma image_by_signature:
  "candidate_ref i kind filename media n digest head = Inr ref \<Longrightarrow>
     at_kind ref = ImageKind \<longleftrightarrow> detect_supported_image_mime head \<noteq> None"
  by (auto simp: candidate_ref_def checked_ref_def verified_attachment_type_def
    split: prod.split_asm if_split_asm option.split_asm option.split)

text \<open>C15. Importing bytes under a new identity: the reference that is returned belongs to that identity, is
  of the kind image exactly when the bytes start like one, respects the limit, and what is read through
  it is exactly the bytes, however the writes were cut.\<close>

theorem imported_bytes_read_back:
  assumes "attempts_ok sha before" "new \<notin> at_id ` refs_of before"
    "import_bytes sha env counts max_bytes new data kind filename media (publish_all sha before empty_artifacts) =
       (Returned ref, w)"
  shows "at_id ref = new \<and> int (length data) \<le> max_bytes \<and>
    (at_kind ref = ImageKind \<longleftrightarrow> detect_supported_image_mime (take 12 data) \<noteq> None) \<and>
    attempt (acquire_artifact sha ref w) (\<lambda>d. read_bytes ref max_bytes (Some d)) = Inr data"
proof -
  obtain r where r: "candidate_ref new kind filename media (int (length data)) (sha data) (take 12 data) = Inr r"
    "publish_content sha env r (written_by counts data) (publish_all sha before empty_artifacts) = (Returned ref, w)"
    and limit: "int (length data) \<le> max_bytes"
    using assms(3) by (auto simp: import_bytes_def split: if_split_asm sum.split_asm)
  note c = candidate_facts[OF r(1)]
  have free: "at_id r \<notin> at_id ` refs_of before" using assms(2) c(1) by simp
  have good: "good_content sha r (written_by counts data)" by (rule written_good) (simp_all add: c)
  note p = new_published[OF assms(1) free c(4) good r(2)]
  have "fst (written_by counts data) = data"
    using written_complete[of counts data] p(2) by (cases "written_by counts data") simp
  then have a: "acquire_artifact sha ref w = Inr data" using p(1,3) by simp
  have "read_bytes ref max_bytes (Some data) = Inr data"
    using c(2) p(1) limit by (simp add: read_bytes_def)
  then show ?thesis using a c(1) p(1) limit image_by_signature[OF r(1)] by simp
qed

lemma demo_import:
  "fst (import_bytes demo_sha (demo_env (\<lambda>_. NoFault)) (\<lambda>_. 1) 5 ''b2'' ''hi'' ImageKind (Some ''n.txt'') None
     (publish_all demo_sha demo_before empty_artifacts)) = Returned (demo_ref\<lparr>at_id := ''b2''\<rparr>)"
  by code_simp

lemma demo_before_ok: "attempts_ok demo_sha demo_before" "''b2'' \<notin> at_id ` refs_of demo_before"
  by code_simp+

theorem imported_bytes_read_back_witness:
  "\<exists>ref w. import_bytes demo_sha (demo_env (\<lambda>_. NoFault)) (\<lambda>_. 1) 5 ''b2'' ''hi'' ImageKind (Some ''n.txt'') None
     (publish_all demo_sha demo_before empty_artifacts) = (Returned ref, w) \<and>
     attempt (acquire_artifact demo_sha ref w) (\<lambda>d. read_bytes ref 5 (Some d)) = Inr ''hi''"
proof -
  obtain w where w: "import_bytes demo_sha (demo_env (\<lambda>_. NoFault)) (\<lambda>_. 1) 5 ''b2'' ''hi'' ImageKind (Some ''n.txt'') None
     (publish_all demo_sha demo_before empty_artifacts) = (Returned (demo_ref\<lparr>at_id := ''b2''\<rparr>), w)"
    using demo_import by (metis prod.collapse)
  show ?thesis using imported_bytes_read_back[OF demo_before_ok w] w by blast
qed


definition demo_source :: source_view where
  "demo_source = \<lparr>sv_path = None, sv_stat = (\<lambda>_. \<lparr>ss_device = 1, ss_inode = 7, ss_size = 2, ss_mtime = 9, ss_regular = True\<rparr>),
    sv_bytes = (\<lambda>_. ''hi'')\<rparr>"

lemma demo_adopt:
  "fst (adopt_file demo_sha (demo_env (\<lambda>_. NoFault)) (\<lambda>_. 1) 5 ''b2'' demo_source FileKind (Some ''n.txt'') None
     (publish_all demo_sha demo_before empty_artifacts)) = Returned (demo_ref\<lparr>at_id := ''b2''\<rparr>)"
  by code_simp


section \<open>Other identities\<close>

text \<open>An identity that stands for another size or hash: refused, and nothing that is published changes.\<close>

lemma other_content_refused:
  assumes "imp w (at_id ref) = Some r" "im_size r \<noteq> at_size ref \<or> im_sha r \<noteq> at_sha ref"
  shows "\<forall>x. fst (publish_content sha env ref content w) \<noteq> Returned x"
    "aw_db (snd (publish_content sha env ref content w)) = aw_db w"
proof -
  let ?started = "begin_import (at_id ref) (storage_key (at_id ref)) (at_size ref) (at_sha ref) (pe_clock env 0)"
  have b: "\<exists>e. ?started (aw_db w) = (Inl e, aw_db w)"
    using assms by (auto simp: begin_import_def Let_def same_import_def)
  obtain x w1 where r: "effect (pe_fault env 0) (resolve_root True) w = (x, w1)" by fastforce
  have w1: "aw_db w1 = aw_db w" using r
    by (auto simp: effect_def resolve_root_def split: fault.split_asm prod.split_asm sum.split_asm option.split_asm)
  have h: "aw_db (snd (handle env (at_id ref) False False (Raised e :: attachment_ref ending, v))) = aw_db v \<and>
      (\<forall>x. fst (handle env (at_id ref) False False (Raised e :: attachment_ref ending, v)) \<noteq> Returned x)" for e v
    by (simp add: handle_def bind_action_def drop_staging_def split: fault.split)
  have s: "effect (pe_fault env 1) (on_db ?started) w1 \<in> {(Died, w1)} \<union> {(Raised e, w1) | e. True}"
    using b w1 by (auto simp: effect_def on_db_def split: fault.split)
  have h1: "fst (handle env (at_id ref) False False (Raised e :: attachment_ref ending, v)) \<noteq> Returned x" for e v x
    using h by blast
  show "\<forall>x. fst (publish_content sha env ref content w) \<noteq> Returned x"
    using r s by (cases x) (auto simp: publish_content_def h1)
  show "aw_db (snd (publish_content sha env ref content w)) = aw_db w"
    using r s h w1 by (cases x) (auto simp: publish_content_def)
qed

text \<open>What an attempt that died has staged is not cleared by attempts on other identities, and the check
  of the files fails as long as it is there.\<close>

lemma staging_never_cleared:
  assumes "entry_at w (staging_name i) = Some e" "i \<noteq> []" "\<And>ref. ref \<in> refs_of as \<Longrightarrow> at_id ref \<noteq> i"
  shows "\<exists>x. validate_files sha (publish_all sha as w) = Inl x"
proof -
  let ?w = "publish_all sha as w"
  have "entry_at ?w (staging_name i) = Some e"
  proof (rule all_keep[where P = "\<lambda>w. entry_at w (staging_name i) = Some e"])
    fix env ref content assume "(env, ref, content) \<in> set as"
    then have "ref \<in> refs_of as" by (force simp: refs_of_def)
    then show "publication_frame ref (\<lambda>w. entry_at w (staging_name i) = Some e)" using assms(3) by (intro staging_stays) blast
  qed (rule assms(1))
  then obtain d where d: "aw_dir ?w = Some d" "(staging_name i, e) \<in> set d"
    by (cases "aw_dir ?w") (auto simp: entries_def dest: map_of_SomeD)
  have "starts ''.'' (staging_name i)" "5 < length (staging_name i)" "ends_with ''.part'' (staging_name i)"
    using assms(2) by (auto simp: starts_def staging_name_def ends_with_def)
  then have "list_ex (\<lambda>(n, _). starts ''.'' n \<and> 5 < length n \<and> ends_with ''.part'' n) d"
    using d(2) by (auto simp: list_ex_iff)
  then show ?thesis using d(1)
    by (cases "validate_files sha ?w") (auto simp: validate_files_def attempt_eq_Inr fail_if_def resolve_root_def
      split: option.split_asm if_split_asm)
qed

end
