(* ===== verification/Spec2Isabelle.thy ===== *)
theory Spec2Isabelle
  imports Turn_Projection Runtime_Properties Command_Properties Delivery_Properties Custody_Properties Artifact_Properties
begin

text \<open>
  The core of the agent \<open>kirakira-agent\<close>: the message ledger with its owners' records, the logical
  turns read off the log, the goals that keep an agent working, and the ledger's durable
  boundaries (deliveries to the outside, inputs from channels, attachments).

  \<^bold>\<open>The program.\<close> Everything that an agent has seen or said is a message of a Session in one
  SQLite database (\<open>src/plugins/ledger/log.py\<close>). Writers that hold a grant append messages, one
  source after the other; readers and followers read ranges of them. A plugin keeps its own state
  beside the log as versioned records of an owner, and changes records and log together in one
  transaction. On top of this
    \<^item> the turn projection reads a source's messages as turns (an input, its answers, how it ended);
    \<^item> the goal plugin keeps one goal per Session, settles each round of work against the log and
      posts the next continuation in the transaction that counts the round;
    \<^item> the delivery service sends a message to the outside at most once, and projects and settles it;
    \<^item> the custody takes inputs of channels over a table of handoffs into the log, while a lease keeps
      the Session from being deleted;
    \<^item> the attachment store publishes files next to their metadata.

  \<^bold>\<open>The theories\<close>, in the order of the code they rest on:
    \<^item> \<open>Prelude\<close>: exceptions and results (\<open>py_error\<close>, \<open>res\<close>, \<open>attempt\<close>), tables as lists, text.
      \<open>Json\<close>: \<open>core/common/frozen_json.py\<close> and JSON objects. \<open>Iso_Time\<close>: the stored form of times.
    \<^item> \<open>Ledger_Content\<close>: the values of \<open>plugins/ledger/contract.py\<close> with their checks and codecs.
      \<open>Ledger_Tables\<close>: the database and the queries of \<open>MessageReader\<close>. \<open>Ledger_Writer\<close>:
      \<open>MessageWriter\<close>, replay, preparation and insertion. \<open>Ledger_Invariant\<close>, \<open>Ledger_Properties\<close>: what
      appending keeps and does. \<open>Ledger_Scan\<close>: the loops of the reader (pages, the incremental cache, a
      follower's pass). \<open>Ledger_Sessions\<close>: creation, deletion, bindings, titles, the directory.
    \<^item> \<open>Owner_State\<close>, \<open>Owner_Properties\<close>, \<open>Owner_Runs\<close>: \<open>OwnerStore\<close> and \<open>OwnerTransaction\<close> of \<open>log.py\<close>; a
      transaction's callback is a tree of operations (\<open>tx_res\<close> and its monad).
    \<^item> \<open>Turn_Projection\<close>: \<open>plugins/turn_projection\<close>.
    \<^item> \<open>Goal_State\<close>: \<open>plugins/goal/state.py\<close>. \<open>Goal_Codec\<close>, \<open>Goal_Store\<close>, \<open>Goal_Properties\<close>: \<open>store.py\<close>.
      \<open>Goal_Runtime\<close>, \<open>Runtime_Properties\<close>: \<open>runtime.py\<close>. \<open>Goal_Commands\<close>, \<open>Command_Properties\<close>: \<open>command.py\<close>
      and \<open>tools.py\<close>.
    \<^item> \<open>Delivery_Store\<close>, \<open>Delivery_Flow\<close>, \<open>Delivery_Properties\<close>: \<open>plugins/ledger/durable_delivery_store.py\<close> and
      \<open>durable_deliveries.py\<close>.
    \<^item> \<open>Inbound_Store\<close>, \<open>Inbound_Message\<close>, \<open>Inbound_Properties\<close>: \<open>inbound_store.py\<close>, the inbound messages of
      \<open>plugins/channels/contract.py\<close> and their rows. \<open>Custody\<close>, \<open>Custody_Properties\<close>: \<open>custody.py\<close> with the
      leases of \<open>admissions.py\<close>.
    \<^item> \<open>Artifact_Store\<close>: \<open>artifact_store.py\<close>. \<open>Artifact_Files\<close>: \<open>attachments.py\<close>. \<open>Artifact_Invariant\<close>,
      \<open>Artifact_Properties\<close>: what holds of them.

  \<^bold>\<open>State and operations.\<close> A table is a list of records in the order of insertion; an operation is a
  function from its arguments and the tables to a result (\<open>Inl\<close> an exception, \<open>Inr\<close> a value) and the
  new tables. A transaction that raises leaves the tables as they were. Where the code takes several
  transactions for one call, other writers may act between them: the model takes their effect as an
  argument (\<open>interference\<close>), and the theorems hold for all of them, or for all that keep the database
  well-formed. Crashes are steps of a history (deliveries, custody) or faults of an effect (attachments).

  \<^bold>\<open>What is shown.\<close>
    \<^item> The ledger: its invariant holds over every run, history only grows, an append adds exactly one
      row, is repeated without effect, compares the head of its source, and a call gets one result;
      codecs are inverse to each other; scans, caches and directory walks hand out exactly what is there.
    \<^item> Owners: a transaction is all or nothing, an outdated save conflicts. The laws of a versioned
      store are the locale \<open>cas_store\<close>, interpreted on the owner's records; what a transaction keeps is
      the locale \<open>tx_invariant\<close>, interpreted on the database's and on the history's invariant.
    \<^item> Turns: every message is in its turn once and in order; projecting from a boundary is exact.
    \<^item> Goals: a request is applied once; settlements and applications are single steps of an abstract
      store of one versioned goal per Session; goals keep their invariant, continuations are bounded;
      the runtime continues only what ended by itself, stops on unknown usage and loses no wake-up.
    \<^item> Deliveries: the provider is called at most once over all histories of crashes and retries, rows
      only move forward, recovery offers exactly what is unfinished, a new delivery completes. Relations
      that every operation of the store respects are the locale \<open>run_relation\<close>.
    \<^item> Custody: an input has at most one owner, is not lost, is handed out while it is free, returns
      when it is given back; cleanup completes. Rows are read back as written.
    \<^item> Attachments: a returned reference stays readable with its exact bytes whatever fails later, an
      attempt without faults completes what earlier ones left, imported and adopted content is what was
      given. What every effect of a publication keeps is the locale \<open>publication_frame\<close>.

  \<^bold>\<open>Bounds.\<close> Pages of 1000 messages and 256 handoffs, three attempts of the goal store and of the
  runtime's decision, 1024 receipts, 100 continuations, and the limits on sizes and lengths are the
  code's. No fuel is used: loops are structural recursion or have a termination proof (scans by the
  positions left, the directory by the rows after the cursor, writes by the bytes left).

  \<^bold>\<open>Parameters\<close> stand for what the code calls but does not contain, or what the model leaves
  open: the hash (\<open>sha\<close>), validators of content kinds, the sender and the projector of a delivery, the
  clock, fresh identities, the checks of paths in the file system, the argument check of the tools.

  \<^bold>\<open>Simplifications.\<close> Text is a list of characters of the range of \<open>char\<close>, each a code point; JSON values are
  finite trees with integers; SQLite is the serial execution of its transactions, without lock timeouts
  or failing commits unless a fault argument says so; \<open>asyncio\<close> waiting, cancellation shields, listeners and
  caches of connections are left out; opening and migrating files is left out except for the checks of
  schemas.

  \<^bold>\<open>Not modelled\<close>: the plugin host and the bootstrap (module loading, tasks), adapters of model
  providers and channels (network), the akasha memory (numeric retrieval over external embeddings), event
  mail, tool execution, the conversation, reply and context programs and the other plugins (asynchronous
  orchestration of model calls and of processes), front ends, migrations, scripts and evaluation.
\<close>

end
